(* ===== verification/Go_Prelude.thy ===== *)
theory Go_Prelude imports Main "HOL-Library.Signed_Division" "HOL-Library.Multiset" begin

section \<open>The Go fragment the components share\<close>

text \<open>
  What the models use of the Go language and its standard library: 64-bit wrap-around,
  truncating division, byte strings with the few functions of package strings and strconv the
  sources call, and the generic list facts the component theories share.

  \<^item> Go int and int64 values are \<open>int\<close>; where the source's arithmetic can leave the 64-bit
    range the result is wrapped with \<open>w64\<close>. Where it cannot (counters, connection budgets) the
    plain integer operation is used.
  \<^item> Go strings are byte lists, Isabelle's \<open>string\<close>. Case folding and white space are the ASCII
    part of what package strings does.
  \<^item> A Go error result is the left side of a sum, a missing map entry is None.
\<close>

named_theorems go_eval \<open>definitions unfolded when a witness evaluates a model\<close>

subsection \<open>Integers\<close>

type_synonym go_int = int

definition max_int64 :: int where
  "max_int64 = 2 ^ 63 - 1"

definition w64 :: "int \<Rightarrow> int" where
  "w64 x = (x + 2 ^ 63) mod 2 ^ 64 - 2 ^ 63"

lemma w64_id [simp]: "- (2 ^ 63) \<le> x \<Longrightarrow> x < 2 ^ 63 \<Longrightarrow> w64 x = x"
  unfolding w64_def by (simp add: mod_pos_pos_trivial)

lemma w64_range: "- (2 ^ 63) \<le> w64 x" "w64 x < 2 ^ 63"
proof -
  have "0 \<le> (x + 2 ^ 63) mod 2 ^ 64" "(x + 2 ^ 63) mod 2 ^ 64 < (2 :: int) ^ 64"
    by (rule pos_mod_sign, simp) (rule pos_mod_bound, simp)
  then show "- (2 ^ 63) \<le> w64 x" "w64 x < 2 ^ 63" unfolding w64_def by simp_all
qed

lemma sdiv_nonneg: "0 \<le> (a::int) \<Longrightarrow> 0 < b \<Longrightarrow> a sdiv b = a div b"
  by (cases "a = 0") (simp_all add: signed_divide_int_def sgn_1_pos)

lemma smod_nonneg: "0 \<le> (a::int) \<Longrightarrow> 0 < b \<Longrightarrow> a smod b = a mod b"
  by (cases "a = 0") (simp_all add: signed_modulo_int_def sgn_1_pos)

subsection \<open>Lists\<close>

lemma sum_list_update_int:
  "i < length xs \<Longrightarrow> sum_list (xs[i := (x::int)]) = sum_list xs - xs ! i + x"
  by (induction xs arbitrary: i) (auto split: nat.splits)

lemma sum_list_map_const_int [simp]: "sum_list (map (\<lambda>_. (c::int)) xs) = int (length xs) * c"
  by (induction xs) (auto simp: algebra_simps)

lemma sum_list_nonneg_ge_length:
  "(\<forall>x \<in> set xs. (1::int) \<le> x) \<Longrightarrow> int (length xs) \<le> sum_list xs"
  by (induction xs) auto

lemma distinct_mono_filter: "distinct (map f xs) \<Longrightarrow> distinct (map f (filter P xs))"
  by (induction xs) auto

lemma case_option_ex: "(case r of None \<Rightarrow> False | Some s \<Rightarrow> P s) \<Longrightarrow> \<exists>s. r = Some s \<and> P s"
  by (cases r) auto

subsection \<open>Strings\<close>

definition is_space :: "char \<Rightarrow> bool" where
  "is_space c \<longleftrightarrow> c \<in> set [CHR '' '', CHR 0x09, CHR 0x0A, CHR 0x0B, CHR 0x0C, CHR 0x0D]"

definition trim_left :: "string \<Rightarrow> string" where
  "trim_left s = dropWhile is_space s"

definition trim_space :: "string \<Rightarrow> string" where
  "trim_space s = rev (trim_left (rev (trim_left s)))"

declare is_space_def [go_eval] trim_left_def [go_eval] trim_space_def [go_eval] Let_def [go_eval]

lemma trim_id: "s \<noteq> [] \<Longrightarrow> \<not> is_space (hd s) \<Longrightarrow> \<not> is_space (last s) \<Longrightarrow> trim_space s = s"
proof -
  assume a: "s \<noteq> []" "\<not> is_space (hd s)" "\<not> is_space (last s)"
  have "trim_left s = s" using a by (cases s) (auto simp: trim_left_def)
  moreover have "rev s = last s # rev (butlast s)"
    using a by (metis append_butlast_last_id rev_eq_Cons_iff rev_rev_ident)
  then have "trim_left (rev s) = rev s" using a unfolding trim_left_def by (metis dropWhile.simps(2))
  ultimately show ?thesis by (simp add: trim_space_def)
qed

fun has_prefix :: "string \<Rightarrow> string \<Rightarrow> bool" where
  "has_prefix s [] = True"
| "has_prefix [] (p # ps) = False"
| "has_prefix (c # s) (p # ps) = (c = p \<and> has_prefix s ps)"

definition has_suffix :: "string \<Rightarrow> string \<Rightarrow> bool" where
  "has_suffix s p = has_prefix (rev s) (rev p)"

definition trim_prefix :: "string \<Rightarrow> string \<Rightarrow> string" where
  "trim_prefix s p = (if has_prefix s p then drop (length p) s else s)"

definition trim_suffix :: "string \<Rightarrow> string \<Rightarrow> string" where
  "trim_suffix s p = (if has_suffix s p then take (length s - length p) s else s)"

text \<open>strings.Cut: the text before and after the first occurrence of a separator.\<close>

fun str_cut :: "string \<Rightarrow> string \<Rightarrow> (string \<times> string) option" where
  "str_cut [] sep = (if sep = [] then Some ([], []) else None)"
| "str_cut (c # s) sep =
     (if has_prefix (c # s) sep then Some ([], drop (length sep) (c # s))
      else case str_cut s sep of None \<Rightarrow> None | Some (b, a) \<Rightarrow> Some (c # b, a))"

definition to_lower_char :: "char \<Rightarrow> char" where
  "to_lower_char c =
     (if 65 \<le> (of_char c :: nat) \<and> (of_char c :: nat) \<le> 90 then char_of (of_char c + 32 :: nat) else c)"

definition to_upper_char :: "char \<Rightarrow> char" where
  "to_upper_char c =
     (if 97 \<le> (of_char c :: nat) \<and> (of_char c :: nat) \<le> 122 then char_of (of_char c - 32 :: nat) else c)"

definition to_lower :: "string \<Rightarrow> string" where
  "to_lower s = map to_lower_char s"

definition to_upper :: "string \<Rightarrow> string" where
  "to_upper s = map to_upper_char s"

definition equal_fold :: "string \<Rightarrow> string \<Rightarrow> bool" where
  "equal_fold s t \<longleftrightarrow> to_lower s = to_lower t"

lemma has_prefix_append [simp]: "has_prefix (p @ s) p"
  by (induction p) auto

lemma has_prefix_iff: "has_prefix s p \<longleftrightarrow> (\<exists>t. s = p @ t)"
  by (induction s p rule: has_prefix.induct) auto

lemma has_suffix_iff: "has_suffix s p \<longleftrightarrow> (\<exists>t. s = t @ p)"
proof
  assume "has_suffix s p"
  then obtain t where "rev s = rev p @ t" by (auto simp: has_suffix_def has_prefix_iff)
  then have "s = rev t @ p" by (metis rev_append rev_rev_ident)
  then show "\<exists>t. s = t @ p" ..
qed (auto simp: has_suffix_def)

lemma str_cut_Some: "str_cut s sep = Some (b, a) \<Longrightarrow> s = b @ sep @ a"
proof (induction s sep arbitrary: b rule: str_cut.induct)
  case (2 c s sep)
  show ?case
  proof (cases "has_prefix (c # s) sep")
    case True
    then obtain t where t: "c # s = sep @ t" by (auto simp: has_prefix_iff)
    from True "2.prems" have "b = []" "a = drop (length sep) (c # s)" by auto
    then show ?thesis by (simp add: t)
  next
    case False
    with 2 show ?thesis by (auto split: option.splits)
  qed
qed (auto split: if_splits)

subsection \<open>Decimal numbers\<close>

definition digit_char :: "nat \<Rightarrow> char" where
  "digit_char d = char_of (48 + d)"

fun nat_digits :: "nat \<Rightarrow> string" where
  "nat_digits n = (if n < 10 then [digit_char n] else nat_digits (n div 10) @ [digit_char (n mod 10)])"

declare nat_digits.simps [simp del]

text \<open>strconv.FormatInt, fmt's verb d.\<close>

definition itoa :: "int \<Rightarrow> string" where
  "itoa i = (if i < 0 then CHR ''-'' # nat_digits (nat (- i)) else nat_digits (nat i))"

lemma digit_char_numerals [simp]:
  "digit_char 0 = CHR ''0''" "digit_char (Suc 0) = CHR ''1''" "digit_char 1 = CHR ''1''" "digit_char 2 = CHR ''2''"
  "digit_char 3 = CHR ''3''" "digit_char 4 = CHR ''4''" "digit_char 5 = CHR ''5''" "digit_char 6 = CHR ''6''"
  "digit_char 7 = CHR ''7''" "digit_char 8 = CHR ''8''" "digit_char 9 = CHR ''9''"
  by (rule of_char_eq_iff [where 'a = nat, THEN iffD1], simp add: digit_char_def)+

definition digit_val :: "char \<Rightarrow> nat option" where
  "digit_val c =
     (let n = (of_char c :: nat) in if 48 \<le> n \<and> n \<le> 57 then Some (n - 48) else None)"

fun parse_digits :: "nat \<Rightarrow> string \<Rightarrow> nat option" where
  "parse_digits acc [] = Some acc"
| "parse_digits acc (c # s) =
     (case digit_val c of None \<Rightarrow> None | Some d \<Rightarrow> parse_digits (10 * acc + d) s)"

lemma digit_val_digit_char [simp]: "d < 10 \<Longrightarrow> digit_val (digit_char d) = Some d"
  by (simp add: digit_val_def digit_char_def)

lemma parse_digits_append:
  "parse_digits a (s @ t) = (case parse_digits a s of None \<Rightarrow> None | Some b \<Rightarrow> parse_digits b t)"
  by (induction a s rule: parse_digits.induct) (auto split: option.splits)

lemma parse_digits_nat_digits: "parse_digits 0 (nat_digits n) = Some n"
proof (induction n rule: nat_digits.induct)
  case (1 n)
  show ?case
  proof (cases "n < 10")
    case True
    then show ?thesis by (simp add: nat_digits.simps [of n])
  next
    case False
    with 1 show ?thesis by (simp add: nat_digits.simps [of n] parse_digits_append)
  qed
qed

lemma nat_digits_not_Nil [simp]: "nat_digits n \<noteq> []"
  by (subst nat_digits.simps) simp

lemma nat_digits_inj: "nat_digits m = nat_digits n \<longleftrightarrow> m = n"
  by (metis option.inject parse_digits_nat_digits)

text \<open>
  strconv.ParseInt(s, 10, 64): an optional sign and decimal digits. The value returned beside an
  error is the one Go documents: 0 for a syntax error, the nearest bound for a value out of range.
\<close>

datatype parse_int_result = ParsedInt int | SyntaxErr | RangeErr int

definition parse_int :: "string \<Rightarrow> parse_int_result" where
  "parse_int s =
     (let (neg, body) = (case s of [] \<Rightarrow> (False, [])
          | c # cs \<Rightarrow> if c = CHR ''-'' then (True, cs) else if c = CHR ''+'' then (False, cs)
                      else (False, s))
      in if body = [] then SyntaxErr
         else case parse_digits 0 body of
           None \<Rightarrow> SyntaxErr
         | Some n \<Rightarrow>
             (if neg then (if int n \<le> 2 ^ 63 then ParsedInt (- int n) else RangeErr (- (2 ^ 63)))
              else (if int n < 2 ^ 63 then ParsedInt (int n) else RangeErr max_int64)))"

text \<open>The value of a call whose error is ignored, as in v, underscore := strconv.Atoi(s).\<close>

fun int_or_bound :: "parse_int_result \<Rightarrow> int" where
  "int_or_bound (ParsedInt v) = v"
| "int_or_bound SyntaxErr = 0"
| "int_or_bound (RangeErr v) = v"

lemma nat_digits_hd_digit: "\<exists>d. d < 10 \<and> hd (nat_digits n) = digit_char d"
proof (induction n rule: nat_digits.induct)
  case (1 n)
  show ?case
  proof (cases "n < 10")
    case False
    with 1 show ?thesis by (simp add: nat_digits.simps [of n])
  qed (auto simp: nat_digits.simps [of n])
qed

lemma digit_char_no_sign: "d < 10 \<Longrightarrow> digit_char d \<noteq> CHR ''-'' \<and> digit_char d \<noteq> CHR ''+''"
proof -
  assume d: "d < 10"
  have "digit_val (digit_char d) = Some d" using d by simp
  moreover have "digit_val (CHR ''-'') = None" "digit_val (CHR ''+'') = None"
    by (simp_all add: digit_val_def)
  ultimately show ?thesis by auto
qed

lemma parse_int_itoa: "0 \<le> i \<Longrightarrow> i < 2 ^ 63 \<Longrightarrow> parse_int (itoa i) = ParsedInt i"
proof -
  assume i: "0 \<le> i" "i < 2 ^ 63"
  obtain c cs where c: "nat_digits (nat i) = c # cs" by (cases "nat_digits (nat i)") auto
  obtain d where "d < 10" "c = digit_char d" using nat_digits_hd_digit [of "nat i"] c by auto
  then have "c \<noteq> CHR ''-''" "c \<noteq> CHR ''+''" using digit_char_no_sign by auto
  then show ?thesis using i c parse_digits_nat_digits [of "nat i"]
    by (simp add: itoa_def parse_int_def)
qed

lemma nat_digits_are_digits: "c \<in> set (nat_digits n) \<Longrightarrow> digit_val c \<noteq> None"
proof (induction n rule: nat_digits.induct)
  case (1 n)
  then show ?case by (subst (asm) (2) nat_digits.simps) (auto split: if_splits)
qed

lemma str_cut_first: "c \<notin> set b \<Longrightarrow> str_cut (b @ c # a) [c] = Some (b, a)"
  by (induction b) auto

lemma itoa_no_minus: "0 \<le> i \<Longrightarrow> CHR ''-'' \<notin> set (itoa i)"
  using nat_digits_are_digits [of "CHR ''-''" "nat i"] by (auto simp: itoa_def digit_val_def)

end
