(* ===== verification/Balancer.thy ===== *)
theory Balancer imports Go_Prelude begin

section \<open>The Connection Balancer (internal/scheduler/balancer.go, rebalance.go)\<close>

text \<open>
  The pure allocation functions of package scheduler: \<open>Compute\<close> with its three modes and the
  round-robin \<open>distribute\<close>, and \<open>rebalanceTargets\<close>, the runtime allocator of rebalance.go.
  Connection budgets are far below the machine range, so Go's int is \<open>int\<close> here; division
  truncates (\<open>sdiv\<close>). A Go error is a \<open>compute_error\<close>, one constructor per message.
\<close>

record file_input =
  fi_URL :: string
  fi_SupportsRange :: bool

record allocation =
  al_URL :: string
  al_Connections :: int
  al_SupportsRange :: bool

record plan =
  Parallel :: "allocation list"
  Queued :: "allocation list"
  Warning :: string
  ConnectionBudget :: int
  RebalanceConnections :: bool

datatype compute_error = NoURLs | BudgetBelowOne | SplitFileAboveBudget

definition DefaultMaxConnections :: int where
  "DefaultMaxConnections = 32"

subsection \<open>The round-robin distribution\<close>

text \<open>
  One pass of the inner loop over the slots: it returns the slots, the budget left and the flag
  \<open>advanced\<close>. The loop breaks when the budget reaches 0. Both call sites pass a \<open>skip\<close> of the
  length of \<open>conns\<close> (Go would panic on a shorter one; the second equation is not reached there).
\<close>

fun dist_pass :: "int list \<Rightarrow> bool list \<Rightarrow> int \<Rightarrow> int list \<times> int \<times> bool" where
  "dist_pass [] skip budget = ([], budget, False)"
| "dist_pass (c # conns) [] budget = (c # conns, budget, False)"
| "dist_pass (c # conns) (s # skip) budget =
     (if s then (case dist_pass conns skip budget of (cs, b, adv) \<Rightarrow> (c # cs, b, adv))
      else if budget - 1 = 0 then ((c + 1) # conns, 0, True)
      else (case dist_pass conns skip (budget - 1) of (cs, b, adv) \<Rightarrow> ((c + 1) # cs, b, True)))"

lemma dist_pass_decreases:
  "dist_pass conns skip b = (cs, b', adv) \<Longrightarrow> 0 < b \<Longrightarrow> 0 \<le> b' \<and> b' \<le> b \<and> (adv \<longrightarrow> b' < b)"
  by (induction conns skip b arbitrary: cs b' adv rule: dist_pass.induct)
     (fastforce split: if_splits prod.splits)+

function dist_loop :: "int list \<Rightarrow> bool list \<Rightarrow> int \<Rightarrow> int list" where
  "dist_loop conns skip budget =
     (if budget > 0 then
        (case dist_pass conns skip budget of
           (cs, b, adv) \<Rightarrow> if adv then dist_loop cs skip b else cs)
      else conns)"
  by pat_completeness auto
termination
  by (relation "measure (\<lambda>(conns, skip, budget). nat budget)")
     (auto dest!: dist_pass_decreases [OF sym])

declare dist_loop.simps [simp del]

text \<open>The parameter \<open>skip\<close> is nil-able in Go; None is nil, every slot eligible.\<close>

definition distribute :: "int list \<Rightarrow> int \<Rightarrow> bool list option \<Rightarrow> int list" where
  "distribute conns budget skip =
     (if budget \<le> 0 \<or> conns = [] then conns
      else let sk = (case skip of None \<Rightarrow> replicate (length conns) False | Some s \<Rightarrow> s)
           in if \<not> list_ex Not sk then conns else dist_loop conns sk budget)"

subsection \<open>The three modes\<close>

definition modeA :: "int \<Rightarrow> file_input list \<Rightarrow> int \<Rightarrow> allocation list" where
  "modeA C files mx =
     (case files of [] \<Rightarrow> []
      | f # _ \<Rightarrow>
          [\<lparr>al_URL = fi_URL f,
            al_Connections = (if \<not> fi_SupportsRange f then 1 else min C mx),
            al_SupportsRange = fi_SupportsRange f\<rparr>])"

definition modeB :: "int \<Rightarrow> file_input list \<Rightarrow> int \<Rightarrow> allocation list \<times> allocation list" where
  "modeB C files mx =
     (let slot = min C (min (int (length files)) mx);
          al = map (\<lambda>f. \<lparr>al_URL = fi_URL f, al_Connections = 1,
                          al_SupportsRange = fi_SupportsRange f\<rparr>) files
      in (take (nat slot) al, drop (nat slot) al))"

definition modeC_slots :: "int \<Rightarrow> nat \<Rightarrow> int \<Rightarrow> int \<Rightarrow> nat" where
  "modeC_slots C N SF maxConns = nat (max 1 (min (C sdiv SF) (min (int N) maxConns)))"

definition modeC_conns :: "int \<Rightarrow> file_input list \<Rightarrow> int \<Rightarrow> nat \<Rightarrow> int list" where
  "modeC_conns C files SF parallelFiles =
     (let nonRange = map (\<lambda>f. \<not> fi_SupportsRange f) (take parallelFiles files);
          used = int parallelFiles * SF;
          conns1 = distribute (replicate parallelFiles SF) (C - used) (Some nonRange);
          freed = (\<Sum>(nr, c) \<leftarrow> zip nonRange conns1. if nr \<and> c > 1 then c - 1 else 0);
          conns2 = map2 (\<lambda>nr c. if nr \<and> c > 1 then 1 else c) nonRange conns1
      in if freed > 0 then distribute conns2 freed (Some nonRange) else conns2)"

definition modeC :: "int \<Rightarrow> file_input list \<Rightarrow> int \<Rightarrow> int \<Rightarrow> allocation list \<times> allocation list" where
  "modeC C files SF maxConns =
     (let n = modeC_slots C (length files) SF maxConns;
          conns = modeC_conns C files SF n
      in (map2 (\<lambda>f c. \<lparr>al_URL = fi_URL f, al_Connections = c,
                       al_SupportsRange = fi_SupportsRange f\<rparr>) (take n files) conns,
          map (\<lambda>f. \<lparr>al_URL = fi_URL f,
                     al_Connections = (if \<not> fi_SupportsRange f then 1 else SF),
                     al_SupportsRange = fi_SupportsRange f\<rparr>) (drop n files)))"

text \<open>The two warnings, joined as \<open>Compute\<close> appends them to \<open>plan.Warning\<close>.\<close>

definition compute_warning :: "int \<Rightarrow> nat \<Rightarrow> int \<Rightarrow> int \<Rightarrow> string" where
  "compute_warning C N SF maxConnections =
     (let w = (if C > maxConnections
               then ''connections above '' @ itoa maxConnections @
                    '' may get throttled/blocked by some servers'' else [])
      in if N = 1 \<and> SF > 0
         then w @ (if w \<noteq> [] then ''; '' else []) @ ''-sf '' @ itoa SF @
              '' ignored in single-file mode (entire budget goes to the one file)''
         else w)"

definition Compute :: "int \<Rightarrow> file_input list \<Rightarrow> int \<Rightarrow> int \<Rightarrow> compute_error + plan" where
  "Compute C files SF0 maxConnections0 =
     (let maxConnections = (if maxConnections0 \<le> 0 then DefaultMaxConnections else maxConnections0);
          N = length files
      in if N = 0 then Inl NoURLs
         else if C < 1 then Inl BudgetBelowOne
         else
           let warning = compute_warning C N SF0 maxConnections;
               SF = (if N = 1 \<and> SF0 > 0 then 0 else SF0)
           in if SF > C then Inl SplitFileAboveBudget
              else if N = 1 then
                Inr \<lparr>Parallel = modeA C files maxConnections, Queued = [], Warning = warning,
                     ConnectionBudget = C, RebalanceConnections = False\<rparr>
              else if SF = 0 then
                (case modeB C files maxConnections of (p, q) \<Rightarrow>
                   Inr \<lparr>Parallel = p, Queued = q, Warning = warning,
                        ConnectionBudget = C, RebalanceConnections = False\<rparr>)
              else
                (case modeC C files SF maxConnections of (p, q) \<Rightarrow>
                   Inr \<lparr>Parallel = p, Queued = q, Warning = warning,
                        ConnectionBudget = C, RebalanceConnections = True\<rparr>))"

subsection \<open>The runtime allocator\<close>

text \<open>\<open>rebalanceInput\<close> without its task pointer, which \<open>rebalanceTargets\<close> does not read.\<close>

record rebalance_input =
  rb_id :: string
  rb_rangeCapable :: bool

definition rangeIndexes :: "rebalance_input list \<Rightarrow> nat list" where
  "rangeIndexes inputs = filter (\<lambda>i. rb_rangeCapable (inputs ! i)) [0..<length inputs]"

definition add_share :: "int \<Rightarrow> int \<Rightarrow> nat \<times> nat \<Rightarrow> int list \<Rightarrow> int list" where
  "add_share base extra iidx targets =
     (case iidx of (i, idx) \<Rightarrow>
        targets[idx := targets ! idx + base + (if int i < extra then 1 else 0)])"

definition rebalanceTargets :: "rebalance_input list \<Rightarrow> int \<Rightarrow> int list" where
  "rebalanceTargets inputs budget =
     (let n = length inputs
      in if n = 0 \<or> budget < int n then replicate n 0
         else
           let targets = replicate n 1;
               ri = rangeIndexes inputs;
               remaining = budget - int n
           in if remaining \<le> 0 \<or> ri = [] then targets
              else
                let base = remaining sdiv int (length ri);
                    extra = remaining smod int (length ri)
                in fold (add_share base extra) (enumerate 0 ri) targets)"


subsection \<open>What the round-robin computes\<close>

text \<open>
  \<open>spread\<close> is the specification of the round-robin: every eligible slot gains \<open>base\<close> and the
  first \<open>extra\<close> eligible slots one more; skipped slots keep their value.
\<close>

fun spread :: "int list \<Rightarrow> bool list \<Rightarrow> int \<Rightarrow> int \<Rightarrow> int list" where
  "spread [] skip base extra = []"
| "spread (c # conns) [] base extra = c # conns"
| "spread (c # conns) (s # skip) base extra =
     (if s then c # spread conns skip base extra
      else (c + base + (if 0 < extra then 1 else 0)) # spread conns skip base (extra - 1))"

abbreviation eligible :: "bool list \<Rightarrow> int" where
  "eligible skip \<equiv> int (count_list skip False)"

lemma length_spread [simp]: "length (spread cs ss q r) = length cs"
  by (induction cs ss q r rule: spread.induct) auto

lemma spread_nonpos: "r \<le> 0 \<Longrightarrow> r' \<le> 0 \<Longrightarrow> spread cs ss q r = spread cs ss q r'"
proof (induction cs arbitrary: ss r r')
  case (Cons c cs)
  show ?case
  proof (cases ss)
    case (Cons s ss')
    show ?thesis using Cons Cons.prems Cons.IH [of r r' ss'] Cons.IH [of "r - 1" "r' - 1" ss'] by simp
  qed simp
qed simp

lemma spread_0_minus [simp]: "spread cs ss q (- 1) = spread cs ss q 0"
  by (rule spread_nonpos) simp_all

lemma spread_zero [simp]: "spread cs ss 0 0 = cs"
proof (induction cs arbitrary: ss)
  case (Cons c cs)
  then show ?case by (cases ss) auto
qed auto

lemma spread_sum0:
  "length ss = length cs \<Longrightarrow> sum_list (spread cs ss q 0) = sum_list cs + eligible ss * q"
proof (induction cs arbitrary: ss)
  case (Cons c cs)
  then show ?case by (cases ss) (auto simp: algebra_simps)
qed auto

lemma spread_sum:
  "length ss = length cs \<Longrightarrow> 0 \<le> r \<Longrightarrow>
   sum_list (spread cs ss q r) = sum_list cs + eligible ss * q + min r (eligible ss)"
proof (induction cs arbitrary: ss r)
  case (Cons c cs)
  obtain s ss' where ss: "ss = s # ss'" using Cons.prems by (cases ss) auto
  show ?case
  proof (cases "s \<or> 0 < r")
    case True
    with Cons ss show ?thesis by (auto simp: algebra_simps min_def)
  next
    case False
    with Cons.prems ss show ?thesis by (auto simp: algebra_simps spread_sum0)
  qed
qed auto

lemma spread_compose:
  "0 \<le> r \<Longrightarrow> spread (spread cs ss 0 (eligible ss)) ss q r = spread cs ss (q + 1) r"
proof -
  have "eligible ss \<le> k \<Longrightarrow> spread (spread cs ss 0 k) ss q r = spread cs ss (q + 1) r" for k
  proof (induction cs arbitrary: ss r k)
    case (Cons c cs)
    then show ?case by (cases ss) (auto simp: algebra_simps split: if_splits)
  qed auto
  then show ?thesis by simp
qed

lemma dist_pass_spread:
  "0 < b \<Longrightarrow> length ss = length cs \<Longrightarrow>
   dist_pass cs ss b =
     (spread cs ss 0 (min b (eligible ss)), max 0 (b - eligible ss), 0 < eligible ss)"
proof (induction cs ss b rule: dist_pass.induct)
  case (3 c cs s ss b)
  then show ?case by (auto simp: min_def max_def algebra_simps)
qed auto

lemma eligible_pos: "list_ex Not ss \<longleftrightarrow> 0 < eligible ss"
  by (induction ss) auto

lemma dist_loop_spread:
  "0 \<le> b \<Longrightarrow> length ss = length cs \<Longrightarrow> 0 < eligible ss \<Longrightarrow>
   dist_loop cs ss b = spread cs ss (b div eligible ss) (b mod eligible ss)"
proof (induction "nat b" arbitrary: b cs rule: less_induct)
  case less
  show ?case
  proof (cases "b = 0 \<or> b < eligible ss")
    case True
    with less.prems show ?thesis
      by (auto simp: dist_loop.simps [of cs ss b] dist_loop.simps [of _ ss 0] dist_pass_spread)
  next
    case False
    with less.prems have "dist_loop cs ss b = dist_loop (spread cs ss 0 (eligible ss)) ss (b - eligible ss)"
      by (subst dist_loop.simps) (simp add: dist_pass_spread min_absorb2)
    also have "\<dots> = spread cs ss (b div eligible ss) (b mod eligible ss)"
    proof -
      have "dist_loop (spread cs ss 0 (eligible ss)) ss (b - eligible ss) =
            spread (spread cs ss 0 (eligible ss)) ss ((b - eligible ss) div eligible ss)
              ((b - eligible ss) mod eligible ss)"
        by (rule less.hyps) (use less.prems False in simp_all)
      moreover have "0 \<le> (b - eligible ss) mod eligible ss" using less.prems by simp
      moreover have "b div eligible ss = (b - eligible ss) div eligible ss + 1"
        using less.prems False by (intro div_pos_geq) simp_all
      moreover have "b mod eligible ss = (b - eligible ss) mod eligible ss"
        using less.prems False by (intro mod_pos_geq) simp_all
      ultimately show ?thesis by (simp only: spread_compose)
    qed
    finally show ?thesis .
  qed
qed

text \<open>The eligible slots after \<open>distribute\<close>, the closed form of the loop.\<close>

lemma distribute_spread:
  "0 \<le> b \<Longrightarrow> length ss = length cs \<Longrightarrow> 0 < eligible ss \<Longrightarrow>
   distribute cs b (Some ss) = spread cs ss (b div eligible ss) (b mod eligible ss)"
  by (auto simp: distribute_def eligible_pos dist_loop_spread)

lemma length_distribute [simp]: "length ss = length cs \<Longrightarrow> length (distribute cs b (Some ss)) = length cs"
proof (cases "0 < b \<and> 0 < eligible ss")
  case True
  moreover assume "length ss = length cs"
  ultimately show ?thesis by (simp add: distribute_spread)
qed (auto simp: distribute_def eligible_pos)

lemma distribute_sum:
  "length ss = length cs \<Longrightarrow>
   sum_list (distribute cs b (Some ss)) = sum_list cs + (if 0 < eligible ss then max 0 b else 0)"
proof (cases "0 < b \<and> 0 < eligible ss")
  case True
  moreover assume "length ss = length cs"
  moreover have "min (b mod eligible ss) (eligible ss) = b mod eligible ss"
    using True pos_mod_bound [of "eligible ss" b] by simp
  ultimately show ?thesis
    by (simp add: distribute_spread spread_sum)
qed (auto simp: distribute_def eligible_pos)

lemma spread_nth:
  "length ss = length cs \<Longrightarrow> i < length cs \<Longrightarrow>
   spread cs ss q r ! i =
     (if ss ! i then cs ! i else cs ! i + q + (if eligible (take i ss) < r then 1 else 0))"
proof (induction cs arbitrary: ss r i)
  case (Cons c cs)
  then show ?case by (cases ss; cases i) (auto simp: Cons.IH)
qed auto

lemma distribute_skipped:
  "length ss = length cs \<Longrightarrow> i < length cs \<Longrightarrow> ss ! i \<Longrightarrow> distribute cs b (Some ss) ! i = cs ! i"
proof (cases "0 < b \<and> 0 < eligible ss")
  case True
  moreover assume "length ss = length cs" "i < length cs" "ss ! i"
  ultimately show ?thesis by (simp add: distribute_spread spread_nth)
qed (auto simp: distribute_def eligible_pos)

lemma distribute_mono:
  "length ss = length cs \<Longrightarrow> i < length cs \<Longrightarrow> cs ! i \<le> distribute cs b (Some ss) ! i"
proof (cases "0 < b \<and> 0 < eligible ss")
  case True
  moreover assume "length ss = length cs" "i < length cs"
  ultimately show ?thesis by (simp add: distribute_spread spread_nth pos_imp_zdiv_nonneg_iff)
qed (auto simp: distribute_def eligible_pos)

lemma spread_append:
  "length ss = length cs \<Longrightarrow>
   spread (cs @ [c]) (ss @ [s]) q r =
     spread cs ss q r @ [if s then c else c + q + (if eligible ss < r then 1 else 0)]"
proof (induction cs arbitrary: ss r)
  case (Cons c cs)
  then show ?case by (cases ss) (auto simp: Cons.IH)
qed auto

subsection \<open>The runtime allocator is the same round-robin\<close>

lemma length_add_share [simp]: "length (add_share q r p xs) = length xs"
  by (simp add: add_share_def split: prod.splits)

lemma fold_add_share_append:
  "\<forall>p \<in> set ps. snd p < length xs \<Longrightarrow>
   fold (add_share q r) ps (xs @ ys) = fold (add_share q r) ps xs @ ys"
  by (induction ps arbitrary: xs)
     (auto simp: add_share_def list_update_append nth_append split: prod.splits)

lemma length_rangeIndexes: "length (rangeIndexes inputs) = count_list (map (\<lambda>x. \<not> rb_rangeCapable x) inputs) False"
proof (induction inputs rule: rev_induct)
  case (snoc x xs)
  have "filter (\<lambda>i. rb_rangeCapable ((xs @ [x]) ! i)) [0..<length xs] = rangeIndexes xs"
    unfolding rangeIndexes_def by (rule filter_cong) (auto simp: nth_append)
  with snoc show ?case by (simp add: rangeIndexes_def)
qed (simp add: rangeIndexes_def)

lemma rangeIndexes_snoc:
  "rangeIndexes (xs @ [x]) = rangeIndexes xs @ (if rb_rangeCapable x then [length xs] else [])"
proof -
  have "filter (\<lambda>i. rb_rangeCapable ((xs @ [x]) ! i)) [0..<length xs] = rangeIndexes xs"
    unfolding rangeIndexes_def by (rule filter_cong) (auto simp: nth_append)
  then show ?thesis by (simp add: rangeIndexes_def)
qed

lemma fold_share_spread:
  "fold (add_share q r) (enumerate 0 (rangeIndexes inputs)) (replicate (length inputs) 1) =
   spread (replicate (length inputs) 1) (map (\<lambda>x. \<not> rb_rangeCapable x) inputs) q r"
proof (induction inputs rule: rev_induct)
  case (snoc x xs)
  let ?ps = "enumerate 0 (rangeIndexes xs)"
  have b: "\<forall>p \<in> set ?ps. snd p < length (replicate (length xs) (1::int))"
    by (auto simp: enumerate_eq_zip rangeIndexes_def dest!: set_zip_rightD)
  have rep: "replicate (length (xs @ [x])) (1::int) = replicate (length xs) 1 @ [1]"
    by (simp add: replicate_append_same)
  have "fold (add_share q r) (enumerate 0 (rangeIndexes (xs @ [x]))) (replicate (length xs) 1 @ [1]) =
        fold (add_share q r) (enumerate (length (rangeIndexes xs)) (if rb_rangeCapable x then [length xs] else []))
          (fold (add_share q r) ?ps (replicate (length xs) 1) @ [1])"
    unfolding rangeIndexes_snoc enumerate_append_eq fold_append comp_def add_0 fold_add_share_append [OF b] ..
  also have "\<dots> = spread (replicate (length xs) 1) (map (\<lambda>x. \<not> rb_rangeCapable x) xs) q r @
      [if rb_rangeCapable x then 1 + q + (if int (length (rangeIndexes xs)) < r then 1 else 0) else 1]"
    unfolding snoc.IH by (simp add: add_share_def list_update_append nth_append)
  finally show ?case
    unfolding rep by (simp add: spread_append length_rangeIndexes)
qed (simp add: rangeIndexes_def)

lemma rebalance_spread:
  "inputs \<noteq> [] \<Longrightarrow> int (length inputs) \<le> budget \<Longrightarrow>
   rebalanceTargets inputs budget =
     distribute (replicate (length inputs) 1) (budget - int (length inputs))
       (Some (map (\<lambda>x. \<not> rb_rangeCapable x) inputs))"
proof -
  assume a: "inputs \<noteq> []" "int (length inputs) \<le> budget"
  let ?ss = "map (\<lambda>x. \<not> rb_rangeCapable x) inputs"
  have k: "length (rangeIndexes inputs) = count_list ?ss False" by (rule length_rangeIndexes)
  show ?thesis
  proof (cases "budget = int (length inputs) \<or> rangeIndexes inputs = []")
    case True
    with a k show ?thesis by (auto simp: rebalanceTargets_def distribute_def eligible_pos)
  next
    case False
    then have "0 < eligible ?ss" using k by (metis length_0_conv neq0_conv of_nat_0_less_iff)
    with a k False show ?thesis
      by (simp add: rebalanceTargets_def distribute_spread Let_def sdiv_nonneg smod_nonneg fold_share_spread)
  qed
qed

subsection \<open>Mode C keeps the budget\<close>

abbreviation non_range :: "file_input list \<Rightarrow> bool list" where
  "non_range files \<equiv> map (\<lambda>f. \<not> fi_SupportsRange f) files"

lemma cap_freed:
  "length nrs = length cs \<Longrightarrow>
   sum_list (map2 (\<lambda>nr c. if nr \<and> c > 1 then 1 else (c::int)) nrs cs) +
     (\<Sum>(nr, c) \<leftarrow> zip nrs cs. if nr \<and> c > 1 then c - 1 else 0) = sum_list cs"
  by (induction nrs cs rule: list_induct2) auto

lemma freed_nonneg: "0 \<le> (\<Sum>(nr, c) \<leftarrow> zip nrs cs. if nr \<and> c > 1 then c - (1::int) else 0)"
  by (rule sum_list_nonneg) auto

lemma modeC_conns_length [simp]: "n \<le> length files \<Longrightarrow> length (modeC_conns C files SF n) = n"
  by (simp add: modeC_conns_def Let_def)

lemma modeC_conns_sum:
  "n \<le> length files \<Longrightarrow> int n * SF \<le> C \<Longrightarrow>
   sum_list (modeC_conns C files SF n) \<le> C \<and>
   (0 < eligible (non_range (take n files)) \<longrightarrow> sum_list (modeC_conns C files SF n) = C)"
proof -
  assume n: "n \<le> length files" and c: "int n * SF \<le> C"
  let ?nr = "non_range (take n files)"
  let ?c1 = "distribute (replicate n SF) (C - int n * SF) (Some ?nr)"
  have len: "length ?nr = length (replicate n SF)" "length ?nr = length ?c1" using n by auto
  have "sum_list ?c1 = int n * SF + (if 0 < eligible ?nr then C - int n * SF else 0)"
    using c by (subst distribute_sum [OF len(1)]) (simp add: sum_list_replicate)
  then show ?thesis
    using cap_freed [OF len(2)] freed_nonneg [of ?nr ?c1] c len
    by (auto simp: modeC_conns_def Let_def distribute_sum)
qed

lemma if_choice: "(if P then f b else x) = x \<or> (\<exists>b'. (if P then f b else x) = f b')"
  by auto

lemma modeC_conns_ge1:
  "n \<le> length files \<Longrightarrow> 1 \<le> SF \<Longrightarrow> i < n \<Longrightarrow>
   1 \<le> modeC_conns C files SF n ! i \<and>
   (\<not> fi_SupportsRange (files ! i) \<longrightarrow> modeC_conns C files SF n ! i = 1)"
proof -
  assume n: "n \<le> length files" and sf: "1 \<le> SF" and i: "i < n"
  let ?nr = "non_range (take n files)"
  let ?c1 = "distribute (replicate n SF) (C - int n * SF) (Some ?nr)"
  let ?c2 = "map2 (\<lambda>nr c. if nr \<and> c > 1 then 1 else c) ?nr ?c1"
  have nth: "?nr ! i = (\<not> fi_SupportsRange (files ! i))" using n i by simp
  have c1: "SF \<le> ?c1 ! i" using n i distribute_mono [of ?nr "replicate n SF" i] by simp
  then have c2: "1 \<le> ?c2 ! i \<and> (?nr ! i \<longrightarrow> ?c2 ! i = 1)" using n i sf by auto
  have len: "length ?nr = length ?c2" "i < length ?c2" using n i by auto
  have d: "1 \<le> distribute ?c2 b (Some ?nr) ! i \<and> (?nr ! i \<longrightarrow> distribute ?c2 b (Some ?nr) ! i = 1)" for b
  proof (intro conjI impI)
    show "1 \<le> distribute ?c2 b (Some ?nr) ! i" by (rule order_trans [OF conjunct1 [OF c2] distribute_mono [OF len]])
    assume s: "?nr ! i"
    show "distribute ?c2 b (Some ?nr) ! i = 1"
      by (rule trans [OF distribute_skipped [OF len s] mp [OF conjunct2 [OF c2] s]])
  qed
  have "modeC_conns C files SF n = ?c2 \<or> (\<exists>b. modeC_conns C files SF n = distribute ?c2 b (Some ?nr))"
    unfolding modeC_conns_def Let_def by (rule if_choice)
  then show ?thesis
  proof (elim disjE exE)
    assume e: "modeC_conns C files SF n = ?c2"
    show ?thesis using c2 unfolding e nth .
  next
    fix b assume e: "modeC_conns C files SF n = distribute ?c2 b (Some ?nr)"
    show ?thesis using d [of b] unfolding e nth .
  qed
qed

lemma modeC_slots_bounds:
  "1 \<le> SF \<Longrightarrow> SF \<le> C \<Longrightarrow> 1 \<le> N \<Longrightarrow> 1 \<le> mx \<Longrightarrow>
   1 \<le> modeC_slots C N SF mx \<and> modeC_slots C N SF mx \<le> N \<and> int (modeC_slots C N SF mx) \<le> mx \<and>
   int (modeC_slots C N SF mx) * SF \<le> C"
proof -
  assume a: "1 \<le> SF" "SF \<le> C" "1 \<le> N" "1 \<le> mx"
  then have q: "C sdiv SF = C div SF" by (simp add: sdiv_nonneg)
  have q1: "1 \<le> C div SF" using a by (simp add: pos_imp_zdiv_pos_iff int_one_le_iff_zero_less)
  have "int (modeC_slots C N SF mx) \<le> C div SF" using a q q1 by (simp add: modeC_slots_def)
  then have "int (modeC_slots C N SF mx) * SF \<le> C div SF * SF" using a by (intro mult_right_mono) auto
  also have "\<dots> \<le> C" using a by (metis div_mult_mod_eq le_add_same_cancel1 mult.commute
      order_less_le_trans pos_mod_sign zero_less_one)
  finally show ?thesis using a q q1 by (auto simp: modeC_slots_def)
qed

subsection \<open>The plan\<close>

abbreviation total_connections :: "allocation list \<Rightarrow> int" where
  "total_connections as \<equiv> sum_list (map al_Connections as)"

definition allocation_ok :: "allocation \<Rightarrow> bool" where
  "allocation_ok a \<longleftrightarrow> 1 \<le> al_Connections a \<and> (\<not> al_SupportsRange a \<longrightarrow> al_Connections a = 1)"

definition source_of :: "allocation \<Rightarrow> file_input" where
  "source_of a = \<lparr>fi_URL = al_URL a, fi_SupportsRange = al_SupportsRange a\<rparr>"

lemma file_input_eta [simp]:
  "map (\<lambda>f. \<lparr>fi_URL = fi_URL f, fi_SupportsRange = fi_SupportsRange f\<rparr>) fs = fs"
  by (simp add: map_idI)

lemma modeA_facts:
  "files = [f] \<Longrightarrow> 1 \<le> C \<Longrightarrow> 1 \<le> mx \<Longrightarrow>
   modeA C files mx \<noteq> [] \<and> total_connections (modeA C files mx) \<le> C \<and>
   list_all allocation_ok (modeA C files mx) \<and> map source_of (modeA C files mx) = files"
  by (auto simp: modeA_def allocation_ok_def source_of_def)

lemma modeB_facts:
  "modeB C files mx = (p, q) \<Longrightarrow> files \<noteq> [] \<Longrightarrow> 1 \<le> C \<Longrightarrow> 1 \<le> mx \<Longrightarrow>
   p \<noteq> [] \<and> total_connections p \<le> C \<and> int (length p) \<le> mx \<and> list_all allocation_ok (p @ q) \<and>
   map source_of (p @ q) = files"
proof -
  assume a: "modeB C files mx = (p, q)" "files \<noteq> []" "1 \<le> C" "1 \<le> mx"
  let ?f = "\<lambda>f. \<lparr>al_URL = fi_URL f, al_Connections = 1, al_SupportsRange = fi_SupportsRange f\<rparr>"
  let ?n = "nat (min C (min (int (length files)) mx))"
  have p: "p = map ?f (take ?n files)" and q: "q = map ?f (drop ?n files)"
    using a by (auto simp: modeB_def Let_def take_map drop_map)
  have "p @ q = map ?f files" by (simp add: p q flip: map_append)
  moreover have "total_connections p = int ?n" using a by (simp add: p comp_def)
  ultimately show ?thesis using a
    by (auto simp: p list_all_iff allocation_ok_def source_of_def comp_def list.pred_map
        simp flip: length_greater_0_conv)
qed

lemma map2_al_Connections:
  "length cs = length fs \<Longrightarrow>
   map al_Connections (map2 (\<lambda>f c. \<lparr>al_URL = fi_URL f, al_Connections = c,
     al_SupportsRange = fi_SupportsRange f\<rparr>) fs cs) = cs \<and>
   map source_of (map2 (\<lambda>f c. \<lparr>al_URL = fi_URL f, al_Connections = c,
     al_SupportsRange = fi_SupportsRange f\<rparr>) fs cs) = fs"
  by (induction cs fs rule: list_induct2) (auto simp: source_of_def)

lemma modeC_partition:
  "modeC C files SF mx = (p, q) \<Longrightarrow> files \<noteq> [] \<Longrightarrow>
   map source_of (p @ q) = files \<and>
   length p = modeC_slots C (length files) SF mx \<and> map al_Connections p =
     modeC_conns C files SF (modeC_slots C (length files) SF mx)"
proof -
  assume a: "modeC C files SF mx = (p, q)" "files \<noteq> []"
  let ?n = "modeC_slots C (length files) SF mx"
  have n: "?n \<le> length files" using a by (cases files) (auto simp: modeC_slots_def)
  then have len: "length (modeC_conns C files SF ?n) = length (take ?n files)" by simp
  note m = map2_al_Connections [OF len]
  have q: "map source_of q = drop ?n files"
    using a by (auto simp: modeC_def Let_def source_of_def comp_def)
  show ?thesis using a m q n len
    by (auto simp: modeC_def Let_def simp del: length_take)
qed

lemma modeC_facts:
  "modeC C files SF mx = (p, q) \<Longrightarrow> files \<noteq> [] \<Longrightarrow> 1 \<le> SF \<Longrightarrow> SF \<le> C \<Longrightarrow> 1 \<le> mx \<Longrightarrow>
   p \<noteq> [] \<and> total_connections p \<le> C \<and> int (length p) \<le> mx \<and> list_all allocation_ok (p @ q) \<and>
   ((\<exists>a \<in> set p. al_SupportsRange a) \<longrightarrow> total_connections p = C)"
proof -
  assume a: "modeC C files SF mx = (p, q)" "files \<noteq> []" "1 \<le> SF" "SF \<le> C" "1 \<le> mx"
  let ?n = "modeC_slots C (length files) SF mx"
  have n: "1 \<le> ?n" "?n \<le> length files" "int ?n \<le> mx" "int ?n * SF \<le> C"
    using modeC_slots_bounds [of SF C "length files" mx] a by (cases files; simp)+
  note part = modeC_partition [OF a(1,2)]
  have src: "source_of (p ! i) = files ! i" if "i < length p" for i
    using part that by (metis length_map nth_append nth_map map_append)
  have pok: "allocation_ok (p ! i)" if "i < length p" for i
  proof -
    have "al_Connections (p ! i) = modeC_conns C files SF ?n ! i"
      using part that by (metis nth_map)
    moreover have "al_SupportsRange (p ! i) = fi_SupportsRange (files ! i)"
      using arg_cong [OF src [OF that], of fi_SupportsRange] by (simp add: source_of_def)
    moreover have "i < ?n" using part that by simp
    ultimately show ?thesis
      using modeC_conns_ge1 [OF n(2) a(3), of i C] unfolding allocation_ok_def by metis
  qed
  have qok: "list_all allocation_ok q"
    using a by (auto simp: modeC_def Let_def list_all_iff allocation_ok_def)
  have el: "0 < eligible (non_range (take ?n files))" if "\<exists>a \<in> set p. al_SupportsRange a"
  proof -
    from that obtain i where "i < length p" "al_SupportsRange (p ! i)" by (auto simp: in_set_conv_nth)
    then have "i < ?n" "fi_SupportsRange (files ! i)"
      using part arg_cong [OF src [of i], of fi_SupportsRange] by (simp_all add: source_of_def)
    then have "False \<in> set (non_range (take ?n files))"
      using n by (force simp: in_set_conv_nth)
    then show ?thesis by (metis count_list_0_iff neq0_conv of_nat_0_less_iff)
  qed
  have tc: "total_connections p = sum_list (modeC_conns C files SF ?n)" using part by simp
  have "p \<noteq> []" using part n by auto
  moreover have "int (length p) \<le> mx" using part n by simp
  moreover have "list_all allocation_ok (p @ q)"
    unfolding list_all_append using qok pok by (simp add: list_all_length)
  moreover have "(\<exists>a \<in> set p. al_SupportsRange a) \<longrightarrow> total_connections p = C"
    unfolding tc using el modeC_conns_sum [OF n(2,4)] by blast
  ultimately show ?thesis using tc modeC_conns_sum [OF n(2,4)] by metis
qed

lemma Compute_Inr:
  assumes "Compute C files SF mx0 = Inr p"
  defines "mx \<equiv> (if mx0 \<le> 0 then DefaultMaxConnections else mx0)"
  shows "files \<noteq> []" "1 \<le> C" "1 \<le> mx"
    and "(\<exists>f. files = [f]) \<and> Parallel p = modeA C files mx \<and> Queued p = [] \<and> \<not> RebalanceConnections p \<or>
         1 < length files \<and> SF = 0 \<and> modeB C files mx = (Parallel p, Queued p) \<and> \<not> RebalanceConnections p \<or>
         1 < length files \<and> SF \<noteq> 0 \<and> SF \<le> C \<and> modeC C files SF mx = (Parallel p, Queued p) \<and> RebalanceConnections p"
proof -
  have "Compute C [] SF mx0 = Inl NoURLs" by (simp add: Compute_def)
  with assms(1) show f: "files \<noteq> []" by auto
  show c: "1 \<le> C"
  proof (rule ccontr)
    assume "\<not> 1 \<le> C"
    with f have "Compute C files SF mx0 = Inl BudgetBelowOne" by (simp add: Compute_def Let_def)
    with assms(1) show False by simp
  qed
  show "1 \<le> mx" by (simp add: mx_def DefaultMaxConnections_def)
  have c': "(C < 1) = False" and n': "(length files = 0) = False" using c f by auto
  note eq = assms(1) [unfolded Compute_def Let_def mx_def [symmetric] c' n' if_False]
  show "(\<exists>f. files = [f]) \<and> Parallel p = modeA C files mx \<and> Queued p = [] \<and> \<not> RebalanceConnections p \<or>
         1 < length files \<and> SF = 0 \<and> modeB C files mx = (Parallel p, Queued p) \<and> \<not> RebalanceConnections p \<or>
         1 < length files \<and> SF \<noteq> 0 \<and> SF \<le> C \<and> modeC C files SF mx = (Parallel p, Queued p) \<and> RebalanceConnections p"
  proof (cases "length files = 1")
    case True
    then obtain f where "files = [f]" by (auto simp: length_Suc_conv)
    then show ?thesis using eq True by (auto split: if_split_asm)
  next
    case False
    with f have l: "1 < length files" by (cases files) auto
    have "SF \<le> C" using eq False by (auto split: if_split_asm)
    then show ?thesis using eq False l
      by (cases "SF = 0"; cases "modeB C files mx"; cases "modeC C files SF mx") auto
  qed
qed

lemmas plan_facts = modeA_facts modeB_facts modeC_facts

subsection \<open>Properties\<close>

lemma plan_budget:
  "Compute C files SF mx = Inr p \<Longrightarrow> 0 \<le> SF \<Longrightarrow>
   Parallel p \<noteq> [] \<and> total_connections (Parallel p) \<le> C \<and>
   list_all allocation_ok (Parallel p @ Queued p)"
proof -
  assume a: "Compute C files SF mx = Inr p" "0 \<le> SF"
  note c = Compute_Inr [OF a(1)]
  from c(4) show ?thesis
  proof (elim disjE conjE exE)
    fix f assume "files = [f]" "Parallel p = modeA C files (if mx \<le> 0 then DefaultMaxConnections else mx)"
      "Queued p = []"
    then show ?thesis using modeA_facts [of files f C] c by auto
  next
    assume "modeB C files (if mx \<le> 0 then DefaultMaxConnections else mx) = (Parallel p, Queued p)"
    from modeB_facts [OF this c(1,2,3)] show ?thesis by simp
  next
    assume "modeC C files SF (if mx \<le> 0 then DefaultMaxConnections else mx) = (Parallel p, Queued p)"
      "SF \<noteq> 0" "SF \<le> C"
    with modeC_facts [OF this(1) c(1) _ this(3) c(3)] a(2) show ?thesis by simp
  qed
qed

text \<open>C20: a plan never exceeds the connection budget. When \<open>Compute\<close> returns a plan, for a split factor that
  is not negative, there is at least one live file, the live files' connections sum to at most C, every file
  (live or queued) has at least one connection, and a file whose server has no range support has exactly one.\<close>

lemma Compute_budget:
  "Compute C files SF mx = Inr p \<Longrightarrow> 0 \<le> SF \<Longrightarrow>
   Parallel p \<noteq> [] \<and> total_connections (Parallel p) \<le> C \<and>
   list_all allocation_ok (Parallel p @ Queued p)"
  by (rule plan_budget)

lemma Compute_budget_witness:
  "\<exists>p. Compute 5 [\<lparr>fi_URL = ''a'', fi_SupportsRange = True\<rparr>, \<lparr>fi_URL = ''b'', fi_SupportsRange = False\<rparr>,
       \<lparr>fi_URL = ''c'', fi_SupportsRange = True\<rparr>] 2 32 = Inr p \<and>
     length (Parallel p) = 2 \<and> length (Queued p) = 1 \<and> Parallel p \<noteq> [] \<and> total_connections (Parallel p) \<le> 5 \<and>
     list_all allocation_ok (Parallel p @ Queued p)"
proof -
  have "case Compute 5 [\<lparr>fi_URL = ''a'', fi_SupportsRange = True\<rparr>, \<lparr>fi_URL = ''b'', fi_SupportsRange = False\<rparr>,
       \<lparr>fi_URL = ''c'', fi_SupportsRange = True\<rparr>] 2 32 of Inl _ \<Rightarrow> False
     | Inr p \<Rightarrow> length (Parallel p) = 2 \<and> length (Queued p) = 1" by code_simp
  then obtain p where p: "Compute 5 [\<lparr>fi_URL = ''a'', fi_SupportsRange = True\<rparr>, \<lparr>fi_URL = ''b'', fi_SupportsRange = False\<rparr>,
       \<lparr>fi_URL = ''c'', fi_SupportsRange = True\<rparr>] 2 32 = Inr p" "length (Parallel p) = 2" "length (Queued p) = 1"
    by (auto split: sum.splits)
  show ?thesis using p Compute_budget [OF p(1)] by auto
qed

text \<open>in Mode C the budget is used to the full: if any live file can be split, the live
  connections sum to exactly C.\<close>

lemma Compute_full_use:
  "Compute C files SF mx = Inr p \<Longrightarrow> 1 \<le> SF \<Longrightarrow> RebalanceConnections p \<Longrightarrow>
   (\<exists>a \<in> set (Parallel p). al_SupportsRange a) \<Longrightarrow> total_connections (Parallel p) = C"
proof -
  assume a: "Compute C files SF mx = Inr p" "1 \<le> SF" "RebalanceConnections p"
    "\<exists>a \<in> set (Parallel p). al_SupportsRange a"
  note c = Compute_Inr [OF a(1)]
  have "modeC C files SF (if mx \<le> 0 then DefaultMaxConnections else mx) = (Parallel p, Queued p)" "SF \<le> C"
    using c(4) a(3) by auto
  with modeC_facts [OF this(1) c(1) a(2) this(2) c(3)] a(4) show ?thesis by simp
qed

lemma Compute_full_use_witness:
  "total_connections [\<lparr>al_URL = ''a'', al_Connections = 4, al_SupportsRange = True\<rparr>,
      \<lparr>al_URL = ''b'', al_Connections = 1, al_SupportsRange = False\<rparr>] = 5"
  using Compute_full_use [of 5 "[\<lparr>fi_URL = ''a'', fi_SupportsRange = True\<rparr>,
       \<lparr>fi_URL = ''b'', fi_SupportsRange = False\<rparr>, \<lparr>fi_URL = ''c'', fi_SupportsRange = True\<rparr>]" 2 32
     "\<lparr>Parallel = [\<lparr>al_URL = ''a'', al_Connections = 4, al_SupportsRange = True\<rparr>,
      \<lparr>al_URL = ''b'', al_Connections = 1, al_SupportsRange = False\<rparr>],
     Queued = [\<lparr>al_URL = ''c'', al_Connections = 2, al_SupportsRange = True\<rparr>],
     Warning = [], ConnectionBudget = 5, RebalanceConnections = True\<rparr>"]
  by code_simp

text \<open>a plan loses and duplicates no file: the live files followed by the queued ones are
  the input files in their order, with their URL and their range flag.\<close>

lemma Compute_partition:
  "Compute C files SF mx = Inr p \<Longrightarrow> map source_of (Parallel p @ Queued p) = files"
proof -
  assume a: "Compute C files SF mx = Inr p"
  note c = Compute_Inr [OF a]
  from c(4) show ?thesis
  proof (elim disjE conjE exE)
    fix f assume "files = [f]" "Parallel p = modeA C files (if mx \<le> 0 then DefaultMaxConnections else mx)"
      "Queued p = []"
    then show ?thesis using modeA_facts [of files f C] c by auto
  next
    assume "modeB C files (if mx \<le> 0 then DefaultMaxConnections else mx) = (Parallel p, Queued p)"
    from modeB_facts [OF this c(1,2,3)] show ?thesis by simp
  next
    assume "modeC C files SF (if mx \<le> 0 then DefaultMaxConnections else mx) = (Parallel p, Queued p)"
    from modeC_partition [OF this c(1)] show ?thesis by simp
  qed
qed

lemma Compute_partition_witness:
  "map source_of ([\<lparr>al_URL = ''a'', al_Connections = 1, al_SupportsRange = False\<rparr>] @
       [\<lparr>al_URL = ''b'', al_Connections = 1, al_SupportsRange = True\<rparr>]) =
     [\<lparr>fi_URL = ''a'', fi_SupportsRange = False\<rparr>, \<lparr>fi_URL = ''b'', fi_SupportsRange = True\<rparr>]"
  using Compute_partition [of 1 "[\<lparr>fi_URL = ''a'', fi_SupportsRange = False\<rparr>,
       \<lparr>fi_URL = ''b'', fi_SupportsRange = True\<rparr>]" 0 0
     "\<lparr>Parallel = [\<lparr>al_URL = ''a'', al_Connections = 1, al_SupportsRange = False\<rparr>],
     Queued = [\<lparr>al_URL = ''b'', al_Connections = 1, al_SupportsRange = True\<rparr>],
     Warning = [], ConnectionBudget = 1, RebalanceConnections = False\<rparr>"]
  by code_simp

lemma rebalance_facts:
  "inputs \<noteq> [] \<Longrightarrow> int (length inputs) \<le> budget \<Longrightarrow>
   rebalanceTargets inputs budget =
     distribute (replicate (length inputs) 1) (budget - int (length inputs))
       (Some (map (\<lambda>x. \<not> rb_rangeCapable x) inputs)) \<and>
   ((\<exists>x \<in> set inputs. rb_rangeCapable x) \<longrightarrow> sum_list (rebalanceTargets inputs budget) = budget) \<and>
   (\<forall>i < length inputs. 1 \<le> rebalanceTargets inputs budget ! i \<and>
      (\<not> rb_rangeCapable (inputs ! i) \<longrightarrow> rebalanceTargets inputs budget ! i = 1))"
proof -
  assume a: "inputs \<noteq> []" "int (length inputs) \<le> budget"
  let ?ss = "map (\<lambda>x. \<not> rb_rangeCapable x) inputs"
  note eq = rebalance_spread [OF a]
  have len: "length ?ss = length (replicate (length inputs) (1::int))" by simp
  have "(\<exists>x \<in> set inputs. rb_rangeCapable x) \<longrightarrow> 0 < eligible ?ss"
    by (auto simp: count_list_0_iff image_iff simp flip: neq0_conv)
  then have s: "(\<exists>x \<in> set inputs. rb_rangeCapable x) \<longrightarrow> sum_list (rebalanceTargets inputs budget) = budget"
    unfolding eq distribute_sum [OF len] using a by (simp add: sum_list_replicate)
  have i: "1 \<le> rebalanceTargets inputs budget ! i \<and>
      (\<not> rb_rangeCapable (inputs ! i) \<longrightarrow> rebalanceTargets inputs budget ! i = 1)" if "i < length inputs" for i
    unfolding eq using distribute_mono [OF len, of i] distribute_skipped [OF len, of i] that by simp
  show ?thesis using eq s i by blast
qed

text \<open>the runtime allocator gives every live file at least one connection, a single-stream
  file exactly one, sums to the whole budget when some file can be split, and its targets are
  those the static round-robin \<open>distribute\<close> computes from one connection each.\<close>

lemma rebalanceTargets_round_robin:
  "inputs \<noteq> [] \<Longrightarrow> int (length inputs) \<le> budget \<Longrightarrow>
   rebalanceTargets inputs budget =
     distribute (replicate (length inputs) 1) (budget - int (length inputs))
       (Some (map (\<lambda>x. \<not> rb_rangeCapable x) inputs)) \<and>
   ((\<exists>x \<in> set inputs. rb_rangeCapable x) \<longrightarrow> sum_list (rebalanceTargets inputs budget) = budget) \<and>
   (\<forall>i < length inputs. 1 \<le> rebalanceTargets inputs budget ! i \<and>
      (\<not> rb_rangeCapable (inputs ! i) \<longrightarrow> rebalanceTargets inputs budget ! i = 1))"
  by (rule rebalance_facts)

lemma rebalanceTargets_round_robin_witness:
  "sum_list (rebalanceTargets [\<lparr>rb_id = ''a'', rb_rangeCapable = True\<rparr>,
     \<lparr>rb_id = ''b'', rb_rangeCapable = False\<rparr>] 7) = 7"
proof -
  let ?i = "[\<lparr>rb_id = ''a'', rb_rangeCapable = True\<rparr>, \<lparr>rb_id = ''b'', rb_rangeCapable = False\<rparr>]"
  have "?i \<noteq> []" "int (length ?i) \<le> 7" "\<exists>x \<in> set ?i. rb_rangeCapable x" by simp_all
  from rebalanceTargets_round_robin [OF this(1,2)] this(3) show ?thesis by blast
qed

text \<open>\<open>Compute\<close> fails in exactly three cases, tested in this order: no URL, a budget below 1,
  and (for two files or more, or a budget the zeroed split does not fit) a split above the budget.\<close>

lemma Compute_errors:
  "(Compute C files SF mx = Inl NoURLs \<longleftrightarrow> files = []) \<and>
   (Compute C files SF mx = Inl BudgetBelowOne \<longleftrightarrow> files \<noteq> [] \<and> C < 1) \<and>
   (Compute C files SF mx = Inl SplitFileAboveBudget \<longleftrightarrow> 1 < length files \<and> 1 \<le> C \<and> C < SF)"
proof (cases "files = [] \<or> C < 1")
  case True
  then show ?thesis by (auto simp: Compute_def Let_def)
next
  case False
  then have n: "files \<noteq> []" "\<not> C < 1" "1 < length files \<longleftrightarrow> length files \<noteq> 1"
    by (cases files, auto)+
  show ?thesis
    using n by (cases "length files = 1"; cases "C < SF"; cases "SF = 0")
      (auto simp: Compute_def Let_def split: prod.split)
qed

end
