(* ===== verification/Scheduler.thy ===== *)
theory Scheduler imports Balancer "HOL-Library.List_Lexorder" "HOL-Library.Char_ord" begin

section \<open>The scheduler (internal/scheduler/queue.go, rebalance.go, counts.go)\<close>

text \<open>
  The scheduler keeps up to \<open>slots\<close> tasks live and admits queued ones as slots free up. Its state is
  the record below: the fields of \<open>Scheduler\<close>, and beside them the goroutines it has launched (each is
  running its task, waiting to report, or has reported and not yet left the wait group), the buffered
  channel of reports, whether the observer of the wait group has closed \<open>doneCh\<close>, and where the loop of
  \<open>Run\<close> stands. The critical sections under \<open>mu\<close> are functions; \<open>sched_step\<close> interleaves them with the
  goroutines and with the RPC calls that enqueue. A report carries whether the task ended in
  \<open>StateCompleted\<close>. \<open>sc_begun\<close> is a ghost: the plan entries and enqueued tasks that were launched, or that
  the maker refused. Progress callbacks only read the state and are left out.
\<close>

record scheduledTask =
  st_id :: string
  st_conns :: int
  st_counted :: bool

datatype gphase = Running | Reporting bool | Reported

type_synonym goroutine = "scheduledTask \<times> gphase"

datatype run_phase = Selecting | Admitting | Rebalancing | DrainingDone | DrainingCancelled | Returned

record sched =
  sc_plan :: plan
  sc_slots :: nat
  sc_queued :: "scheduledTask list"
  sc_live :: "scheduledTask list"
  sc_stopped :: "scheduledTask list"
  sc_wg :: int
  sc_compl :: "(scheduledTask \<times> bool) list"
  sc_isIdle :: bool
  sc_windingDown :: bool
  sc_succeeded :: int
  sc_failed :: int
  sc_gor :: "goroutine list"
  sc_doneClosed :: bool
  sc_phase :: run_phase
  sc_ctxDone :: bool
  sc_pendingAdmits :: nat
  sc_begun :: int

definition maxStoppedTasks :: nat where "maxStoppedTasks = 1000"
definition maxPendingTasks :: nat where "maxPendingTasks = 128"

definition NewScheduler :: "plan \<Rightarrow> sched" where
  "NewScheduler p =
     \<lparr>sc_plan = p, sc_slots = length (Parallel p), sc_queued = [], sc_live = [], sc_stopped = [], sc_wg = 0, sc_compl = [], sc_isIdle = False,
      sc_windingDown = False, sc_succeeded = 0, sc_failed = 0, sc_gor = [], sc_doneClosed = False, sc_phase = Selecting,
      sc_ctxDone = False, sc_pendingAdmits = 0, sc_begun = 0\<rparr>"

text \<open>The daemon's scheduler holds the wait group once, so that it does not end while it is empty.\<close>

definition NewEmptyScheduler :: "nat \<Rightarrow> sched" where
  "NewEmptyScheduler slots =
     (NewScheduler \<lparr>Parallel = [], Queued = [], Warning = [], ConnectionBudget = 0, RebalanceConnections = False\<rparr>)
       \<lparr>sc_slots := slots, sc_isIdle := True, sc_wg := 1\<rparr>"

subsection \<open>The operations under the lock\<close>

definition AddCounter :: "sched \<Rightarrow> bool \<times> sched" where
  "AddCounter s = (if sc_windingDown s then (False, s) else (True, s\<lparr>sc_wg := sc_wg s + 1\<rparr>))"

definition releaseIdle :: "sched \<Rightarrow> sched" where
  "releaseIdle s = (if sc_isIdle s then s\<lparr>sc_wg := sc_wg s - 1, sc_isIdle := False\<rparr> else s)"

definition live_put :: "scheduledTask \<Rightarrow> scheduledTask list \<Rightarrow> scheduledTask list" where
  "live_put st l = filter (\<lambda>x. st_id x \<noteq> st_id st) l @ [st]"

definition live_delete :: "string \<Rightarrow> scheduledTask list \<Rightarrow> scheduledTask list" where
  "live_delete i l = filter (\<lambda>x. st_id x \<noteq> i) l"

definition launch :: "scheduledTask \<Rightarrow> sched \<Rightarrow> sched" where
  "launch st s = s\<lparr>sc_gor := sc_gor s @ [(st, Running)], sc_begun := sc_begun s + 1\<rparr>"

definition startOne :: "scheduledTask \<Rightarrow> sched \<Rightarrow> sched" where
  "startOne st s = launch st (s\<lparr>sc_live := live_put st (sc_live s)\<rparr>)"

definition activeTasks :: "sched \<Rightarrow> nat" where
  "activeTasks s = length (sc_live s)"

definition handleComplete :: "scheduledTask \<Rightarrow> bool \<Rightarrow> sched \<Rightarrow> sched" where
  "handleComplete st completed0 s0 =
     (let stopped1 = sc_stopped s0 @ [st];
          stopped2 = (if length stopped1 > maxStoppedTasks then drop (length stopped1 - maxStoppedTasks) stopped1 else stopped1);
          s = s0\<lparr>sc_live := live_delete (st_id st) (sc_live s0), sc_stopped := stopped2\<rparr>
      in if completed0 then s\<lparr>sc_succeeded := sc_succeeded s + 1\<rparr> else s\<lparr>sc_failed := sc_failed s + 1\<rparr>)"

definition admitNext :: "sched \<Rightarrow> sched" where
  "admitNext s =
     (case sc_queued s of
        [] \<Rightarrow> s
      | nxt # rest \<Rightarrow>
          if length (sc_live s) \<ge> sc_slots s then s
          else
            let s1 = s\<lparr>sc_queued := rest, sc_live := live_put nxt (sc_live s)\<rparr>
            in if st_counted nxt then launch nxt s1
               else case AddCounter s1 of
                 (True, s2) \<Rightarrow> launch nxt s2
               | (False, s2) \<Rightarrow> s2\<lparr>sc_live := live_delete (st_id nxt) (sc_live s2)\<rparr>)"

datatype enqueue_error = ShuttingDown | TooManyPending

text \<open>\<open>Enqueue\<close> up to the call of \<open>admitNext\<close> that follows its critical section.\<close>

definition Enqueue :: "scheduledTask \<Rightarrow> sched \<Rightarrow> enqueue_error option \<times> sched" where
  "Enqueue st s =
     (if sc_windingDown s then (Some ShuttingDown, s)
      else if length (sc_queued s) \<ge> maxPendingTasks then (Some TooManyPending, s)
      else (None, s\<lparr>sc_wg := sc_wg s + 1, sc_queued := sc_queued s @ [st\<lparr>st_counted := True\<rparr>],
                    sc_pendingAdmits := sc_pendingAdmits s + 1\<rparr>))"

subsection \<open>Rebalancing the live tasks\<close>

text \<open>What the tasks answer enters as functions of their ids: whether the snapshot is single-stream, whether
  \<open>AdjustConns\<close> takes the target, whether the task has ended. The result lists the calls made.\<close>

datatype rebalance_call = Adjusted string int | ConnsSet string int

definition rebalance_inputs :: "(string \<Rightarrow> bool) \<Rightarrow> scheduledTask list \<Rightarrow> (string \<times> rebalance_input) list" where
  "rebalance_inputs single l =
     map (\<lambda>i. (i, \<lparr>rb_id = i, rb_rangeCapable = \<not> single i\<rparr>)) (sort (map st_id l))"

definition rebalance_calls :: "(string \<Rightarrow> bool) \<Rightarrow> (string \<Rightarrow> bool) \<Rightarrow> (string \<times> int) list \<Rightarrow> rebalance_call list" where
  "rebalance_calls accepts terminal ts =
     concat (map (\<lambda>(i, n). if n < 1 then [] else if accepts i then [Adjusted i n]
                           else if \<not> terminal i then [ConnsSet i n] else []) ts)"

definition rebalanceLive ::
  "(string \<Rightarrow> bool) \<Rightarrow> (string \<Rightarrow> bool) \<Rightarrow> (string \<Rightarrow> bool) \<Rightarrow> sched \<Rightarrow> rebalance_call list \<times> sched" where
  "rebalanceLive single accepts terminal s =
     (if \<not> RebalanceConnections (sc_plan s) \<or> ConnectionBudget (sc_plan s) < 1 \<or> sc_live s = [] then ([], s)
      else
        let inputs = rebalance_inputs single (sc_live s);
            ts = zip (map fst inputs) (rebalanceTargets (map snd inputs) (ConnectionBudget (sc_plan s)))
        in (rebalance_calls accepts terminal ts,
            s\<lparr>sc_live := map (\<lambda>st. case map_of ts (st_id st) of
                 Some n \<Rightarrow> if n < 1 then st else st\<lparr>st_conns := n\<rparr> | None \<Rightarrow> st) (sc_live s)\<rparr>))"

subsection \<open>Run\<close>

text \<open>The set-up of \<open>Run\<close>: queued entries, then up to \<open>slots\<close> initial ones. Each entry comes with what the
  maker makes of it, the id of a new task or nothing.\<close>

fun queue_plan :: "(allocation \<times> string option) list \<Rightarrow> sched \<Rightarrow> sched" where
  "queue_plan [] s = s"
| "queue_plan ((a, made) # as) s =
     (case made of
        None \<Rightarrow> queue_plan as (s\<lparr>sc_failed := sc_failed s + 1, sc_begun := sc_begun s + 1\<rparr>)
      | Some i \<Rightarrow> queue_plan as
          (s\<lparr>sc_queued := sc_queued s @ [\<lparr>st_id = i, st_conns = al_Connections a, st_counted = False\<rparr>]\<rparr>))"

fun admit_initial :: "(allocation \<times> string option) list \<Rightarrow> nat \<Rightarrow> sched \<Rightarrow> sched" where
  "admit_initial [] admitted s = s"
| "admit_initial ((a, made) # as) admitted s =
     (if admitted \<ge> sc_slots s then s
      else case made of
        None \<Rightarrow> admit_initial as admitted (s\<lparr>sc_failed := sc_failed s + 1, sc_begun := sc_begun s + 1\<rparr>)
      | Some j \<Rightarrow>
          (case AddCounter s of
             (False, s1) \<Rightarrow> admit_initial as admitted s1
           | (True, s1) \<Rightarrow>
               admit_initial as (admitted + 1)
                 (startOne \<lparr>st_id = j, st_conns = al_Connections a, st_counted = False\<rparr> s1)))"

definition run_setup :: "plan \<Rightarrow> string option list \<Rightarrow> string option list \<Rightarrow> sched" where
  "run_setup p made_queued made_parallel =
     admit_initial (zip (Parallel p) made_parallel) 0 (queue_plan (zip (Queued p) made_queued) (NewScheduler p))"

text \<open>The branch of the loop taken when the context is done.\<close>

definition wind_down :: "sched \<Rightarrow> sched" where
  "wind_down s =
     releaseIdle (s\<lparr>sc_windingDown := True, sc_queued := [],
                    sc_wg := sc_wg s - int (length (filter st_counted (sc_queued s)))\<rparr>)"

inductive sched_step :: "sched \<Rightarrow> sched \<Rightarrow> bool" where
  task_ends: "i < length (sc_gor s) \<Longrightarrow> sc_gor s ! i = (st, Running) \<Longrightarrow>
    sched_step s (s\<lparr>sc_gor := (sc_gor s)[i := (st, Reporting ok)]\<rparr>)"
| report: "i < length (sc_gor s) \<Longrightarrow> sc_gor s ! i = (st, Reporting ok) \<Longrightarrow> sc_compl s = [] \<Longrightarrow>
    sched_step s (s\<lparr>sc_compl := [(st, ok)], sc_gor := (sc_gor s)[i := (st, Reported)]\<rparr>)"
| leave_group: "sc_gor s = gs @ (st, Reported) # gs' \<Longrightarrow>
    sched_step s (s\<lparr>sc_gor := gs @ gs', sc_wg := sc_wg s - 1\<rparr>)"
| observe_zero: "sc_wg s = 0 \<Longrightarrow> sched_step s (s\<lparr>sc_doneClosed := True\<rparr>)"
| context_done: "sched_step s (s\<lparr>sc_ctxDone := True\<rparr>)"
| receive: "sc_phase s = Selecting \<Longrightarrow> sc_compl s = (st, ok) # rs \<Longrightarrow>
    sched_step s (handleComplete st ok (s\<lparr>sc_compl := rs, sc_phase := Admitting\<rparr>))"
| admit: "sc_phase s = Admitting \<Longrightarrow> sched_step s (admitNext (s\<lparr>sc_phase := Rebalancing\<rparr>))"
| rebalance: "sc_phase s = Rebalancing \<Longrightarrow> sched_step s (snd (rebalanceLive single accepts terminal (s\<lparr>sc_phase := Selecting\<rparr>)))"
| see_done: "sc_phase s = Selecting \<Longrightarrow> sc_doneClosed s \<Longrightarrow> sched_step s (s\<lparr>sc_phase := DrainingDone\<rparr>)"
| drain_done: "sc_phase s = DrainingDone \<Longrightarrow> sc_compl s = (st, ok) # rs \<Longrightarrow>
    sched_step s (handleComplete st ok (s\<lparr>sc_compl := rs\<rparr>))"
| return_done: "sc_phase s = DrainingDone \<Longrightarrow> sc_compl s = [] \<Longrightarrow> sched_step s (s\<lparr>sc_phase := Returned\<rparr>)"
| see_cancel: "sc_phase s = Selecting \<Longrightarrow> sc_ctxDone s \<Longrightarrow>
    sched_step s (wind_down (s\<lparr>sc_phase := DrainingCancelled\<rparr>))"
| drain_cancelled: "sc_phase s = DrainingCancelled \<Longrightarrow> activeTasks s > 0 \<Longrightarrow> sc_compl s = (st, ok) # rs \<Longrightarrow>
    sched_step s (handleComplete st ok (s\<lparr>sc_compl := rs\<rparr>))"
| return_cancelled: "sc_phase s = DrainingCancelled \<Longrightarrow> activeTasks s = 0 \<Longrightarrow> sched_step s (s\<lparr>sc_phase := Returned\<rparr>)"

text \<open>The RPC daemon adds two steps: enqueueing a task with an id not used before, and the \<open>admitNext\<close> at the
  end of an \<open>Enqueue\<close>.\<close>

definition used_ids :: "sched \<Rightarrow> string set" where
  "used_ids s = st_id ` (set (sc_queued s) \<union> set (sc_live s) \<union> fst ` set (sc_gor s))"

inductive daemon_step :: "sched \<Rightarrow> sched \<Rightarrow> bool" where
  inner: "sched_step s s' \<Longrightarrow> daemon_step s s'"
| enqueue: "st_id st \<notin> used_ids s \<Longrightarrow> Enqueue st s = (None, s') \<Longrightarrow> daemon_step s s'"
| rpc_admit: "0 < sc_pendingAdmits s \<Longrightarrow>
    daemon_step s (admitNext (s\<lparr>sc_pendingAdmits := sc_pendingAdmits s - 1\<rparr>))"

subsection \<open>Views\<close>

definition LiveViews :: "sched \<Rightarrow> string list" where
  "LiveViews s = sort (map st_id (sc_live s))"

definition QueuedViews :: "sched \<Rightarrow> string list" where
  "QueuedViews s = map st_id (sc_queued s)"

definition StoppedViews :: "sched \<Rightarrow> string list" where
  "StoppedViews s = map st_id (sc_stopped s)"

subsection \<open>The invariant\<close>

abbreviation ids :: "scheduledTask list \<Rightarrow> string list" where
  "ids l \<equiv> map st_id l"

definition unreported :: "sched \<Rightarrow> string list" where
  "unreported s = map (\<lambda>g. st_id (fst g)) (filter (\<lambda>g. snd g \<noteq> Reported) (sc_gor s))"

definition counted_queued :: "sched \<Rightarrow> nat" where
  "counted_queued s = length (filter st_counted (sc_queued s))"

definition sched_inv :: "sched \<Rightarrow> bool" where
  "sched_inv s \<longleftrightarrow>
     sc_wg s = (if sc_isIdle s then 1 else 0) + int (length (sc_gor s)) + int (counted_queued s) \<and>
     mset (ids (sc_live s)) = mset (unreported s) + mset (map (\<lambda>r. st_id (fst r)) (sc_compl s)) \<and>
     length (sc_live s) \<le> sc_slots s \<and> distinct (ids (sc_live s) @ ids (sc_queued s)) \<and>
     sc_succeeded s + sc_failed s + int (length (sc_live s)) = sc_begun s \<and>
     (sc_windingDown s \<longrightarrow> sc_queued s = [] \<and> \<not> sc_isIdle s \<and> sc_ctxDone s) \<and>
     (sc_windingDown s \<longrightarrow> sc_phase s = DrainingCancelled \<or> sc_phase s = Returned) \<and>
     (sc_phase s = DrainingCancelled \<longrightarrow> sc_windingDown s) \<and>
     (sc_phase s = Returned \<longrightarrow> sc_windingDown s \<longrightarrow> sc_live s = [])"

lemma live_put_fresh: "st_id st \<notin> set (ids l) \<Longrightarrow> live_put st l = l @ [st]"
  by (auto simp: live_put_def filter_id_conv image_iff)

lemma mset_live_delete:
  "distinct (ids l) \<Longrightarrow> i \<in> set (ids l) \<Longrightarrow> mset (ids l) = add_mset i (mset (ids (live_delete i l)))"
proof (induction l)
  case (Cons x l)
  show ?case
  proof (cases "st_id x = i")
    case True
    with Cons.prems have "live_delete i l = l" by (auto simp: live_delete_def filter_id_conv image_iff)
    with True show ?thesis by (simp add: live_delete_def)
  next
    case False
    with Cons show ?thesis by (simp add: live_delete_def)
  qed
qed simp

lemma live_delete_sub: "set (ids (live_delete i l)) \<subseteq> set (ids l)" "distinct (ids l) \<Longrightarrow> distinct (ids (live_delete i l))"
  by (auto simp: live_delete_def distinct_map_filter)

text \<open>The receipt of a report, in whatever phase.\<close>

lemma handleComplete_inv:
  assumes i: "sched_inv s" and c: "sc_compl s = (st, ok) # rs" and p: "sc_phase s \<noteq> Returned" "ph \<noteq> Returned"
    and q: "ph = DrainingCancelled \<longleftrightarrow> sc_phase s = DrainingCancelled"
  shows "sched_inv (handleComplete st ok (s\<lparr>sc_compl := rs, sc_phase := ph\<rparr>))"
    and "length (sc_live s) = Suc (length (sc_live (handleComplete st ok (s\<lparr>sc_compl := rs, sc_phase := ph\<rparr>))))"
proof -
  have m: "mset (ids (sc_live s)) = mset (unreported s) + mset (st_id st # map (\<lambda>r. st_id (fst r)) rs)"
    and d: "distinct (ids (sc_live s))" using i c by (auto simp: sched_inv_def)
  then have "st_id st \<in># mset (ids (sc_live s))" by simp
  then have e: "mset (ids (sc_live s)) = add_mset (st_id st) (mset (ids (live_delete (st_id st) (sc_live s))))"
    using mset_live_delete [OF d] by (metis set_mset_mset)
  then have len: "length (sc_live s) = Suc (length (live_delete (st_id st) (sc_live s)))"
    by (metis size_mset length_map size_add_mset)
  then show "length (sc_live s) = Suc (length (sc_live (handleComplete st ok (s\<lparr>sc_compl := rs, sc_phase := ph\<rparr>))))"
    by (simp add: handleComplete_def Let_def)
  show "sched_inv (handleComplete st ok (s\<lparr>sc_compl := rs, sc_phase := ph\<rparr>))"
    using i c m e len p q live_delete_sub [where i = "st_id st" and l = "sc_live s"]
    unfolding sched_inv_def
    by (auto simp: handleComplete_def Let_def unreported_def counted_queued_def)
qed

lemma admitNext_inv:
  assumes i: "sched_inv s" and p: "sc_phase s \<noteq> DrainingCancelled"
  shows "sched_inv (admitNext s)"
proof (cases "sc_queued s")
  case Nil
  then show ?thesis using i by (simp add: admitNext_def)
next
  case (Cons q qs)
  show ?thesis
  proof (cases "length (sc_live s) \<ge> sc_slots s")
    case True
    then show ?thesis using i Cons by (simp add: admitNext_def)
  next
    case False
    have w: "\<not> sc_windingDown s" using i Cons by (auto simp: sched_inv_def)
    have "st_id q \<notin> set (ids (sc_live s))" using i Cons by (auto simp: sched_inv_def)
    then have a: "admitNext s = (launch q (s\<lparr>sc_queued := qs, sc_live := sc_live s @ [q]\<rparr>))
        \<lparr>sc_wg := sc_wg s + (if st_counted q then 0 else 1)\<rparr>"
      using Cons False w by (simp add: admitNext_def live_put_fresh launch_def AddCounter_def Let_def)
    show ?thesis using i Cons False unfolding sched_inv_def a
      by (auto simp: launch_def unreported_def counted_queued_def)
  qed
qed

lemma sched_inv_phase:
  "sched_inv s \<Longrightarrow> sc_phase s \<noteq> DrainingCancelled \<Longrightarrow> sc_phase s \<noteq> Returned \<Longrightarrow> ph \<noteq> DrainingCancelled \<Longrightarrow> ph \<noteq> Returned \<Longrightarrow>
   sched_inv (s\<lparr>sc_phase := ph\<rparr>)"
  by (auto simp: sched_inv_def unreported_def counted_queued_def)

lemma rebalance_ids:
  "\<exists>l. snd (rebalanceLive single accepts terminal s) = s\<lparr>sc_live := l\<rparr> \<and> ids l = ids (sc_live s)"
proof -
  have k: "ids (map (\<lambda>st. case m (st_id st) of Some n \<Rightarrow> if n < 1 then st else st\<lparr>st_conns := n\<rparr> | None \<Rightarrow> st) l) = ids l"
    for m :: "string \<Rightarrow> int option" and l
    by (induction l) (auto split: option.splits)
  show ?thesis
  proof (cases "\<not> RebalanceConnections (sc_plan s) \<or> ConnectionBudget (sc_plan s) < 1 \<or> sc_live s = []")
    case True
    then show ?thesis by (intro exI [of _ "sc_live s"]) (simp add: rebalanceLive_def)
  next
    case False
    then show ?thesis unfolding rebalanceLive_def Let_def by (simp only: if_False snd_conv) (use k in blast)
  qed
qed

lemma rebalance_inv: "sched_inv s \<Longrightarrow> sched_inv (snd (rebalanceLive single accepts terminal s))"
proof -
  assume i: "sched_inv s"
  obtain l where l: "snd (rebalanceLive single accepts terminal s) = s\<lparr>sc_live := l\<rparr>" "ids l = ids (sc_live s)"
    using rebalance_ids by blast
  have "length l = length (sc_live s)" using l(2) by (metis length_map)
  then show ?thesis using i l unfolding sched_inv_def by (auto simp: unreported_def counted_queued_def)
qed

lemma wind_down_inv:
  assumes "sched_inv s" "sc_phase s = Selecting" "sc_ctxDone s"
  shows "sched_inv (wind_down (s\<lparr>sc_phase := DrainingCancelled\<rparr>))"
  using assms unfolding sched_inv_def
  by (auto simp: wind_down_def releaseIdle_def unreported_def counted_queued_def)

lemma gor_update_inv:
  assumes "i < length (sc_gor s)" "sc_gor s ! i = (st, g)" "sched_inv s" "g \<noteq> Reported"
  shows "sched_inv (s\<lparr>sc_gor := (sc_gor s)[i := (st, Reporting ok)]\<rparr>)"
    and "sc_compl s = [] \<Longrightarrow> sched_inv (s\<lparr>sc_compl := [(st, ok)], sc_gor := (sc_gor s)[i := (st, Reported)]\<rparr>)"
proof -
  obtain xs ys where x: "sc_gor s = xs @ (st, g) # ys" "length xs = i"
    using assms(1,2) by (metis id_take_nth_drop length_take less_or_eq_imp_le min_absorb2)
  have u: "(sc_gor s)[i := h] = xs @ h # ys" for h using x by (simp add: list_update_append)
  show "sched_inv (s\<lparr>sc_gor := (sc_gor s)[i := (st, Reporting ok)]\<rparr>)"
    using assms(3,4) x(1) unfolding sched_inv_def u by (simp add: unreported_def counted_queued_def)
  show "sc_compl s = [] \<Longrightarrow> sched_inv (s\<lparr>sc_compl := [(st, ok)], sc_gor := (sc_gor s)[i := (st, Reported)]\<rparr>)"
    using assms(3,4) x(1) unfolding sched_inv_def u by (simp add: unreported_def counted_queued_def)
qed

lemma sched_step_inv: "sched_step s s' \<Longrightarrow> sched_inv s \<Longrightarrow> sched_inv s'"
proof (induction rule: sched_step.induct)
  case (task_ends i s st ok)
  then show ?case using gor_update_inv(1) by blast
next
  case (report i s st ok)
  then show ?case using gor_update_inv(2) by blast
next
  case (leave_group s gs st gs')
  then show ?case unfolding sched_inv_def by (simp add: unreported_def counted_queued_def)
next
  case (receive s st ok rs)
  then show ?case using handleComplete_inv(1) [of s st ok rs Admitting] by simp
next
  case (admit s)
  then show ?case by (intro admitNext_inv sched_inv_phase) auto
next
  case (rebalance s single accepts terminal)
  then show ?case by (intro rebalance_inv sched_inv_phase) auto
next
  case (see_done s)
  then show ?case by (intro sched_inv_phase) auto
next
  case (drain_done s st ok rs)
  have e: "s\<lparr>sc_compl := rs\<rparr> = s\<lparr>sc_compl := rs, sc_phase := DrainingDone\<rparr>" using drain_done(1) by simp
  show ?case by (subst e, rule handleComplete_inv(1)) (use drain_done in auto)
next
  case (drain_cancelled s st ok rs)
  have e: "s\<lparr>sc_compl := rs\<rparr> = s\<lparr>sc_compl := rs, sc_phase := DrainingCancelled\<rparr>" using drain_cancelled(1) by simp
  show ?case by (subst e, rule handleComplete_inv(1)) (use drain_cancelled in auto)
next
  case (see_cancel s)
  then show ?case using wind_down_inv by blast
next
  case (return_cancelled s)
  then show ?case unfolding sched_inv_def by (auto simp: unreported_def counted_queued_def activeTasks_def)
qed (auto simp: sched_inv_def unreported_def counted_queued_def)

lemma Enqueue_inv:
  assumes "st_id st \<notin> used_ids s" "Enqueue st s = (None, s')" "sched_inv s"
  shows "sched_inv s'"
proof -
  have s': "s' = s\<lparr>sc_wg := sc_wg s + 1, sc_queued := sc_queued s @ [st\<lparr>st_counted := True\<rparr>], sc_pendingAdmits := sc_pendingAdmits s + 1\<rparr>"
    and w: "\<not> sc_windingDown s"
    using assms(2) by (auto simp: Enqueue_def split: if_splits)
  have "st_id st \<notin> set (ids (sc_live s) @ ids (sc_queued s))" using assms(1) by (auto simp: used_ids_def)
  then show ?thesis using assms(3) w unfolding sched_inv_def s' by (auto simp: unreported_def counted_queued_def)
qed

lemma daemon_step_inv: "daemon_step s s' \<Longrightarrow> sched_inv s \<Longrightarrow> sched_inv s'"
proof (induction rule: daemon_step.induct)
  case (rpc_admit s)
  have i: "sched_inv (s\<lparr>sc_pendingAdmits := sc_pendingAdmits s - 1\<rparr>)"
    using rpc_admit(2) by (simp add: sched_inv_def unreported_def counted_queued_def)
  show ?case
  proof (cases "sc_phase s = DrainingCancelled")
    case True
    then have "sc_queued s = []" using rpc_admit(2) by (auto simp: sched_inv_def)
    then show ?thesis using i by (simp add: admitNext_def)
  next
    case False
    then show ?thesis using admitNext_inv [OF i] by simp
  qed
qed (use sched_step_inv Enqueue_inv in blast)+

subsection \<open>The initial states\<close>

definition made :: "(allocation \<times> string option) list \<Rightarrow> string list" where
  "made as = List.map_filter snd as"

lemma made_simps [simp]: "made [] = []" "made ((a, None) # as) = made as" "made ((a, Some i) # as) = i # made as"
  by (simp_all add: made_def List.map_filter_simps)

lemma empty_inv: "sched_inv (NewEmptyScheduler n)"
  by (simp add: sched_inv_def NewEmptyScheduler_def NewScheduler_def unreported_def counted_queued_def)

lemma queue_plan_inv:
  "sched_inv s \<Longrightarrow> \<not> sc_windingDown s \<Longrightarrow> distinct (ids (sc_live s) @ ids (sc_queued s) @ made as) \<Longrightarrow>
   sched_inv (queue_plan as s) \<and> ids (sc_queued (queue_plan as s)) = ids (sc_queued s) @ made as \<and>
   sc_live (queue_plan as s) = sc_live s \<and> sc_slots (queue_plan as s) = sc_slots s \<and> \<not> sc_windingDown (queue_plan as s)
   \<and> sc_phase (queue_plan as s) = sc_phase s \<and> sc_doneClosed (queue_plan as s) = sc_doneClosed s
   \<and> sc_isIdle (queue_plan as s) = sc_isIdle s"
proof (induction "as" s rule: queue_plan.induct)
  case (2 a m "as" s)
  show ?case
  proof (cases m)
    case None
    have "sched_inv (s\<lparr>sc_failed := sc_failed s + 1, sc_begun := sc_begun s + 1\<rparr>)"
      using "2.prems"(1) by (auto simp: sched_inv_def unreported_def counted_queued_def)
    then show ?thesis using "2.IH"(1) [OF None] "2.prems" None by simp
  next
    case (Some i)
    have "sched_inv (s\<lparr>sc_queued := sc_queued s @ [\<lparr>st_id = i, st_conns = al_Connections a, st_counted = False\<rparr>]\<rparr>)"
      using "2.prems" Some by (auto simp: sched_inv_def unreported_def counted_queued_def)
    then show ?thesis using "2.IH"(2) [OF Some] "2.prems" Some by simp
  qed
qed simp

lemma startOne_inv:
  assumes "sched_inv s" "\<not> sc_windingDown s" "st_id st \<notin> set (ids (sc_live s) @ ids (sc_queued s))" "length (sc_live s) < sc_slots s"
  shows "sched_inv (startOne st (s\<lparr>sc_wg := sc_wg s + 1\<rparr>))"
    and "startOne st (s\<lparr>sc_wg := sc_wg s + 1\<rparr>) = launch st (s\<lparr>sc_wg := sc_wg s + 1, sc_live := sc_live s @ [st]\<rparr>)"
proof -
  show e: "startOne st (s\<lparr>sc_wg := sc_wg s + 1\<rparr>) = launch st (s\<lparr>sc_wg := sc_wg s + 1, sc_live := sc_live s @ [st]\<rparr>)"
    using assms(3) by (simp add: startOne_def live_put_fresh)
  show "sched_inv (startOne st (s\<lparr>sc_wg := sc_wg s + 1\<rparr>))"
    using assms unfolding e sched_inv_def by (auto simp: launch_def unreported_def counted_queued_def)
qed

lemma admit_initial_inv:
  "sched_inv s \<Longrightarrow> \<not> sc_windingDown s \<Longrightarrow> length (sc_live s) \<le> k \<Longrightarrow> sc_phase s = Selecting \<Longrightarrow> \<not> sc_doneClosed s \<Longrightarrow>
   distinct (ids (sc_live s) @ ids (sc_queued s) @ made as) \<Longrightarrow>
   sched_inv (admit_initial as k s) \<and> sc_queued (admit_initial as k s) = sc_queued s \<and>
   sc_phase (admit_initial as k s) = Selecting \<and> \<not> sc_doneClosed (admit_initial as k s) \<and>
   sc_isIdle (admit_initial as k s) = sc_isIdle s \<and> sc_slots (admit_initial as k s) = sc_slots s"
proof (induction "as" arbitrary: k s)
  case (Cons x "as")
  obtain a m where x: "x = (a, m)" by (cases x)
  show ?case
  proof (cases "sc_slots s \<le> k")
    case False
    show ?thesis
    proof (cases m)
      case None
      let ?t = "s\<lparr>sc_failed := sc_failed s + 1, sc_begun := sc_begun s + 1\<rparr>"
      have "sched_inv ?t" using Cons.prems(1) by (auto simp: sched_inv_def unreported_def counted_queued_def)
      then show ?thesis using Cons.IH [of ?t k] Cons.prems None False x by simp
    next
      case (Some i)
      let ?st = "\<lparr>st_id = i, st_conns = al_Connections a, st_counted = False\<rparr>"
      have f: "st_id ?st \<notin> set (ids (sc_live s) @ ids (sc_queued s))" "length (sc_live s) < sc_slots s"
        using Cons.prems Some False x by auto
      define t where "t = startOne ?st (s\<lparr>sc_wg := sc_wg s + 1\<rparr>)"
      note n = startOne_inv [OF Cons.prems(1,2) f, folded t_def]
      have u: "admit_initial (x # as) k s = admit_initial as (k + 1) t"
        using False Some Cons.prems(2) x by (simp add: AddCounter_def t_def)
      have t: "\<not> sc_windingDown t" "length (sc_live t) \<le> k + 1" "sc_phase t = Selecting" "\<not> sc_doneClosed t"
        "distinct (ids (sc_live t) @ ids (sc_queued t) @ made as)" "sc_queued t = sc_queued s" "sc_isIdle t = sc_isIdle s" "sc_slots t = sc_slots s"
        using Cons.prems Some x unfolding n(2) by (auto simp: launch_def)
      show ?thesis unfolding u using Cons.IH [OF n(1) t(1-5)] t(6-8) by simp
    qed
  qed (use Cons.prems x in simp)
qed simp

lemma setup_inv:
  assumes "distinct (made (zip (Queued p) mq) @ made (zip (Parallel p) mp))"
  shows "sched_inv (run_setup p mq mp)" "sc_phase (run_setup p mq mp) = Selecting" "\<not> sc_doneClosed (run_setup p mq mp)"
    "ids (sc_queued (run_setup p mq mp)) = made (zip (Queued p) mq)" "\<not> sc_isIdle (run_setup p mq mp)"
    "sc_slots (run_setup p mq mp) = length (Parallel p)"
proof -
  define s where "s = queue_plan (zip (Queued p) mq) (NewScheduler p)"
  have n: "sched_inv (NewScheduler p)" by (simp add: sched_inv_def NewScheduler_def unreported_def counted_queued_def)
  have q: "sched_inv s" "ids (sc_queued s) = made (zip (Queued p) mq)" "sc_live s = []" "sc_slots s = length (Parallel p)"
    "\<not> sc_windingDown s" "sc_phase s = Selecting" "\<not> sc_doneClosed s" "\<not> sc_isIdle s"
    using queue_plan_inv [OF n, of "zip (Queued p) mq"] assms by (auto simp: s_def NewScheduler_def)
  have "distinct (ids (sc_live s) @ ids (sc_queued s) @ made (zip (Parallel p) mp))" using assms q by simp
  from admit_initial_inv [OF q(1,5) _ q(6,7) this, of 0] q
  show "sched_inv (run_setup p mq mp)" "sc_phase (run_setup p mq mp) = Selecting" "\<not> sc_doneClosed (run_setup p mq mp)"
    "ids (sc_queued (run_setup p mq mp)) = made (zip (Queued p) mq)" "\<not> sc_isIdle (run_setup p mq mp)"
    "sc_slots (run_setup p mq mp) = length (Parallel p)"
    by (simp_all add: run_setup_def s_def [symmetric])
qed

subsection \<open>The daemon does not end before it is told to\<close>

definition daemon_inv :: "sched \<Rightarrow> bool" where
  "daemon_inv s \<longleftrightarrow> sched_inv s \<and> sc_phase s \<noteq> DrainingDone \<and>
     (sc_phase s \<in> {Selecting, Admitting, Rebalancing} \<longrightarrow> sc_isIdle s \<and> \<not> sc_doneClosed s) \<and>
     (sc_phase s = Returned \<longrightarrow> sc_windingDown s)"

lemma same_admin:
  "sc_phase (admitNext s) = sc_phase s" "sc_isIdle (admitNext s) = sc_isIdle s" "sc_doneClosed (admitNext s) = sc_doneClosed s"
  "sc_windingDown (admitNext s) = sc_windingDown s"
  "sc_phase (handleComplete st ok s) = sc_phase s" "sc_isIdle (handleComplete st ok s) = sc_isIdle s"
  "sc_doneClosed (handleComplete st ok s) = sc_doneClosed s" "sc_windingDown (handleComplete st ok s) = sc_windingDown s"
  "sc_queued (handleComplete st ok s) = sc_queued s" "sc_gor (handleComplete st ok s) = sc_gor s"
  "sc_compl (handleComplete st ok s) = sc_compl s"
  by (auto simp: admitNext_def launch_def AddCounter_def handleComplete_def Let_def split: list.splits)

lemma rebalance_admin:
  "sc_phase (snd (rebalanceLive single accepts terminal s)) = sc_phase s"
  "sc_isIdle (snd (rebalanceLive single accepts terminal s)) = sc_isIdle s"
  "sc_doneClosed (snd (rebalanceLive single accepts terminal s)) = sc_doneClosed s"
  "sc_queued (snd (rebalanceLive single accepts terminal s)) = sc_queued s"
  "sc_gor (snd (rebalanceLive single accepts terminal s)) = sc_gor s"
  "length (sc_live (snd (rebalanceLive single accepts terminal s))) = length (sc_live s)"
  using rebalance_ids [of single accepts terminal s] by (auto dest: arg_cong [of _ _ length])

lemma idle_wg: "sched_inv s \<Longrightarrow> sc_isIdle s \<Longrightarrow> 1 \<le> sc_wg s"
  by (simp add: sched_inv_def)

lemma daemon_sched_step: "sched_step s s' \<Longrightarrow> daemon_inv s \<Longrightarrow> daemon_inv s'"
proof -
  assume st: "sched_step s s'" and d: "daemon_inv s"
  have "sched_inv s'" using sched_step_inv [OF st] d by (simp add: daemon_inv_def)
  moreover have "sc_phase s' \<noteq> DrainingDone \<and> (sc_phase s' \<in> {Selecting, Admitting, Rebalancing} \<longrightarrow> sc_isIdle s' \<and> \<not> sc_doneClosed s')
      \<and> (sc_phase s' = Returned \<longrightarrow> sc_windingDown s')"
    using st d
  proof (cases rule: sched_step.cases)
    case observe_zero
    then show ?thesis using d idle_wg [of s] by (auto simp: daemon_inv_def)
  next
    case return_cancelled
    then show ?thesis using d by (auto simp: daemon_inv_def sched_inv_def)
  next
    case see_cancel
    then show ?thesis by (auto simp: wind_down_def releaseIdle_def)
  next
    case rebalance
    then show ?thesis using d by (auto simp: daemon_inv_def rebalance_admin)
  qed (auto simp: daemon_inv_def same_admin)
  ultimately show ?thesis by (simp add: daemon_inv_def)
qed

lemma daemon_step_keeps: "daemon_step s s' \<Longrightarrow> daemon_inv s \<Longrightarrow> daemon_inv s'"
proof -
  assume st: "daemon_step s s'" and d: "daemon_inv s"
  have i: "sched_inv s'" using daemon_step_inv [OF st] d by (simp add: daemon_inv_def)
  show ?thesis using st
  proof (cases rule: daemon_step.cases)
    case inner
    then show ?thesis using daemon_sched_step d by blast
  next
    case (enqueue st0)
    then show ?thesis using d i by (auto simp: daemon_inv_def Enqueue_def split: if_splits)
  next
    case rpc_admit
    then show ?thesis using d i by (auto simp: daemon_inv_def same_admin)
  qed
qed

lemma daemon_reach: "daemon_step\<^sup>*\<^sup>* (NewEmptyScheduler n) s \<Longrightarrow> daemon_inv s"
proof (induction rule: rtranclp_induct)
  case base
  show ?case using empty_inv [of n] by (auto simp: daemon_inv_def NewEmptyScheduler_def NewScheduler_def)
qed (rule daemon_step_keeps)

subsection \<open>A one-shot run with an empty queue\<close>

definition batch_inv :: "sched \<Rightarrow> bool" where
  "batch_inv s \<longleftrightarrow> sched_inv s \<and> sc_queued s = [] \<and> \<not> sc_isIdle s \<and> (sc_doneClosed s \<longrightarrow> sc_gor s = []) \<and>
     (sc_phase s = DrainingDone \<longrightarrow> sc_doneClosed s) \<and> (sc_phase s = Returned \<longrightarrow> sc_live s = [])"

lemma no_goroutines:
  assumes "sched_inv s" "sc_wg s = 0"
  shows "sc_gor s = []"
proof -
  have "sc_wg s = (if sc_isIdle s then 1 else 0) + int (length (sc_gor s)) + int (counted_queued s)"
    using assms(1) unfolding sched_inv_def by blast
  moreover have "n = 0" if "0 = (if b then 1 else 0) + int n + int m" for b and n m :: nat
    using that by (cases b) simp_all
  ultimately have "length (sc_gor s) = 0" using assms(2) by metis
  then show ?thesis by simp
qed

lemma empty_live: "sched_inv s \<Longrightarrow> sc_gor s = [] \<Longrightarrow> sc_compl s = [] \<Longrightarrow> sc_live s = []"
  by (simp add: sched_inv_def unreported_def)

lemma batch_step: "sched_step s s' \<Longrightarrow> batch_inv s \<Longrightarrow> batch_inv s'"
proof -
  assume st: "sched_step s s'" and d: "batch_inv s"
  have "sched_inv s'" using sched_step_inv [OF st] d by (simp add: batch_inv_def)
  moreover have "sc_queued s' = [] \<and> \<not> sc_isIdle s' \<and> (sc_doneClosed s' \<longrightarrow> sc_gor s' = []) \<and>
     (sc_phase s' = DrainingDone \<longrightarrow> sc_doneClosed s') \<and> (sc_phase s' = Returned \<longrightarrow> sc_live s' = [])"
    using st
  proof (cases rule: sched_step.cases)
    case observe_zero
    then show ?thesis using d no_goroutines [of s] by (auto simp: batch_inv_def)
  next
    case admit
    then show ?thesis using d by (auto simp: batch_inv_def admitNext_def)
  next
    case see_cancel
    then show ?thesis using d by (auto simp: batch_inv_def wind_down_def releaseIdle_def)
  next
    case rebalance
    then show ?thesis using d by (auto simp: batch_inv_def rebalance_admin)
  next
    case return_done
    then show ?thesis using d empty_live [of s] by (auto simp: batch_inv_def)
  qed (use d in \<open>auto simp: batch_inv_def same_admin activeTasks_def\<close>)
  ultimately show ?thesis by (simp add: batch_inv_def)
qed

lemma batch_reach:
  assumes "sched_step\<^sup>*\<^sup>* s0 s" "batch_inv s0"
  shows "batch_inv s"
  using assms by (induction rule: rtranclp_induct) (auto intro: batch_step)

lemma batch_begun:
  assumes "sched_step\<^sup>*\<^sup>* s0 s" "batch_inv s0"
  shows "sc_begun s = sc_begun s0"
  using assms
proof (induction rule: rtranclp_induct)
  case (step s s')
  have q: "sc_queued s = []" using batch_reach [OF step.hyps(1) assms(2)] by (simp add: batch_inv_def)
  have r: "sc_begun (snd (rebalanceLive single accepts terminal u)) = sc_begun u" for single accepts terminal u
    using rebalance_ids [of single accepts terminal u] by auto
  have "sc_begun s' = sc_begun s" using step.hyps(2)
    by (cases rule: sched_step.cases) (auto simp: same_admin q admitNext_def r wind_down_def releaseIdle_def handleComplete_def Let_def)
  then show ?case using step by simp
qed simp

lemma admit_initial_begun:
  "\<not> sc_windingDown s \<Longrightarrow> k + length js \<le> sc_slots s \<Longrightarrow> length xs = length js \<Longrightarrow>
   sc_begun (admit_initial (zip xs (map Some js)) k s) = sc_begun s + int (length js)"
proof (induction js arbitrary: xs k s)
  case (Cons j js)
  then show ?case by (cases xs) (auto simp: AddCounter_def startOne_def launch_def)
qed simp

subsection \<open>After the cancellation\<close>

text \<open>What is left to do once the loop drains a cancelled run: each goroutine has at most three moves to make, each
  report one, the observer one and the return one.\<close>

fun gor_work :: "gphase \<Rightarrow> nat" where
  "gor_work Running = 4"
| "gor_work (Reporting ok) = 3"
| "gor_work Reported = 1"

definition cancel_work :: "sched \<Rightarrow> nat" where
  "cancel_work s = sum_list (map (\<lambda>g. gor_work (snd g)) (sc_gor s)) + length (sc_compl s)
     + (if sc_doneClosed s then 0 else 1) + (if sc_phase s = Returned then 0 else 1)"

lemma gor_work_update:
  assumes "i < length gs" "gs ! i = (st, g)" "gor_work h < gor_work g"
  shows "sum_list (map (\<lambda>x. gor_work (snd x)) (gs[i := (st, h)])) + gor_work g
       = sum_list (map (\<lambda>x. gor_work (snd x)) gs) + gor_work h"
proof -
  obtain xs ys where x: "gs = xs @ (st, g) # ys" "length xs = i"
    using assms(1,2) by (metis id_take_nth_drop length_take less_or_eq_imp_le min_absorb2)
  then show ?thesis by (simp add: list_update_append)
qed

lemma cancel_step_decreases:
  assumes "sched_step s s'" "s' \<noteq> s" "sched_inv s" "sc_phase s = DrainingCancelled"
  shows "cancel_work s' < cancel_work s \<and> (sc_phase s' = DrainingCancelled \<or> sc_phase s' = Returned)"
  using assms(1)
proof (cases rule: sched_step.cases)
  case (task_ends i st ok)
  then show ?thesis using gor_work_update [of i "sc_gor s" st Running "Reporting ok"] assms(4)
    by (simp add: cancel_work_def)
next
  case (report i st ok)
  then show ?thesis using gor_work_update [of i "sc_gor s" st "Reporting ok" Reported] assms(4)
    by (simp add: cancel_work_def)
next
  case observe_zero
  then have "\<not> sc_doneClosed s" using assms(2) by auto
  then show ?thesis using observe_zero assms(4) by (simp add: cancel_work_def)
next
  case context_done
  have "sc_ctxDone s" using assms(3,4) by (simp add: sched_inv_def)
  then have "s' = s" using context_done by simp
  then show ?thesis using assms(2) by simp
qed (use assms(4) in \<open>auto simp: cancel_work_def handleComplete_def Let_def\<close>)

text \<open>No deadlock: the channel is read for as long as a task is live, so the blocking send goes through.\<close>

lemma cancel_progress:
  assumes i: "sched_inv s" and p: "sc_phase s = DrainingCancelled"
  shows "\<exists>s'. sched_step s s' \<and> s' \<noteq> s"
proof (cases "sc_live s")
  case Nil
  have "sched_step s (s\<lparr>sc_phase := Returned\<rparr>)" by (rule return_cancelled) (simp_all add: p Nil activeTasks_def)
  moreover have "s\<lparr>sc_phase := Returned\<rparr> \<noteq> s" using p by (metis run_phase.distinct(29) sched.select_convs(14) sched.surjective sched.update_convs(14))
  ultimately show ?thesis by blast
next
  case (Cons x xs)
  show ?thesis
  proof (cases "sc_compl s")
    case (Cons r rs)
    obtain st ok where r: "r = (st, ok)" by (cases r)
    have l: "0 < activeTasks s" using \<open>sc_live s = x # xs\<close> by (simp add: activeTasks_def)
    have "sched_step s (handleComplete st ok (s\<lparr>sc_compl := rs\<rparr>))"
      by (rule drain_cancelled) (use p l Cons r in simp_all)
    moreover have "sc_compl (handleComplete st ok (s\<lparr>sc_compl := rs\<rparr>)) \<noteq> sc_compl s" using Cons by (simp add: same_admin)
    ultimately show ?thesis by metis
  next
    case Nil
    have "mset (ids (sc_live s)) = mset (unreported s)" using i Nil by (simp add: sched_inv_def)
    then have "unreported s \<noteq> []" using Cons by (metis list.map_disc_iff list.distinct(1) mset_zero_iff)
    then obtain g where g: "g \<in> set (sc_gor s)" "snd g \<noteq> Reported" by (auto simp: unreported_def filter_empty_conv)
    then obtain k st h where k: "k < length (sc_gor s)" "sc_gor s ! k = (st, h)" "h \<noteq> Reported"
      by (metis in_set_conv_nth prod.collapse)
    show ?thesis
    proof (cases h)
      case Running
      let ?t = "s\<lparr>sc_gor := (sc_gor s)[k := (st, Reporting True)]\<rparr>"
      have "sched_step s ?t" by (rule task_ends) (use k Running in simp_all)
      moreover have "sc_gor ?t ! k \<noteq> sc_gor s ! k" using k Running by simp
      ultimately show ?thesis by metis
    next
      case (Reporting ok)
      let ?t = "s\<lparr>sc_compl := [(st, ok)], sc_gor := (sc_gor s)[k := (st, Reported)]\<rparr>"
      have "sched_step s ?t" by (rule report) (use k Reporting Nil in simp_all)
      moreover have "sc_compl ?t \<noteq> sc_compl s" using Nil by simp
      ultimately show ?thesis by metis
    qed (use k in simp)
  qed
qed

lemma cancel_reaches_return:
  "sched_inv s \<Longrightarrow> sc_phase s = DrainingCancelled \<Longrightarrow> \<exists>s'. sched_step\<^sup>*\<^sup>* s s' \<and> sc_phase s' = Returned"
proof (induction "cancel_work s" arbitrary: s rule: less_induct)
  case less
  obtain t where t: "sched_step s t" "t \<noteq> s" using cancel_progress less.prems by blast
  note d = cancel_step_decreases [OF t less.prems]
  show ?case
  proof (cases "sc_phase t = Returned")
    case True
    then show ?thesis using t by blast
  next
    case False
    then obtain u where "sched_step\<^sup>*\<^sup>* t u" "sc_phase u = Returned"
      using less.hyps [of t] d sched_step_inv [OF t(1) less.prems(1)] by blast
    then show ?thesis using t by (meson converse_rtranclp_into_rtranclp)
  qed
qed

subsection \<open>Two runs\<close>

lemma path2: "R\<^sup>*\<^sup>* s s0 \<Longrightarrow> R s0 s1 \<Longrightarrow> R s1 s2 \<Longrightarrow> R\<^sup>*\<^sup>* s s2"
  by (rule rtranclp.rtrancl_into_rtrancl, erule rtranclp.rtrancl_into_rtrancl)

lemma path4: "R\<^sup>*\<^sup>* s s0 \<Longrightarrow> R s0 s1 \<Longrightarrow> R s1 s2 \<Longrightarrow> R s2 s3 \<Longrightarrow> R s3 s4 \<Longrightarrow> R\<^sup>*\<^sup>* s s4"
  by (rule path2, rule path2)

abbreviation demo_task :: "string \<Rightarrow> scheduledTask" where
  "demo_task i \<equiv> \<lparr>st_id = i, st_conns = 4, st_counted = False\<rparr>"

text \<open>A daemon that takes one task, finishes it and is cancelled.\<close>

definition demo_running :: sched where
  "demo_running = (let s = snd (Enqueue (demo_task ''a'') (NewEmptyScheduler 1))
                   in admitNext (s\<lparr>sc_pendingAdmits := sc_pendingAdmits s - 1\<rparr>))"

definition demo_cancelled :: sched where
  "demo_cancelled = wind_down (demo_running\<lparr>sc_ctxDone := True, sc_phase := DrainingCancelled\<rparr>)"

definition demo_returned :: sched where
  "demo_returned =
     (let st = fst (hd (sc_gor demo_cancelled));
          s = demo_cancelled\<lparr>sc_compl := [(st, True)], sc_gor := [(st, Reported)]\<rparr>
      in (handleComplete st True (s\<lparr>sc_compl := []\<rparr>))\<lparr>sc_phase := Returned\<rparr>)"

lemmas demo_simps = demo_running_def demo_cancelled_def demo_returned_def Enqueue_def admitNext_def AddCounter_def launch_def
  live_put_def live_delete_def wind_down_def releaseIdle_def handleComplete_def Let_def NewEmptyScheduler_def NewScheduler_def
  maxPendingTasks_def maxStoppedTasks_def activeTasks_def

lemma demo_reach_running: "daemon_step\<^sup>*\<^sup>* (NewEmptyScheduler 1) demo_running"
proof -
  let ?s = "snd (Enqueue (demo_task ''a'') (NewEmptyScheduler 1))"
  have "daemon_step (NewEmptyScheduler 1) ?s"
    by (rule enqueue [of "demo_task ''a''"]) (simp_all add: demo_simps used_ids_def)
  moreover have "daemon_step ?s demo_running"
    unfolding demo_running_def Let_def by (rule rpc_admit) (simp add: demo_simps)
  ultimately show ?thesis by (intro path2 [OF rtranclp.rtrancl_refl])
qed

lemma demo_reach_cancelled: "daemon_step\<^sup>*\<^sup>* (NewEmptyScheduler 1) demo_cancelled"
proof -
  have "sched_step demo_running (demo_running\<lparr>sc_ctxDone := True\<rparr>)" by (rule context_done)
  moreover have "sched_step (demo_running\<lparr>sc_ctxDone := True\<rparr>) demo_cancelled"
  proof -
    have "demo_cancelled = wind_down ((demo_running\<lparr>sc_ctxDone := True\<rparr>)\<lparr>sc_phase := DrainingCancelled\<rparr>)"
      by (simp add: demo_cancelled_def)
    moreover have "sched_step (demo_running\<lparr>sc_ctxDone := True\<rparr>)
        (wind_down ((demo_running\<lparr>sc_ctxDone := True\<rparr>)\<lparr>sc_phase := DrainingCancelled\<rparr>))"
      by (rule see_cancel) (simp_all add: demo_simps)
    ultimately show ?thesis by simp
  qed
  ultimately show ?thesis by (intro path2 [OF demo_reach_running] inner)
qed

lemma demo_reach_returned: "daemon_step\<^sup>*\<^sup>* (NewEmptyScheduler 1) demo_returned"
proof -
  define st where "st = \<lparr>st_id = ''a'', st_conns = 4, st_counted = True\<rparr>"
  define t0 where "t0 = demo_cancelled\<lparr>sc_gor := [(st, Reporting True)]\<rparr>"
  define t1 where "t1 = t0\<lparr>sc_compl := [(st, True)], sc_gor := [(st, Reported)]\<rparr>"
  define t2 where "t2 = handleComplete st True (t1\<lparr>sc_compl := []\<rparr>)"
  have g: "sc_gor demo_cancelled = [(st, Running)]" by (simp add: demo_simps st_def)
  have "sched_step demo_cancelled t0" using task_ends [of 0 demo_cancelled st True] by (simp add: g t0_def)
  moreover have "sched_step t0 t1" using report [of 0 t0 st True] by (simp add: t0_def t1_def demo_simps)
  moreover have "sched_step t1 t2" unfolding t2_def by (rule drain_cancelled) (simp_all add: t1_def t0_def demo_simps)
  moreover have "sched_step t2 demo_returned"
  proof -
    have "demo_returned = t2\<lparr>sc_phase := Returned\<rparr>" by (simp add: t2_def t1_def t0_def demo_simps st_def)
    moreover have "sched_step t2 (t2\<lparr>sc_phase := Returned\<rparr>)"
      by (rule return_cancelled) (simp_all add: t2_def t1_def t0_def demo_simps st_def)
    ultimately show ?thesis by simp
  qed
  ultimately show ?thesis by (intro path4 [OF demo_reach_cancelled] inner)
qed

text \<open>Two URLs on one slot: the first is admitted, the second waits.\<close>

definition two_urls :: sched where
  "two_urls = run_setup \<lparr>Parallel = [\<lparr>al_URL = ''u'', al_Connections = 4, al_SupportsRange = True\<rparr>], Queued = [\<lparr>al_URL = ''v'', al_Connections = 4, al_SupportsRange = True\<rparr>],
     Warning = [], ConnectionBudget = 0, RebalanceConnections = False\<rparr> [Some ''b''] [Some ''a'']"

lemma two_urls_state:
  "sc_queued two_urls = [demo_task ''b'']" "sc_live two_urls = [demo_task ''a'']" "sc_wg two_urls = 1" "sc_slots two_urls = 1"
  "sc_compl two_urls = []" "sc_gor two_urls = [(demo_task ''a'', Running)]" "\<not> sc_doneClosed two_urls" "sc_phase two_urls = Selecting"
  "\<not> sc_ctxDone two_urls" "\<not> sc_windingDown two_urls" "\<not> sc_isIdle two_urls" "\<not> RebalanceConnections (sc_plan two_urls)"
  by (simp_all add: two_urls_def run_setup_def startOne_def demo_simps)

text \<open>The goroutine of the first task reports and leaves the wait group before the loop has received the report.\<close>

definition two_closed :: sched where
  "two_closed = two_urls\<lparr>sc_compl := [(demo_task ''a'', True)], sc_gor := [], sc_wg := 0, sc_doneClosed := True\<rparr>"

lemma two_urls_closed: "sched_step\<^sup>*\<^sup>* two_urls two_closed"
proof -
  let ?a = "demo_task ''a''"
  define t0 where "t0 = two_urls\<lparr>sc_gor := [(?a, Reporting True)]\<rparr>"
  define t1 where "t1 = t0\<lparr>sc_compl := [(?a, True)], sc_gor := [(?a, Reported)]\<rparr>"
  define t2 where "t2 = t1\<lparr>sc_gor := [], sc_wg := 0\<rparr>"
  have "sched_step two_urls t0" using task_ends [of 0 two_urls ?a True] by (simp add: two_urls_state t0_def)
  moreover have "sched_step t0 t1" using report [of 0 t0 ?a True] by (simp add: t0_def t1_def two_urls_state)
  moreover have "sched_step t1 t2" using leave_group [of t1 "[]" ?a "[]"] by (simp add: t0_def t1_def t2_def two_urls_state)
  moreover have "sched_step t2 two_closed"
    using observe_zero [of t2] by (simp add: t0_def t1_def t2_def two_closed_def)
  ultimately show ?thesis by (intro path4 [OF rtranclp.rtrancl_refl])
qed

subsection \<open>The scheduler as a machine of slots\<close>

text \<open>What a client is promised: a line of waiting tasks, at most \<open>n\<close> running ones, and a count of the finished ones.
  A task starts from the head of the line when a slot is free, a running task finishes, a new one joins at the end, and the
  line is dropped when the run is cancelled.\<close>

type_synonym slots_state = "string list \<times> string set \<times> int"

inductive slot_step :: "nat \<Rightarrow> slots_state \<Rightarrow> slots_state \<Rightarrow> bool" for n where
  slot_start: "card R < n \<Longrightarrow> i \<notin> R \<Longrightarrow> slot_step n (i # W, R, d) (W, insert i R, d)"
| slot_finish: "i \<in> R \<Longrightarrow> slot_step n (W, R, d) (W, R - {i}, d + 1)"
| slot_submit: "i \<notin> set W \<union> R \<Longrightarrow> slot_step n (W, R, d) (W @ [i], R, d)"
| slot_cancel: "slot_step n (W, R, d) ([], R, d)"

definition slot_view :: "sched \<Rightarrow> slots_state" where
  "slot_view s = (QueuedViews s, set (LiveViews s), sc_succeeded s + sc_failed s)"

lemma slot_view_eq: "slot_view s = (ids (sc_queued s), set (ids (sc_live s)), sc_succeeded s + sc_failed s)"
  by (simp add: slot_view_def QueuedViews_def LiveViews_def)

lemma handleComplete_slots:
  assumes "sched_inv s" "sc_compl s = (st, ok) # rs"
  shows "slot_step n (slot_view s) (slot_view (handleComplete st ok (s\<lparr>sc_compl := rs, sc_phase := ph\<rparr>)))"
proof -
  have "mset (ids (sc_live s)) = mset (unreported s) + mset (st_id st # map (\<lambda>r. st_id (fst r)) rs)"
    using assms by (simp add: sched_inv_def)
  then have m: "st_id st \<in> set (ids (sc_live s))" by (metis in_multiset_in_set list.set_intros(1) set_mset_mset union_iff)
  have "slot_view (handleComplete st ok (s\<lparr>sc_compl := rs, sc_phase := ph\<rparr>))
      = (ids (sc_queued s), set (ids (sc_live s)) - {st_id st}, sc_succeeded s + sc_failed s + 1)"
    by (auto simp: slot_view_eq handleComplete_def Let_def live_delete_def)
  then show ?thesis unfolding slot_view_eq using slot_finish [OF m] by simp
qed

lemma admitNext_slots:
  assumes "sched_inv s"
  shows "slot_view (admitNext s) = slot_view s \<or> slot_step (sc_slots s) (slot_view s) (slot_view (admitNext s))"
proof (cases "sc_queued s = [] \<or> sc_slots s \<le> length (sc_live s)")
  case True
  then show ?thesis by (auto simp: admitNext_def split: list.splits)
next
  case False
  then obtain q qs where q: "sc_queued s = q # qs" "length (sc_live s) < sc_slots s" by (cases "sc_queued s") auto
  have f: "\<not> sc_windingDown s" "st_id q \<notin> set (ids (sc_live s))" "distinct (ids (sc_live s))"
    using assms q by (auto simp: sched_inv_def)
  have "card (set (ids (sc_live s))) = length (sc_live s)" using f(3) distinct_card [of "ids (sc_live s)"] by simp
  then have "slot_step (sc_slots s) (slot_view s) (ids qs, insert (st_id q) (set (ids (sc_live s))), sc_succeeded s + sc_failed s)"
    unfolding slot_view_eq q(1) using slot_start q(2) f(2) by simp
  moreover have "slot_view (admitNext s) = (ids qs, insert (st_id q) (set (ids (sc_live s))), sc_succeeded s + sc_failed s)"
    using q f by (simp add: slot_view_eq admitNext_def live_put_fresh launch_def AddCounter_def Let_def)
  ultimately show ?thesis by simp
qed

lemma rebalance_slots: "slot_view (snd (rebalanceLive single accepts terminal s)) = slot_view s"
proof -
  obtain l where l: "snd (rebalanceLive single accepts terminal s) = s\<lparr>sc_live := l\<rparr>" "ids l = ids (sc_live s)"
    using rebalance_ids by blast
  then show ?thesis using arg_cong [OF l(2), of set] by (simp add: slot_view_eq)
qed

lemma sched_step_slots:
  "sched_step s s' \<Longrightarrow> sched_inv s \<Longrightarrow> slot_view s' = slot_view s \<or> slot_step (sc_slots s) (slot_view s) (slot_view s')"
proof (induction rule: sched_step.induct)
  case (receive s st ok rs)
  then show ?case using handleComplete_slots by blast
next
  case (admit s)
  have v: "slot_view (s\<lparr>sc_phase := Rebalancing\<rparr>) = slot_view s" by (simp add: slot_view_eq)
  have "sched_inv (s\<lparr>sc_phase := Rebalancing\<rparr>)" using admit by (intro sched_inv_phase) auto
  from admitNext_slots [OF this] show ?case by (simp add: v)
next
  case (rebalance s single accepts terminal)
  show ?case by (simp add: rebalance_slots) (simp add: slot_view_eq)
next
  case (drain_done s st ok rs)
  have e: "s\<lparr>sc_compl := rs\<rparr> = s\<lparr>sc_compl := rs, sc_phase := DrainingDone\<rparr>" using drain_done(1) by simp
  show ?case by (subst e, subst (2) e) (use handleComplete_slots drain_done in blast)
next
  case (drain_cancelled s st ok rs)
  have e: "s\<lparr>sc_compl := rs\<rparr> = s\<lparr>sc_compl := rs, sc_phase := DrainingCancelled\<rparr>" using drain_cancelled(1) by simp
  show ?case by (subst e, subst (2) e) (use handleComplete_slots drain_cancelled in blast)
next
  case (see_cancel s)
  show ?case using slot_cancel by (simp add: slot_view_eq wind_down_def releaseIdle_def)
qed (simp_all add: slot_view_eq)

lemma daemon_step_slots:
  "daemon_step s s' \<Longrightarrow> sched_inv s \<Longrightarrow> slot_view s' = slot_view s \<or> slot_step (sc_slots s) (slot_view s) (slot_view s')"
proof (induction rule: daemon_step.induct)
  case (enqueue st s s')
  have f: "st_id st \<notin> set (ids (sc_queued s)) \<union> set (ids (sc_live s))" using enqueue(1) by (auto simp: used_ids_def)
  have "slot_view s' = (ids (sc_queued s) @ [st_id st], set (ids (sc_live s)), sc_succeeded s + sc_failed s)"
    using enqueue(2) by (auto simp: slot_view_eq Enqueue_def split: if_splits)
  then show ?case unfolding slot_view_eq [of s] using slot_submit [OF f] by simp
next
  case (rpc_admit s)
  have v: "slot_view (s\<lparr>sc_pendingAdmits := k\<rparr>) = slot_view s" for k by (simp add: slot_view_eq)
  have "sched_inv (s\<lparr>sc_pendingAdmits := sc_pendingAdmits s - 1\<rparr>)"
    using rpc_admit(2) by (simp add: sched_inv_def unreported_def counted_queued_def)
  from admitNext_slots [OF this] show ?case by (simp add: v)
qed (rule sched_step_slots)

text \<open>The bounds on the two lists, and what no step changes.\<close>

definition sched_bounds :: "nat \<Rightarrow> sched \<Rightarrow> bool" where
  "sched_bounds n s \<longleftrightarrow> sc_slots s = n \<and> length (sc_queued s) \<le> maxPendingTasks \<and> length (sc_stopped s) \<le> maxStoppedTasks"

lemma op_bounds:
  "sched_bounds n s \<Longrightarrow> sched_bounds n (admitNext s)"
  "sched_bounds n s \<Longrightarrow> sched_bounds n (handleComplete st ok s)"
  "sched_bounds n s \<Longrightarrow> sched_bounds n (snd (rebalanceLive single accepts terminal s))"
  "sched_bounds n s \<Longrightarrow> sched_bounds n (wind_down s)"
  by (auto simp: sched_bounds_def admitNext_def launch_def AddCounter_def handleComplete_def wind_down_def releaseIdle_def
    rebalanceLive_def Let_def split: list.splits)

lemma sched_step_bounds: "sched_step s s' \<Longrightarrow> sched_bounds n s \<Longrightarrow> sched_bounds n s'"
  by (induction rule: sched_step.induct) (intro op_bounds, simp add: sched_bounds_def | simp add: sched_bounds_def)+

lemma daemon_step_bounds: "daemon_step s s' \<Longrightarrow> sched_bounds n s \<Longrightarrow> sched_bounds n s'"
proof (induction rule: daemon_step.induct)
  case (enqueue st s s')
  then show ?case by (auto simp: Enqueue_def sched_bounds_def split: if_splits)
next
  case (rpc_admit s)
  then show ?case by (intro op_bounds) (simp add: sched_bounds_def)
qed (rule sched_step_bounds)

lemma daemon_reach_bounds: "daemon_step\<^sup>*\<^sup>* (NewEmptyScheduler n) s \<Longrightarrow> sched_bounds n s"
proof (induction rule: rtranclp_induct)
  case base
  show ?case by (simp add: sched_bounds_def NewEmptyScheduler_def NewScheduler_def)
qed (rule daemon_step_bounds)

subsection \<open>Properties\<close>

text \<open>C6: In every state the RPC daemon's scheduler can reach, with enqueues, admissions, reports and completions in any
  order: at most \<open>n\<close> tasks are live, the waiting line holds at most 128 and the stopped list at most 1000, no task is in
  two places, the wait group counts exactly the idle hold, the launched goroutines and the counted waiting tasks, every live
  task is one whose goroutine has still to report or whose report waits in the channel, and succeeded + failed + live are the
  tasks begun.\<close>

theorem scheduler_invariant:
  assumes "daemon_step\<^sup>*\<^sup>* (NewEmptyScheduler n) s"
  shows "length (sc_live s) \<le> n \<and> length (sc_queued s) \<le> maxPendingTasks \<and> length (sc_stopped s) \<le> maxStoppedTasks
    \<and> distinct (map st_id (sc_live s) @ map st_id (sc_queued s))
    \<and> sc_wg s = (if sc_isIdle s then 1 else 0) + int (length (sc_gor s)) + int (length (filter st_counted (sc_queued s)))
    \<and> mset (map st_id (sc_live s)) = mset (unreported s) + mset (map (\<lambda>r. st_id (fst r)) (sc_compl s))
    \<and> sc_succeeded s + sc_failed s + int (length (sc_live s)) = sc_begun s"
proof -
  have "sched_inv s" "sched_bounds n s" using daemon_reach [OF assms] daemon_reach_bounds [OF assms] by (simp_all add: daemon_inv_def)
  then show ?thesis unfolding sched_inv_def sched_bounds_def counted_queued_def by blast
qed

theorem scheduler_invariant_witness: "sc_gor demo_cancelled \<noteq> [] \<and> length (sc_live demo_cancelled) \<le> 1"
  using scheduler_invariant [OF demo_reach_cancelled] by (simp add: demo_simps)

text \<open>C8: When \<open>Run\<close> returns in the daemon, its context was done, nothing waits and nothing is live, every report has been
  taken from the channel, every launched goroutine has reported, and the two counts it returns add up to all tasks begun.\<close>

theorem daemon_returns_complete:
  assumes "daemon_step\<^sup>*\<^sup>* (NewEmptyScheduler n) s" and "sc_phase s = Returned"
  shows "sc_ctxDone s \<and> sc_queued s = [] \<and> sc_live s = [] \<and> sc_compl s = [] \<and> (\<forall>g. g \<in> set (sc_gor s) \<longrightarrow> snd g = Reported)
    \<and> sc_succeeded s + sc_failed s = sc_begun s"
proof -
  have i: "sched_inv s" and w: "sc_windingDown s" using daemon_reach [OF assms(1)] assms(2) by (simp_all add: daemon_inv_def)
  then have l: "sc_live s = []" and c: "sc_ctxDone s \<and> sc_queued s = []" using assms(2) by (simp_all add: sched_inv_def)
  then have "unreported s = []" "sc_compl s = []" using i by (simp_all add: sched_inv_def)
  then show ?thesis using i l c by (auto simp: sched_inv_def unreported_def filter_empty_conv)
qed

theorem daemon_returns_complete_witness: "sc_ctxDone demo_returned \<and> sc_succeeded demo_returned + sc_failed demo_returned = 1"
proof -
  have "sc_phase demo_returned = Returned" by (simp add: demo_simps)
  from daemon_returns_complete [OF demo_reach_returned this] show ?thesis by (simp add: demo_simps)
qed

text \<open>C10: Once the daemon's loop drains a cancelled run it cannot hang: in each state it can reach there some step changes
  the state (so the blocking send of a report is never stuck), each such step lowers a measure, and \<open>Run\<close> can return.\<close>

theorem cancelled_run_returns:
  assumes "daemon_step\<^sup>*\<^sup>* (NewEmptyScheduler n) s" and "sc_phase s = DrainingCancelled"
  shows "(\<exists>s'. sched_step s s' \<and> s' \<noteq> s) \<and> (\<forall>s'. sched_step s s' \<and> s' \<noteq> s \<longrightarrow> cancel_work s' < cancel_work s)
    \<and> (\<exists>s'. sched_step\<^sup>*\<^sup>* s s' \<and> sc_phase s' = Returned)"
proof -
  have "sched_inv s" using daemon_reach [OF assms(1)] by (simp add: daemon_inv_def)
  then show ?thesis using cancel_progress cancel_step_decreases cancel_reaches_return assms(2) by blast
qed

theorem cancelled_run_returns_witness:
  "sc_live demo_cancelled \<noteq> [] \<and> (\<exists>s'. sched_step\<^sup>*\<^sup>* demo_cancelled s' \<and> sc_phase s' = Returned)"
proof -
  have "sc_phase demo_cancelled = DrainingCancelled" by (simp add: demo_simps)
  from cancelled_run_returns [OF demo_reach_cancelled this] show ?thesis by (simp add: demo_simps)
qed



text \<open>A one-shot run whose plan queues nothing returns only with every task finished: nothing is live, and the
  returned counts add up to the plan entries begun.\<close>

lemma batch_returns_complete:
  assumes "Queued p = []" and "distinct (made (zip (Parallel p) mp))"
    and "sched_step\<^sup>*\<^sup>* (run_setup p [] mp) s" and "sc_phase s = Returned"
  shows "sc_live s = [] \<and> sc_compl s = [] \<and> (\<forall>g. g \<in> set (sc_gor s) \<longrightarrow> snd g = Reported)
    \<and> sc_succeeded s + sc_failed s = sc_begun s"
proof -
  have "batch_inv (run_setup p [] mp)" using setup_inv [of p "[]" mp] assms(1,2) by (simp add: batch_inv_def)
  then have b: "batch_inv s" using batch_reach assms(3) by blast
  then have l: "sc_live s = []" and i: "sched_inv s" using assms(4) by (simp_all add: batch_inv_def)
  then have "unreported s = []" "sc_compl s = []" by (simp_all add: sched_inv_def)
  then show ?thesis using i l by (auto simp: sched_inv_def unreported_def filter_empty_conv)
qed

text \<open>A run of a single task to its end.\<close>

lemma one_task_returns:
  assumes "sc_gor s = [(st, Running)]" "sc_wg s = 1" "sc_compl s = []" "sc_phase s = Selecting" "sc_live s = [st]"
    "\<not> sc_windingDown s" "sc_stopped s = []"
  shows "\<exists>s1. sched_step\<^sup>*\<^sup>* s s1 \<and> sc_phase s1 = Returned \<and> sc_succeeded s1 = sc_succeeded s + 1 \<and> sc_failed s1 = sc_failed s
    \<and> \<not> sc_windingDown s1"
proof -
  define t0 where "t0 = s\<lparr>sc_gor := [(st, Reporting True)]\<rparr>"
  define t1 where "t1 = t0\<lparr>sc_compl := [(st, True)], sc_gor := [(st, Reported)]\<rparr>"
  define t2 where "t2 = t1\<lparr>sc_gor := [], sc_wg := 0\<rparr>"
  define t3 where "t3 = t2\<lparr>sc_doneClosed := True\<rparr>"
  define t4 where "t4 = t3\<lparr>sc_phase := DrainingDone\<rparr>"
  define t5 where "t5 = handleComplete st True (t4\<lparr>sc_compl := []\<rparr>)"
  note t = t4_def t3_def t2_def t1_def t0_def
  have "sched_step s t0" using task_ends [of 0 s st True] assms by (simp add: t0_def)
  moreover have "sched_step t0 t1" using report [of 0 t0 st True] assms by (simp add: t0_def t1_def)
  moreover have "sched_step t1 t2" using leave_group [of t1 "[]" st "[]"] assms by (simp add: t0_def t1_def t2_def)
  moreover have "sched_step t2 t3" using observe_zero [of t2] by (simp add: t2_def t3_def)
  ultimately have p: "sched_step\<^sup>*\<^sup>* s t3" by (intro path4 [OF rtranclp.rtrancl_refl])
  have "sched_step t3 t4" using see_done [of t3] assms by (simp add: t)
  moreover have "sched_step t4 t5" unfolding t5_def by (rule drain_done) (simp_all add: t)
  ultimately have "sched_step\<^sup>*\<^sup>* s t5" by (intro path2 [OF p])
  moreover have "sched_step t5 (t5\<lparr>sc_phase := Returned\<rparr>)" by (rule return_done) (simp_all add: t5_def t same_admin)
  ultimately have "sched_step\<^sup>*\<^sup>* s (t5\<lparr>sc_phase := Returned\<rparr>)" by (rule rtranclp.rtrancl_into_rtrancl)
  moreover have "sc_succeeded t5 = sc_succeeded s + 1" "sc_failed t5 = sc_failed s" "\<not> sc_windingDown t5"
    using assms by (simp_all add: t5_def t handleComplete_def Let_def)
  ultimately show ?thesis by (intro exI [of _ "t5\<lparr>sc_phase := Returned\<rparr>"]) simp
qed

text \<open>With a waiting line the one-shot run is not that safe. Two URLs on one slot: the goroutine of the first reports
  and leaves the wait group before the loop has taken the report, so the observer sees zero and closes \<open>doneCh\<close>. The loop
  may then return with the second URL never started and the context not done; or admit it, and return while it is running.\<close>

theorem run_may_drop_queued:
  "(\<exists>s. sched_step\<^sup>*\<^sup>* two_urls s \<and> sc_phase s = Returned \<and> \<not> sc_ctxDone s \<and> QueuedViews s = [''b''])
   \<and> (\<exists>s. sched_step\<^sup>*\<^sup>* two_urls s \<and> sc_phase s = Returned \<and> \<not> sc_ctxDone s \<and> LiveViews s = [''b''])"
proof
  note t = two_closed_def two_urls_state same_admin
  let ?a = "demo_task ''a''" and ?b = "demo_task ''b''"
  define u0 where "u0 = two_closed\<lparr>sc_phase := DrainingDone\<rparr>"
  define u1 where "u1 = handleComplete ?a True (u0\<lparr>sc_compl := []\<rparr>)"
  have "sched_step two_closed u0" using see_done [of two_closed] by (simp add: t u0_def)
  moreover have "sched_step u0 u1" unfolding u1_def by (rule drain_done) (simp_all add: t u0_def)
  ultimately have "sched_step\<^sup>*\<^sup>* two_urls u1" by (intro path2 [OF two_urls_closed])
  moreover have "sched_step u1 (u1\<lparr>sc_phase := Returned\<rparr>)" by (rule return_done) (simp_all add: u1_def u0_def t)
  ultimately have "sched_step\<^sup>*\<^sup>* two_urls (u1\<lparr>sc_phase := Returned\<rparr>)" by (rule rtranclp.rtrancl_into_rtrancl)
  moreover have "\<not> sc_ctxDone u1" "QueuedViews u1 = [''b'']"
    by (simp_all add: u1_def u0_def t QueuedViews_def handleComplete_def Let_def)
  ultimately show "\<exists>s. sched_step\<^sup>*\<^sup>* two_urls s \<and> sc_phase s = Returned \<and> \<not> sc_ctxDone s \<and> QueuedViews s = [''b'']"
    by (intro exI [of _ "u1\<lparr>sc_phase := Returned\<rparr>"]) (simp add: QueuedViews_def)
next
  note t = two_closed_def two_urls_state handleComplete_def maxStoppedTasks_def Let_def live_delete_def admitNext_def
    AddCounter_def launch_def live_put_def rebalanceLive_def
  let ?a = "demo_task ''a''" and ?b = "demo_task ''b''"
  define u0 where "u0 = handleComplete ?a True (two_closed\<lparr>sc_compl := [], sc_phase := Admitting\<rparr>)"
  define u1 where "u1 = admitNext (u0\<lparr>sc_phase := Rebalancing\<rparr>)"
  define u2 where "u2 = u1\<lparr>sc_phase := Selecting\<rparr>"
  define u3 where "u3 = u2\<lparr>sc_phase := DrainingDone\<rparr>"
  have "sched_step two_closed u0" unfolding u0_def by (rule receive) (simp_all add: two_closed_def two_urls_state)
  moreover have "sched_step u0 u1" unfolding u1_def by (rule admit) (simp add: u0_def t)
  moreover have "sched_step u1 u2"
    using rebalance [of u1 "\<lambda>i. False" "\<lambda>i. False" "\<lambda>i. False"] by (simp add: u2_def u1_def u0_def t)
  moreover have "sched_step u2 u3" using see_done [of u2] by (simp add: u3_def u2_def u1_def u0_def t)
  ultimately have "sched_step\<^sup>*\<^sup>* two_urls u3" by (intro path4 [OF two_urls_closed])
  moreover have "sched_step u3 (u3\<lparr>sc_phase := Returned\<rparr>)" by (rule return_done) (simp_all add: u3_def u2_def u1_def u0_def t)
  ultimately have "sched_step\<^sup>*\<^sup>* two_urls (u3\<lparr>sc_phase := Returned\<rparr>)" by (rule rtranclp.rtrancl_into_rtrancl)
  moreover have "\<not> sc_ctxDone u3" "LiveViews (u3\<lparr>sc_phase := Returned\<rparr>) = [''b'']"
    by (simp_all add: u3_def u2_def u1_def u0_def t LiveViews_def)
  ultimately show "\<exists>s. sched_step\<^sup>*\<^sup>* two_urls s \<and> sc_phase s = Returned \<and> \<not> sc_ctxDone s \<and> LiveViews s = [''b'']"
    by (intro exI [of _ "u3\<lparr>sc_phase := Returned\<rparr>"]) simp
qed

end
