(* ===== verification/Chunk_Queue.thy ===== *)
theory Chunk_Queue imports Go_Prelude begin

section \<open>The fixed-chunk work queue (internal/download/chunkqueue.go)\<close>

text \<open>
  The work list of the odm profile: the splitter \<open>NewChunkQueue\<close>, the operations \<open>Next\<close>,
  \<open>Requeue\<close>, \<open>MarkDone\<close>, \<open>ResetCompletedOffsets\<close>, \<open>CompletedSpans\<close>, \<open>CompletedOffsets\<close>
  and the byte count \<open>chunkBytes\<close>. The mutex makes every operation atomic, so an operation is a
  function on the queue record. The splitter adds on int64: it wraps, so its loop is a partial
  function, proved to return when the size and the chunk size together fit 63 bits.
\<close>

record chunk =
  Index :: int
  Start :: int
  End :: int

record chunk_queue =
  chunks :: "chunk list"
  completed :: "int set"
  failed :: "int \<Rightarrow> int"

definition defaultChunkSize :: int where
  "defaultChunkSize = 4 * 1024 * 1024"

definition chunk_end :: "int \<Rightarrow> int \<Rightarrow> int \<Rightarrow> int" where
  "chunk_end start chunkSize totalSize =
     (let e = w64 (w64 (start + chunkSize) - 1) in if e \<ge> totalSize then totalSize - 1 else e)"

partial_function (option) split_loop ::
  "int \<Rightarrow> int \<Rightarrow> int \<Rightarrow> int \<Rightarrow> chunk list \<Rightarrow> chunk list option" where
  "split_loop chunkSize totalSize idx start acc =
     (if start < totalSize
      then split_loop chunkSize totalSize (idx + 1) (w64 (chunk_end start chunkSize totalSize + 1))
             (acc @ [\<lparr>Index = idx, Start = start, End = chunk_end start chunkSize totalSize\<rparr>])
      else Some acc)"

declare split_loop.simps [code]

definition NewChunkQueue :: "int \<Rightarrow> int \<Rightarrow> chunk_queue option" where
  "NewChunkQueue totalSize chunkSize =
     (let q = \<lparr>chunks = [], completed = {}, failed = (\<lambda>_. 0)\<rparr>
      in if totalSize < 0 then Some (q\<lparr>chunks := [\<lparr>Index = 0, Start = 0, End = -1\<rparr>]\<rparr>)
         else
           let cs = (if chunkSize < 1 then defaultChunkSize else chunkSize)
           in if totalSize = 0 then Some q
              else map_option (\<lambda>l. q\<lparr>chunks := l\<rparr>) (split_loop cs totalSize 0 0 []))"

definition chunkBytes :: "chunk \<Rightarrow> int \<Rightarrow> int" where
  "chunkBytes c totalSize =
     (if End c < 0 \<or> totalSize < 0 then (if totalSize > 0 then totalSize else 0)
      else End c - Start c + 1)"

subsection \<open>The operations\<close>

fun reset_loop :: "int set \<Rightarrow> int \<Rightarrow> chunk list \<Rightarrow> chunk list \<times> int set \<times> int" where
  "reset_loop done totalSize [] = ([], {}, 0)"
| "reset_loop done totalSize (c # cs) =
     (case reset_loop done totalSize cs of
        (kept, dn, already) \<Rightarrow>
          if Start c \<in> done then (kept, insert (Start c) dn, chunkBytes c totalSize + already)
          else (c # kept, dn, already))"

definition ResetCompletedOffsets :: "int set \<Rightarrow> int \<Rightarrow> chunk_queue \<Rightarrow> (int \<times> bool) \<times> chunk_queue" where
  "ResetCompletedOffsets done totalSize q =
     (let q1 = q\<lparr>failed := (\<lambda>_. 0)\<rparr>
      in if card done > length (chunks q1) then ((0, False), q1)
         else case reset_loop done totalSize (chunks q1) of
           (kept, dn, already) \<Rightarrow> ((already, True), q1\<lparr>completed := dn, chunks := kept\<rparr>))"

definition Requeue :: "chunk \<Rightarrow> int \<Rightarrow> chunk_queue \<Rightarrow> bool \<times> chunk_queue" where
  "Requeue c maxWorkerAttempts q =
     (let q1 = q\<lparr>failed := (failed q)(Index c := failed q (Index c) + 1)\<rparr>
      in if failed q1 (Index c) > maxWorkerAttempts then (False, q1)
         else (True, q1\<lparr>chunks := chunks q1 @ [c]\<rparr>))"

definition Next :: "chunk_queue \<Rightarrow> chunk option \<times> chunk_queue" where
  "Next q = (case chunks q of [] \<Rightarrow> (None, q) | c # cs \<Rightarrow> (Some c, q\<lparr>chunks := cs\<rparr>))"

definition MarkDone :: "chunk \<Rightarrow> chunk_queue \<Rightarrow> chunk_queue" where
  "MarkDone c q =
     (if Start c \<notin> completed q then q\<lparr>completed := insert (Start c) (completed q)\<rparr> else q)"

definition CompletedOffsets :: "chunk_queue \<Rightarrow> int list" where
  "CompletedOffsets q = sorted_list_of_set (completed q)"

definition span_at :: "int \<Rightarrow> int \<Rightarrow> int \<Rightarrow> chunk" where
  "span_at chunkSize totalSize off =
     \<lparr>Index = 0, Start = off, End = chunk_end off chunkSize totalSize\<rparr>"

definition CompletedSpans :: "int \<Rightarrow> int \<Rightarrow> int \<Rightarrow> chunk_queue \<Rightarrow> chunk list" where
  "CompletedSpans chunkSize totalSize n0 q =
     (let starts = sorted_list_of_set (completed q);
          n = (if n0 \<le> 0 \<or> int (length starts) \<le> n0 then int (length starts) else n0);
          first = (n + 1) sdiv 2;
          lst = n - first;
          sample = take (nat first) starts @
                   (if lst > 0 then drop (length starts - nat lst) starts else [])
      in map (span_at chunkSize totalSize) sample)"

subsection \<open>The splitter tiles the file\<close>

fun tiles :: "chunk list \<Rightarrow> int \<Rightarrow> int \<Rightarrow> bool" where
  "tiles [] s t = (s = t)"
| "tiles (c # cs) s t = (Start c = s \<and> s \<le> End c \<and> End c < t \<and> tiles cs (End c + 1) t)"

definition chunk_len :: "chunk \<Rightarrow> int" where
  "chunk_len c = End c - Start c + 1"

text \<open>The layout as a pure function: chunks of \<open>cs\<close> bytes from \<open>start\<close>, the last one clipped.\<close>

function layout :: "int \<Rightarrow> int \<Rightarrow> int \<Rightarrow> int \<Rightarrow> chunk list" where
  "layout cs sz idx start =
     (if 0 < cs \<and> start < sz
      then \<lparr>Index = idx, Start = start, End = min (start + cs) sz - 1\<rparr>
             # layout cs sz (idx + 1) (start + cs)
      else [])"
  by pat_completeness auto
termination by (relation "measure (\<lambda>(cs, sz, idx, start). nat (sz - start))") auto

declare layout.simps [simp del]

lemma layout_ge: "sz \<le> start \<Longrightarrow> layout cs sz idx start = []"
  by (simp add: layout.simps)

lemma layout_clip: "0 < cs \<Longrightarrow> sz \<le> start + cs \<Longrightarrow> start < sz \<Longrightarrow>
    layout cs sz idx start = [\<lparr>Index = idx, Start = start, End = sz - 1\<rparr>]"
  by (subst layout.simps) (simp add: layout_ge)

lemma chunk_end_min:
  "0 \<le> start \<Longrightarrow> start < sz \<Longrightarrow> 0 < cs \<Longrightarrow> sz + cs \<le> 2 ^ 63 \<Longrightarrow>
   chunk_end start cs sz = min (start + cs) sz - 1"
  by (simp add: chunk_end_def Let_def)

lemma split_loop_layout:
  "0 < cs \<Longrightarrow> sz + cs \<le> 2 ^ 63 \<Longrightarrow> 0 \<le> start \<Longrightarrow>
   split_loop cs sz idx start acc = Some (acc @ layout cs sz idx start)"
proof (induction "nat (sz - start)" arbitrary: idx start acc rule: less_induct)
  case less
  show ?case
  proof (cases "start < sz")
    case True
    let ?e = "chunk_end start cs sz"
    have e: "?e = min (start + cs) sz - 1" using less.prems True by (intro chunk_end_min)
    have w: "w64 (?e + 1) = min (start + cs) sz" using e less.prems True by simp
    have "split_loop cs sz (idx + 1) (min (start + cs) sz) (acc @ [\<lparr>Index = idx, Start = start, End = ?e\<rparr>])
        = Some ((acc @ [\<lparr>Index = idx, Start = start, End = ?e\<rparr>]) @
            layout cs sz (idx + 1) (min (start + cs) sz))"
      using less.prems True by (intro less.hyps) auto
    also have "layout cs sz (idx + 1) (min (start + cs) sz) = layout cs sz (idx + 1) (start + cs)"
      by (simp add: min_def layout_ge)
    finally show ?thesis
      using True less.prems by (subst split_loop.simps) (simp add: w e layout.simps [of cs sz idx start])
  next
    case False
    then show ?thesis by (subst split_loop.simps) (simp add: layout_ge)
  qed
qed

lemma layout_tiles: "0 < cs \<Longrightarrow> start \<le> sz \<Longrightarrow> tiles (layout cs sz idx start) start sz"
proof (induction cs sz idx start rule: layout.induct)
  case (1 cs sz idx start)
  show ?case
  proof (cases "start + cs < sz")
    case True
    then show ?thesis using 1 by (subst layout.simps) auto
  next
    case False
    then show ?thesis using "1.prems" by (cases "start = sz") (auto simp: layout_clip layout_ge)
  qed
qed

lemma layout_Index: "map Index (layout cs sz idx start) = map (\<lambda>i. idx + int i) [0..<length (layout cs sz idx start)]"
proof (induction cs sz idx start rule: layout.induct)
  case (1 cs sz idx start)
  show ?case
  proof (cases "0 < cs \<and> start < sz")
    case True
    then have "layout cs sz idx start = \<lparr>Index = idx, Start = start, End = min (start + cs) sz - 1\<rparr>
             # layout cs sz (idx + 1) (start + cs)" by (subst layout.simps) simp
    then show ?thesis using 1 True by (simp add: upt_conv_Cons map_Suc_upt [symmetric] comp_def del: upt_Suc)
  next
    case False
    then show ?thesis by (subst (1 2) layout.simps) simp
  qed
qed

lemma layout_len: "0 < cs \<Longrightarrow> c \<in> set (layout cs sz idx start) \<Longrightarrow>
    1 \<le> chunk_len c \<and> chunk_len c \<le> cs \<and> (End c < sz - 1 \<longrightarrow> chunk_len c = cs)"
proof (induction cs sz idx start rule: layout.induct)
  case (1 cs sz idx start)
  then show ?case
    by (subst (asm) (2) layout.simps) (auto simp: chunk_len_def split: if_splits)
qed

subsection \<open>Tilings\<close>

lemma tiles_sum: "tiles cs s t \<Longrightarrow> sum_list (map chunk_len cs) = t - s"
  by (induction cs s t rule: tiles.induct) (auto simp: chunk_len_def)

lemma tiles_bounds: "tiles cs s t \<Longrightarrow> c \<in> set cs \<Longrightarrow> s \<le> Start c \<and> Start c \<le> End c \<and> End c < t"
  by (induction cs s t rule: tiles.induct) force+

lemma tiles_le: "tiles cs s t \<Longrightarrow> s \<le> t"
  by (induction cs s t rule: tiles.induct) auto

lemma tiles_distinct: "tiles cs s t \<Longrightarrow> distinct (map Start cs)"
proof (induction cs s t rule: tiles.induct)
  case (2 c cs s t)
  then show ?case using tiles_bounds [of cs "End c + 1" t] by force
qed simp

text \<open>The byte at an offset lies in exactly one chunk of a tiling.\<close>

lemma tiles_cover: "tiles cs s t \<Longrightarrow> s \<le> x \<Longrightarrow> x < t \<Longrightarrow> \<exists>!c. c \<in> set cs \<and> Start c \<le> x \<and> x \<le> End c"
proof (induction cs s t rule: tiles.induct)
  case (2 c cs s t)
  show ?case
  proof (cases "x \<le> End c")
    case True
    show ?thesis
    proof (rule ex1I [of _ c])
      fix d assume "d \<in> set (c # cs) \<and> Start d \<le> x \<and> x \<le> End d"
      then show "d = c" using True tiles_bounds [of cs "End c + 1" t d] "2.prems" by auto
    qed (use True "2.prems" in auto)
  next
    case False
    with 2 have "\<exists>!d. d \<in> set cs \<and> Start d \<le> x \<and> x \<le> End d" by simp
    then obtain d where d: "d \<in> set cs \<and> Start d \<le> x \<and> x \<le> End d"
      and u: "\<And>e. e \<in> set cs \<and> Start e \<le> x \<and> x \<le> End e \<Longrightarrow> e = d" by (elim ex1E) blast
    show ?thesis
    proof (rule ex1I [of _ d])
      fix e assume "e \<in> set (c # cs) \<and> Start e \<le> x \<and> x \<le> End e"
      then show "e = d" using u [of e] False by auto
    qed (use d in auto)
  qed
qed simp

lemma NewChunkQueue_layout:
  "0 < sz \<Longrightarrow> sz + (if cs < 1 then defaultChunkSize else cs) \<le> 2 ^ 63 \<Longrightarrow>
   NewChunkQueue sz cs =
     Some \<lparr>chunks = layout (if cs < 1 then defaultChunkSize else cs) sz 0 0, completed = {}, failed = (\<lambda>_. 0)\<rparr>"
  by (auto simp: NewChunkQueue_def Let_def split_loop_layout defaultChunkSize_def)

subsection \<open>Resume accounting\<close>

lemma reset_loop_facts:
  "reset_loop D sz cs = (kept, dn, already) \<Longrightarrow>
   kept = filter (\<lambda>c. Start c \<notin> D) cs \<and> dn = D \<inter> Start ` set cs \<and>
   already = sum_list (map (\<lambda>c. chunkBytes c sz) (filter (\<lambda>c. Start c \<in> D) cs))"
  by (induction D sz cs arbitrary: kept dn already rule: reset_loop.induct)
     (auto split: prod.splits if_splits)

lemma sum_list_filter_split:
  "sum_list (map f (filter P xs)) + sum_list (map f (filter (\<lambda>x. \<not> P x) xs)) = (sum_list (map f xs) :: int)"
  by (induction xs) auto

lemma tiles_chunkBytes: "tiles cs s t \<Longrightarrow> 0 \<le> s \<Longrightarrow> 0 \<le> t \<Longrightarrow> c \<in> set cs \<Longrightarrow> chunkBytes c t = chunk_len c"
  using tiles_bounds [of cs s t c] by (auto simp: chunkBytes_def chunk_len_def)

lemma reset_conserves:
  assumes "tiles (chunks q) 0 sz" "0 \<le> sz"
    and "ResetCompletedOffsets D sz q = ((already, True), q')"
  shows "already + sum_list (map chunk_len (chunks q')) = sz"
    and "chunks q' = filter (\<lambda>c. Start c \<notin> D) (chunks q)"
    and "completed q' = D \<inter> Start ` set (chunks q)"
    and "failed q' = (\<lambda>_. 0)"
proof -
  obtain kept dn al where r: "reset_loop D sz (chunks q) = (kept, dn, al)" by (metis prod_cases3)
  note f = reset_loop_facts [OF r]
  show q: "chunks q' = filter (\<lambda>c. Start c \<notin> D) (chunks q)"
    and "completed q' = D \<inter> Start ` set (chunks q)" and "failed q' = (\<lambda>_. 0)"
    using assms(3) r f by (auto simp: ResetCompletedOffsets_def Let_def split: if_splits)
  have "already = sum_list (map (\<lambda>c. chunkBytes c sz) (filter (\<lambda>c. Start c \<in> D) (chunks q)))"
    using assms(3) r f by (auto simp: ResetCompletedOffsets_def Let_def split: if_splits)
  also have "\<dots> = sum_list (map chunk_len (filter (\<lambda>c. Start c \<in> D) (chunks q)))"
    using tiles_chunkBytes [OF assms(1) _ assms(2)] by (intro arg_cong [of _ _ sum_list] map_cong) auto
  finally show "already + sum_list (map chunk_len (chunks q')) = sz"
    using sum_list_filter_split [of chunk_len "\<lambda>c. Start c \<in> D" "chunks q"] tiles_sum [OF assms(1)] q by simp
qed

subsection \<open>The resume sample\<close>

lemma sample_sorted_distinct:
  assumes "sorted xs" "distinct xs" "a \<le> k"
  shows "sorted (take a xs @ drop k xs)" "distinct (take a xs @ drop k xs)"
proof -
  have "xs = take a xs @ take (k - a) (drop a xs) @ drop k xs"
    using assms(3) by (metis append_take_drop_id drop_drop le_add_diff_inverse2)
  with assms(1,2) show "sorted (take a xs @ drop k xs)" "distinct (take a xs @ drop k xs)"
    by (metis Un_iff set_append sorted_append, metis distinct_append Int_Un_distrib Un_empty set_append)
qed

lemma sorted_le_last: "sorted xs \<Longrightarrow> \<forall>x \<in> set xs. x \<le> last xs"
proof (induction xs)
  case (Cons x xs)
  then show ?case by (cases xs) auto
qed simp

lemma CompletedSpans_Start:
  assumes "2 \<le> n"
  defines "xs \<equiv> \<lambda>q. sorted_list_of_set (completed q)"
  shows "\<exists>a k. map Start (CompletedSpans cs sz n q) = take a (xs q) @ drop k (xs q) \<and> a \<le> k \<and> k \<le> length (xs q) \<and>
     int (a + (length (xs q) - k)) = min n (int (length (xs q))) \<and>
     (xs q \<noteq> [] \<longrightarrow> 0 < a \<and> (k < length (xs q) \<or> a = length (xs q)))"
proof -
  define m where "m = length (xs q)"
  define n' where "n' = min n (int m)"
  define h where "h = (n' + 1) sdiv 2"
  define a where "a = nat h"
  define k where "k = m - nat (n' - h)"
  have n': "0 \<le> n'" "n' \<le> int m" using assms by (simp_all add: n'_def)
  then have "h = (n' + 1) div 2" by (simp add: h_def sdiv_nonneg)
  then have h: "0 \<le> h" "h \<le> n'" "n' \<le> 2 * h" "2 * h \<le> n' + 1" using n' by simp_all
  have ifn: "(if n \<le> 0 \<or> int m \<le> n then int m else n) = n'" using assms(1) by (auto simp: n'_def)
  have xq: "sorted_list_of_set (completed q) = xs q" by (simp add: xs_def)
  have st: "map Start (map (span_at cs sz) ys) = ys" for ys by (simp add: span_at_def comp_def)
  have "map Start (CompletedSpans cs sz n q) = take a (xs q) @ (if n' - h > 0 then drop k (xs q) else [])"
    unfolding CompletedSpans_def Let_def xq m_def [symmetric] ifn st h_def [symmetric]
      a_def k_def ..
  also have "(if n' - h > 0 then drop k (xs q) else []) = drop k (xs q)"
    by (auto simp: k_def m_def)
  finally have eq: "map Start (CompletedSpans cs sz n q) = take a (xs q) @ drop k (xs q)" .
  have "a \<le> k" "k \<le> m" "int (a + (m - k)) = n'" using h n' unfolding a_def k_def by linarith+
  moreover have "0 < a \<and> (k < m \<or> a = m)" if "0 < m"
  proof -
    have "1 \<le> n'" "n' = 1 \<longrightarrow> m = 1" using that assms(1) by (auto simp: n'_def)
    then show ?thesis using h n' that unfolding a_def k_def by linarith
  qed
  ultimately have "a \<le> k \<and> k \<le> m \<and> int (a + (m - k)) = min n (int m) \<and> (0 < m \<longrightarrow> 0 < a \<and> (k < m \<or> a = m))"
    unfolding n'_def by blast
  then show ?thesis using eq unfolding m_def by (intro exI [of _ a] exI [of _ k]) auto
qed

subsection \<open>Properties\<close>

text \<open>C7: the splitter returns for every size and chunk size that together fit int64, and its
  chunks tile the file: contiguous from 0 to the size with no gap or overlap, numbered 0, 1, 2 in
  order, none longer than the chunk size and only the last one shorter.\<close>

lemma NewChunkQueue_tiles:
  "0 < sz \<Longrightarrow> 1 \<le> cs \<Longrightarrow> sz + cs \<le> 2 ^ 63 \<Longrightarrow>
   \<exists>q. NewChunkQueue sz cs = Some q \<and> tiles (chunks q) 0 sz \<and>
     map Index (chunks q) = map int [0..<length (chunks q)] \<and>
     (\<forall>c \<in> set (chunks q). 1 \<le> chunk_len c \<and> chunk_len c \<le> cs \<and> (End c < sz - 1 \<longrightarrow> chunk_len c = cs)) \<and>
     completed q = {} \<and> failed q = (\<lambda>_. 0)"
proof -
  assume a: "0 < sz" "1 \<le> cs" "sz + cs \<le> 2 ^ 63"
  have "\<forall>c \<in> set (layout cs sz 0 0). 1 \<le> chunk_len c \<and> chunk_len c \<le> cs \<and> (End c < sz - 1 \<longrightarrow> chunk_len c = cs)"
    using layout_len [of cs] a by (intro ballI) simp
  then show ?thesis using a layout_Index [of cs sz 0 0] by (simp add: NewChunkQueue_layout layout_tiles)
qed

lemma NewChunkQueue_tiles_witness:
  "\<exists>q. NewChunkQueue 10 4 = Some q \<and> tiles (chunks q) 0 10"
  using NewChunkQueue_tiles [of 10 4] by auto

text \<open>a resume accounts for every byte once: on a queue that tiles the file, the bytes
  reported as already done plus the bytes of the chunks still queued are the size, and the chunks
  still queued are exactly those whose offset is not in the control file.\<close>

lemma ResetCompletedOffsets_accounts:
  "NewChunkQueue sz cs = Some q \<Longrightarrow> 0 < sz \<Longrightarrow> 1 \<le> cs \<Longrightarrow> sz + cs \<le> 2 ^ 63 \<Longrightarrow>
   ResetCompletedOffsets D sz q = ((already, True), q') \<Longrightarrow>
   already + sum_list (map chunk_len (chunks q')) = sz \<and>
   chunks q' = filter (\<lambda>c. Start c \<notin> D) (chunks q) \<and> completed q' = D \<inter> Start ` set (chunks q)"
  using reset_conserves [of q sz D already q'] by (auto simp: NewChunkQueue_layout layout_tiles)

lemma ResetCompletedOffsets_accounts_witness:
  "4 + sum_list (map chunk_len [\<lparr>Index = 0, Start = 0, End = 3\<rparr>, \<lparr>Index = 2, Start = 8, End = 9\<rparr>]) = 10"
proof -
  let ?q = "\<lparr>chunks = [\<lparr>Index = 0, Start = 0, End = 3\<rparr>, \<lparr>Index = 1, Start = 4, End = 7\<rparr>,
     \<lparr>Index = 2, Start = 8, End = 9\<rparr>], completed = {}, failed = \<lambda>_. 0\<rparr>"
  have "NewChunkQueue 10 4 = Some ?q"
    by (simp add: NewChunkQueue_layout layout.simps [of 4])
  moreover have "ResetCompletedOffsets {4} 10 ?q =
      ((4, True), ?q\<lparr>chunks := [\<lparr>Index = 0, Start = 0, End = 3\<rparr>, \<lparr>Index = 2, Start = 8, End = 9\<rparr>], completed := {4}\<rparr>)"
    by (simp add: ResetCompletedOffsets_def chunkBytes_def)
  ultimately show ?thesis using ResetCompletedOffsets_accounts [of 10 4 ?q "{4}" 4] by simp
qed

text \<open>the resume sample is made of at most n distinct completed chunks in ascending order, and
  it holds both the first and the last completed chunk when n is at least 2.\<close>

lemma CompletedSpans_sample:
  "finite (completed q) \<Longrightarrow> completed q \<noteq> {} \<Longrightarrow> 2 \<le> n \<Longrightarrow>
   int (length (CompletedSpans cs sz n q)) = min n (int (card (completed q))) \<and>
   sorted (map Start (CompletedSpans cs sz n q)) \<and> distinct (map Start (CompletedSpans cs sz n q)) \<and>
   set (map Start (CompletedSpans cs sz n q)) \<subseteq> completed q \<and>
   Min (completed q) \<in> set (map Start (CompletedSpans cs sz n q)) \<and>
   Max (completed q) \<in> set (map Start (CompletedSpans cs sz n q))"
proof -
  assume f: "finite (completed q)" and ne: "completed q \<noteq> {}" and n: "2 \<le> n"
  let ?xs = "sorted_list_of_set (completed q)"
  obtain a k where e: "map Start (CompletedSpans cs sz n q) = take a ?xs @ drop k ?xs"
    and ak: "a \<le> k" "k \<le> length ?xs" "int (a + (length ?xs - k)) = min n (int (length ?xs))"
      "?xs \<noteq> [] \<longrightarrow> 0 < a \<and> (k < length ?xs \<or> a = length ?xs)"
    using CompletedSpans_Start [OF n] by blast
  have xs: "?xs \<noteq> []" "set ?xs = completed q" "sorted ?xs" "distinct ?xs" "length ?xs = card (completed q)"
    using f ne by auto
  have len: "length (CompletedSpans cs sz n q) = a + (length ?xs - k)"
    using arg_cong [OF e, of length] ak by simp
  have mn: "Min (completed q) = hd ?xs" using f ne by (simp add: sorted_list_of_set_nonempty)
  have "\<forall>x \<in> set ?xs. x \<le> last ?xs" by (rule sorted_le_last [OF xs(3)])
  then have mx: "Max (completed q) = last ?xs" using xs(1,2) f last_in_set [OF xs(1)] by (intro Max_eqI) auto
  have "hd ?xs \<in> set (take a ?xs)" using xs(1) ak(4) by (cases ?xs; cases a) auto
  moreover have "last ?xs \<in> set (take a ?xs @ drop k ?xs)"
  proof (cases "k < length ?xs")
    case True
    then show ?thesis using last_in_set [of "drop k ?xs"] by simp
  next
    case False
    then show ?thesis using xs(1) ak(4) last_in_set [OF xs(1)] by simp
  qed
  ultimately show ?thesis
    unfolding e mn mx using sample_sorted_distinct [OF xs(3,4) ak(1)] len ak(3) xs(2,5)
    by (auto dest: in_set_takeD in_set_dropD)
qed

lemma CompletedSpans_sample_witness:
  "card (completed \<lparr>chunks = [], completed = {0, 4, 8, 12, 16}, failed = (\<lambda>_. 0)\<rparr>) = 5 \<and>
   int (length (CompletedSpans 4 20 4 \<lparr>chunks = [], completed = {0, 4, 8, 12, 16}, failed = (\<lambda>_. 0)\<rparr>)) = 4"
  using CompletedSpans_sample [of "\<lparr>chunks = [], completed = {0, 4, 8, 12, 16}, failed = (\<lambda>_. 0)\<rparr>" 4 4 20]
  by simp

end
