(* ===== verification/Static_Queue.thy ===== *)
theory Static_Queue imports Chunk_Queue begin

section \<open>The static split (internal/download/engine.go, AriaSplit and StaticQueue)\<close>

text \<open>
  The aria2c profile: the split arithmetic \<open>AriaSplit\<close> and the queue \<open>StaticQueue\<close>, a fixed
  list of segments each handed out at most once. Go's receiver methods share their names with
  those of \<open>ChunkQueue\<close>; here they carry the prefix \<open>static\<close>.
\<close>

definition AriaSplit :: "int \<Rightarrow> int \<Rightarrow> int \<Rightarrow> int \<times> int" where
  "AriaSplit totalSize split0 minSplit0 =
     (if totalSize \<le> 0 \<or> split0 < 1 then (1, totalSize)
      else
        let minSplit = (if minSplit0 < 1 then 1 else minSplit0);
            maxN = totalSize sdiv w64 (2 * minSplit);
            n = (if maxN < split0 \<and> maxN \<ge> 1 then maxN else split0)
        in (n, w64 (w64 (totalSize + n) - 1) sdiv n))"

record static_queue =
  sq_chunks :: "chunk list"
  sq_next :: nat
  sq_done :: "int set"

text \<open>The splitting loop of \<open>NewStaticQueue\<close> is the one of \<open>NewChunkQueue\<close>: the index it
  stores is the number of segments so far.\<close>

definition NewStaticQueue :: "int \<Rightarrow> int \<Rightarrow> static_queue option" where
  "NewStaticQueue totalSize n0 =
     (let n = (if n0 < 1 then 1 else n0);
          q = \<lparr>sq_chunks = [], sq_next = 0, sq_done = {}\<rparr>
      in if totalSize \<le> 0 then Some q
         else
           let seg = w64 (w64 (totalSize + n) - 1) sdiv n
           in map_option (\<lambda>l. q\<lparr>sq_chunks := l\<rparr>) (split_loop seg totalSize 0 0 []))"

fun static_next_loop :: "int set \<Rightarrow> chunk list \<Rightarrow> nat \<Rightarrow> chunk option \<times> nat" where
  "static_next_loop done [] i = (None, i)"
| "static_next_loop done (c # cs) i =
     (if Start c \<notin> done then (Some c, Suc i) else static_next_loop done cs (Suc i))"

definition static_Next :: "static_queue \<Rightarrow> chunk option \<times> static_queue" where
  "static_Next q =
     (case static_next_loop (sq_done q) (drop (sq_next q) (sq_chunks q)) (sq_next q) of
        (r, i) \<Rightarrow> (r, q\<lparr>sq_next := i\<rparr>))"

definition static_Requeue :: "chunk \<Rightarrow> int \<Rightarrow> static_queue \<Rightarrow> bool \<times> static_queue" where
  "static_Requeue c maxWorkerAttempts q = (False, q)"

definition static_MarkDone :: "chunk \<Rightarrow> static_queue \<Rightarrow> static_queue" where
  "static_MarkDone c q = q\<lparr>sq_done := insert (Start c) (sq_done q)\<rparr>"

definition static_CompletedOffsets :: "static_queue \<Rightarrow> int list" where
  "static_CompletedOffsets q = sorted_list_of_set (sq_done q)"

definition static_CompletedSpans :: "int \<Rightarrow> int \<Rightarrow> int \<Rightarrow> static_queue \<Rightarrow> chunk list" where
  "static_CompletedSpans chunkSize totalSize n0 q =
     (let starts = sorted_list_of_set (sq_done q);
          n = (if n0 \<le> 0 \<or> int (length starts) \<le> n0 then int (length starts) else n0)
      in map (span_at chunkSize totalSize) (take (nat n) starts))"

definition skip_done :: "int set \<Rightarrow> chunk list \<Rightarrow> nat" where
  "skip_done done cs = length (takeWhile (\<lambda>c. Start c \<in> done) cs)"

definition static_ResetCompletedOffsets ::
  "int set \<Rightarrow> int \<Rightarrow> static_queue \<Rightarrow> (int \<times> bool) \<times> static_queue" where
  "static_ResetCompletedOffsets done totalSize q =
     (let hit = filter (\<lambda>c. Start c \<in> done) (sq_chunks q);
          dn = sq_done q \<union> Start ` set hit;
          already = sum_list (map (\<lambda>c. End c - Start c + 1) hit)
      in ((already, True), q\<lparr>sq_done := dn, sq_next := skip_done dn (sq_chunks q)\<rparr>))"

subsection \<open>The split arithmetic\<close>

lemma ceil_div_bounds:
  assumes "0 < (a::int)" "1 \<le> n"
  shows "1 \<le> (a + n - 1) div n" "a \<le> n * ((a + n - 1) div n)" "n * ((a + n - 1) div n) \<le> a + n - 1"
proof -
  let ?q = "(a + n - 1) div n"
  have e: "n * ?q + (a + n - 1) mod n = a + n - 1" by (simp add: mult.commute)
  have r: "0 \<le> (a + n - 1) mod n" "(a + n - 1) mod n < n" using assms by simp_all
  show "n * ?q \<le> a + n - 1" using e r by linarith
  show g: "a \<le> n * ?q" using e r by linarith
  have "0 < n * ?q" using g assms by linarith
  then show "1 \<le> ?q" using assms by (simp add: zero_less_mult_iff)
qed

lemma ceil_w64: "0 < a \<Longrightarrow> 1 \<le> n \<Longrightarrow> a + n \<le> 2 ^ 63 - 1 \<Longrightarrow>
   w64 (w64 (a + n) - 1) sdiv n = (a + n - 1) div n"
  by (simp add: sdiv_nonneg)

lemma seg_le: "0 < (a::int) \<Longrightarrow> 1 \<le> n \<Longrightarrow> (a + n - 1) div n \<le> a"
proof -
  assume a: "0 < a" "1 \<le> n"
  have "0 \<le> (a - 1) * (n - 1)" using a by simp
  then have "a + n - 1 \<le> a * n" by (simp add: algebra_simps)
  then have "(a + n - 1) div n \<le> (a * n) div n" using a by (intro zdiv_mono1) auto
  then show ?thesis using a by simp
qed

lemma NewStaticQueue_layout:
  assumes "0 < sz" "1 \<le> n" "2 * sz + n \<le> 2 ^ 63 - 1"
  shows "NewStaticQueue sz n =
    Some \<lparr>sq_chunks = layout ((sz + n - 1) div n) sz 0 0, sq_next = 0, sq_done = {}\<rparr>"
proof -
  have "0 < (sz + n - 1) div n" using ceil_div_bounds(1) [of sz n] assms by simp
  moreover have "sz + (sz + n - 1) div n \<le> 2 ^ 63" using seg_le [of sz n] assms by simp
  ultimately have "split_loop ((sz + n - 1) div n) sz 0 0 [] = Some (layout ((sz + n - 1) div n) sz 0 0)"
    using split_loop_layout [of "(sz + n - 1) div n" sz 0 0 "[]"] by simp
  moreover have "w64 (w64 (sz + n) - 1) sdiv n = (sz + n - 1) div n" using assms by (intro ceil_w64) auto
  moreover have "(if n < 1 then 1 else n) = n" "\<not> sz \<le> 0" using assms by auto
  ultimately show ?thesis by (simp only: NewStaticQueue_def Let_def option.map if_False) simp
qed

lemma layout_count: "0 < cs \<Longrightarrow> start \<le> sz \<Longrightarrow> sz - start \<le> int k * cs \<Longrightarrow> length (layout cs sz idx start) \<le> k"
proof (induction k arbitrary: idx start)
  case 0
  then show ?case by (simp add: layout_ge)
next
  case (Suc k)
  show ?case
  proof (cases "start + cs < sz")
    case True
    then show ?thesis using Suc.IH [of "start + cs" "idx + 1"] Suc.prems
      by (subst layout.simps) (simp add: algebra_simps)
  next
    case False
    then show ?thesis using Suc.prems by (cases "start = sz") (simp_all add: layout_clip layout_ge)
  qed
qed

lemma static_next_loop_facts:
  "static_next_loop D cs i = (r, j) \<Longrightarrow>
   (case r of None \<Rightarrow> filter (\<lambda>c. Start c \<notin> D) cs = [] \<and> j = i + length cs
    | Some c \<Rightarrow> i < j \<and> j \<le> i + length cs \<and>
        filter (\<lambda>c. Start c \<notin> D) cs = c # filter (\<lambda>c. Start c \<notin> D) (drop (j - i) cs))"
proof (induction D cs i rule: static_next_loop.induct)
  case (2 D c cs i)
  show ?case
  proof (cases "Start c \<in> D")
    case True
    with 2 have IH: "(case r of None \<Rightarrow> filter (\<lambda>c. Start c \<notin> D) cs = [] \<and> j = Suc i + length cs
      | Some c \<Rightarrow> Suc i < j \<and> j \<le> Suc i + length cs \<and>
          filter (\<lambda>c. Start c \<notin> D) cs = c # filter (\<lambda>c. Start c \<notin> D) (drop (j - Suc i) cs))" by simp
    show ?thesis
    proof (cases r)
      case None
      with IH True show ?thesis by simp
    next
      case (Some d)
      with IH have "drop (j - i) (c # cs) = drop (j - Suc i) cs" by (simp add: drop_Cons')
      with IH Some True show ?thesis by simp
    qed
  next
    case False
    with 2 have "r = Some c" "j = Suc i" by auto
    with False show ?thesis by simp
  qed
qed auto

lemma AriaSplit_eq:
  assumes "0 < sz" "1 \<le> split" "1 \<le> mn" "2 * mn \<le> 2 ^ 63 - 1" "sz + split \<le> 2 ^ 63 - 1"
  defines "n \<equiv> (if sz div (2 * mn) < split \<and> 1 \<le> sz div (2 * mn) then sz div (2 * mn) else split)"
  shows "AriaSplit sz split mn = (n, (sz + n - 1) div n)" "1 \<le> n" "n \<le> split"
proof -
  have s: "sz sdiv w64 (2 * mn) = sz div (2 * mn)" using assms by (simp add: sdiv_nonneg)
  show n: "1 \<le> n" "n \<le> split" using assms(2) unfolding n_def by auto
  have "w64 (w64 (sz + n) - 1) sdiv n = (sz + n - 1) div n" using assms(1,5) n by (intro ceil_w64) auto
  moreover have "\<not> (sz \<le> 0 \<or> split < 1)" "(if mn < 1 then 1 else mn) = mn" using assms by auto
  ultimately show "AriaSplit sz split mn = (n, (sz + n - 1) div n)"
    unfolding AriaSplit_def Let_def by (simp only: s if_False n_def)
qed

lemma NewStaticQueue_tiles':
  "0 < sz \<Longrightarrow> 1 \<le> n \<Longrightarrow> 2 * sz + n \<le> 2 ^ 63 - 1 \<Longrightarrow>
   \<exists>l. NewStaticQueue sz n = Some \<lparr>sq_chunks = l, sq_next = 0, sq_done = {}\<rparr> \<and> tiles l 0 sz"
  using NewStaticQueue_layout [of sz n] ceil_div_bounds(1) [of sz n] layout_tiles [of "(sz + n - 1) div n" 0 sz 0]
  by auto

subsection \<open>Properties\<close>

text \<open>a static split tiles the file with at most n segments, each at most ceil(size / n) bytes
  long (the last one may be shorter, and there may be fewer than n of them).\<close>

lemma NewStaticQueue_tiles:
  "0 < sz \<Longrightarrow> 1 \<le> n \<Longrightarrow> 2 * sz + n \<le> 2 ^ 63 - 1 \<Longrightarrow>
   \<exists>q. NewStaticQueue sz n = Some q \<and> tiles (sq_chunks q) 0 sz \<and> int (length (sq_chunks q)) \<le> n \<and>
     (\<forall>c \<in> set (sq_chunks q). chunk_len c \<le> (sz + n - 1) div n) \<and> sq_next q = 0 \<and> sq_done q = {}"
proof -
  assume a: "0 < sz" "1 \<le> n" "2 * sz + n \<le> 2 ^ 63 - 1"
  let ?seg = "(sz + n - 1) div n"
  have seg: "0 < ?seg" "sz \<le> n * ?seg" using ceil_div_bounds [of sz n] a by auto
  have "length (layout ?seg sz 0 0) \<le> nat n" using seg a by (intro layout_count) auto
  moreover have "\<forall>c \<in> set (layout ?seg sz 0 0). chunk_len c \<le> ?seg"
    using layout_len [OF seg(1)] by (intro ballI) blast
  ultimately show ?thesis using NewStaticQueue_layout [OF a] layout_tiles [OF seg(1), of 0 sz 0] a
    by simp
qed

lemma NewStaticQueue_tiles_witness: "\<exists>q. NewStaticQueue 9 6 = Some q \<and> tiles (sq_chunks q) 0 9"
  using NewStaticQueue_tiles [of 9 6] by auto

text \<open>when a file holds at least twice the minimum split size, \<open>AriaSplit\<close> cuts it into
  between 1 and \<open>split\<close> segments; a segment is at least twice the minimum long, and the segments
  together cover the file and exceed it by less than one byte each.\<close>

lemma AriaSplit_min_size:
  "1 \<le> mn \<Longrightarrow> 2 * mn \<le> sz \<Longrightarrow> 1 \<le> split \<Longrightarrow> sz + split \<le> 2 ^ 63 - 1 \<Longrightarrow> AriaSplit sz split mn = (n, seg) \<Longrightarrow>
   1 \<le> n \<and> n \<le> split \<and> 2 * mn \<le> seg \<and> sz \<le> n * seg \<and> n * seg < sz + n"
proof -
  assume a: "1 \<le> mn" "2 * mn \<le> sz" "1 \<le> split" "sz + split \<le> 2 ^ 63 - 1" "AriaSplit sz split mn = (n, seg)"
  have pos: "0 < sz" "2 * mn \<le> 2 ^ 63 - 1" using a by auto
  note e = AriaSplit_eq [OF pos(1) a(3) a(1) pos(2) a(4)]
  let ?m = "sz div (2 * mn)"
  have m: "1 \<le> ?m" using a(1,2) by (simp add: int_one_le_iff_zero_less pos_imp_zdiv_pos_iff)
  have n: "n = (if ?m < split \<and> 1 \<le> ?m then ?m else split)" "seg = (sz + n - 1) div n"
    using e(1) a(5) by auto
  have n1: "1 \<le> n" "n \<le> split" "n \<le> ?m" using m a(3) n(1) by auto
  note c = ceil_div_bounds [OF pos(1) n1(1), folded n(2)]
  have "?m * (2 * mn) + sz mod (2 * mn) = sz" by (rule div_mult_mod_eq)
  then have "?m * (2 * mn) \<le> sz" using pos_mod_sign [of "2 * mn" sz] a(1) by linarith
  moreover have "n * (2 * mn) \<le> ?m * (2 * mn)" using n1 a(1) by (intro mult_right_mono) auto
  ultimately have "n * (2 * mn) \<le> n * seg" using c(2) by linarith
  then have "2 * mn \<le> seg" using n1(1) by simp
  then show ?thesis using n1 c by auto
qed

lemma AriaSplit_min_size_witness: "AriaSplit 100 4 20 = (2, 50) \<and> 2 * 20 \<le> (50 :: int)"
proof -
  have e: "AriaSplit 100 4 20 = (2, 50)" by code_simp
  show ?thesis using AriaSplit_min_size [of 20 100 4 2 50] e by simp
qed

text \<open>below twice the minimum split size the guard is skipped: \<open>AriaSplit\<close> returns the full
  \<open>split\<close>, so the file that should not be split at all is cut into the most segments.\<close>

lemma AriaSplit_small_file:
  "0 < sz \<Longrightarrow> sz < 2 * mn \<Longrightarrow> 2 * mn \<le> 2 ^ 63 - 1 \<Longrightarrow> 1 \<le> split \<Longrightarrow> sz + split \<le> 2 ^ 63 - 1 \<Longrightarrow>
   AriaSplit sz split mn = (split, (sz + split - 1) div split)"
  using AriaSplit_eq(1) [of sz split mn] by simp

lemma AriaSplit_small_file_witness:
  "AriaSplit (20 * 1048576) 5 (15 * 1048576) = (5, 4 * 1048576)"
  using AriaSplit_small_file [of "20 * 1048576" "15 * 1048576" 5] by simp

end
