(* ===== verification/Work_Queue.thy ===== *)
theory Work_Queue imports Static_Queue begin

section \<open>The work-queue interface and the engine (internal/download/engine.go)\<close>

text \<open>
  The Go interface \<open>workQueue\<close> with its two implementations is the datatype \<open>workQueue\<close>, and a
  method call on it the dispatch on its constructor; \<open>Engine\<close> couples a queue with its client
  and its region base. The locale \<open>work_queue\<close> states what the worker loop relies on: \<open>pending\<close>
  is what \<open>Next\<close> will still hand out, in order, \<open>finished\<close> the offsets marked done. It is
  interpreted on both queues and on the dispatching interface.
\<close>

datatype workQueue = CQ chunk_queue | SQ static_queue

fun wq_Next :: "workQueue \<Rightarrow> chunk option \<times> workQueue" where
  "wq_Next (CQ q) = (case Next q of (r, q') \<Rightarrow> (r, CQ q'))"
| "wq_Next (SQ q) = (case static_Next q of (r, q') \<Rightarrow> (r, SQ q'))"

fun wq_Requeue :: "chunk \<Rightarrow> int \<Rightarrow> workQueue \<Rightarrow> bool \<times> workQueue" where
  "wq_Requeue c m (CQ q) = (case Requeue c m q of (r, q') \<Rightarrow> (r, CQ q'))"
| "wq_Requeue c m (SQ q) = (case static_Requeue c m q of (r, q') \<Rightarrow> (r, SQ q'))"

fun wq_MarkDone :: "chunk \<Rightarrow> workQueue \<Rightarrow> workQueue" where
  "wq_MarkDone c (CQ q) = CQ (MarkDone c q)"
| "wq_MarkDone c (SQ q) = SQ (static_MarkDone c q)"

fun wq_CompletedOffsets :: "workQueue \<Rightarrow> int list" where
  "wq_CompletedOffsets (CQ q) = CompletedOffsets q"
| "wq_CompletedOffsets (SQ q) = static_CompletedOffsets q"

fun wq_CompletedSpans :: "int \<Rightarrow> int \<Rightarrow> int \<Rightarrow> workQueue \<Rightarrow> chunk list" where
  "wq_CompletedSpans cs sz n (CQ q) = CompletedSpans cs sz n q"
| "wq_CompletedSpans cs sz n (SQ q) = static_CompletedSpans cs sz n q"

fun wq_ResetCompletedOffsets :: "int set \<Rightarrow> int \<Rightarrow> workQueue \<Rightarrow> (int \<times> bool) \<times> workQueue" where
  "wq_ResetCompletedOffsets D sz (CQ q) = (case ResetCompletedOffsets D sz q of (r, q') \<Rightarrow> (r, CQ q'))"
| "wq_ResetCompletedOffsets D sz (SQ q) = (case static_ResetCompletedOffsets D sz q of (r, q') \<Rightarrow> (r, SQ q'))"

text \<open>isStaticQueue of task.go.\<close>

fun isStaticQueue :: "workQueue \<Rightarrow> bool" where
  "isStaticQueue (CQ q) = False"
| "isStaticQueue (SQ q) = True"

datatype client_kind = H1Client | H2Client

record engine =
  eng_q :: workQueue
  eng_client :: client_kind
  eng_base :: int

definition AbsStart :: "engine \<Rightarrow> int \<Rightarrow> int" where
  "AbsStart e rel = eng_base e + rel"

subsection \<open>The interface\<close>

definition static_pending :: "static_queue \<Rightarrow> chunk list" where
  "static_pending q = filter (\<lambda>c. Start c \<notin> sq_done q) (drop (sq_next q) (sq_chunks q))"

fun wq_pending :: "workQueue \<Rightarrow> chunk list" where
  "wq_pending (CQ q) = chunks q"
| "wq_pending (SQ q) = static_pending q"

fun wq_finished :: "workQueue \<Rightarrow> int set" where
  "wq_finished (CQ q) = completed q"
| "wq_finished (SQ q) = sq_done q"

locale work_queue =
  fixes nxt :: "'q \<Rightarrow> chunk option \<times> 'q"
    and requeue :: "chunk \<Rightarrow> int \<Rightarrow> 'q \<Rightarrow> bool \<times> 'q"
    and mark :: "chunk \<Rightarrow> 'q \<Rightarrow> 'q"
    and pending :: "'q \<Rightarrow> chunk list"
    and finished :: "'q \<Rightarrow> int set"
  assumes next_None: "nxt q = (None, q') \<Longrightarrow> pending q = [] \<and> pending q' = [] \<and> finished q' = finished q"
    and next_Some: "nxt q = (Some c, q') \<Longrightarrow> pending q = c # pending q' \<and> finished q' = finished q"
    and requeue_True: "requeue c m q = (True, q') \<Longrightarrow> pending q' = pending q @ [c] \<and> finished q' = finished q"
    and requeue_False: "requeue c m q = (False, q') \<Longrightarrow> pending q' = pending q \<and> finished q' = finished q"
    and mark_finished: "finished (mark c q) = insert (Start c) (finished q)"
    and mark_pending: "Start c \<notin> Start ` set (pending q) \<Longrightarrow> pending (mark c q) = pending q"

text \<open>A queue that also reports its offsets, as the control file and the resume need it.\<close>

locale reporting_queue = work_queue +
  fixes offsets :: "'q \<Rightarrow> int list"
  assumes offsets_list: "offsets q = sorted_list_of_set (finished q)"
begin

lemma offsets_mark: "finite (finished q) \<Longrightarrow> offsets (mark c q) = List.insort (Start c) (remove1 (Start c) (offsets q))"
  by (simp add: offsets_list mark_finished sorted_list_of_set_insert_remove
      sorted_list_of_set_remove insort_remove1 flip: sorted_list_of_set_remove)

lemma offsets_sorted: "finite (finished q) \<Longrightarrow> sorted (offsets q) \<and> distinct (offsets q) \<and> set (offsets q) = finished q"
  by (simp add: offsets_list)

end

interpretation cq: reporting_queue Next Requeue MarkDone chunks completed CompletedOffsets
  by unfold_locales
    (auto simp: Next_def Requeue_def MarkDone_def CompletedOffsets_def Let_def split: list.splits if_splits)

lemma static_Next_pending:
  assumes "static_Next q = (r, q')"
  shows "sq_done q' = sq_done q"
    and "case r of None \<Rightarrow> static_pending q = [] \<and> static_pending q' = []
      | Some c \<Rightarrow> static_pending q = c # static_pending q'"
proof -
  obtain j where j: "static_next_loop (sq_done q) (drop (sq_next q) (sq_chunks q)) (sq_next q) = (r, j)"
    and q': "q' = q\<lparr>sq_next := j\<rparr>"
    using assms by (auto simp: static_Next_def split: prod.splits)
  show "sq_done q' = sq_done q" by (simp add: q')
  show "case r of None \<Rightarrow> static_pending q = [] \<and> static_pending q' = []
      | Some c \<Rightarrow> static_pending q = c # static_pending q'"
    using static_next_loop_facts [OF j] by (cases r) (auto simp: q' static_pending_def)
qed

interpretation sq: reporting_queue static_Next static_Requeue static_MarkDone
    static_pending sq_done static_CompletedOffsets
proof unfold_locales
  show "static_Next q = (None, q') \<Longrightarrow> static_pending q = [] \<and> static_pending q' = [] \<and> sq_done q' = sq_done q" for q q'
    using static_Next_pending [of q None q'] by simp
  show "static_Next q = (Some c, q') \<Longrightarrow> static_pending q = c # static_pending q' \<and> sq_done q' = sq_done q" for q c q'
    using static_Next_pending [of q "Some c" q'] by simp
  show "Start c \<notin> Start ` set (static_pending q) \<Longrightarrow> static_pending (static_MarkDone c q) = static_pending q" for c q
    by (auto simp: static_MarkDone_def static_pending_def image_iff intro!: filter_cong)
qed (simp_all add: static_Requeue_def static_MarkDone_def static_CompletedOffsets_def)

interpretation wq: reporting_queue wq_Next wq_Requeue wq_MarkDone wq_pending wq_finished wq_CompletedOffsets
proof unfold_locales
  fix q q' assume "wq_Next q = (None, q')"
  then show "wq_pending q = [] \<and> wq_pending q' = [] \<and> wq_finished q' = wq_finished q"
    by (cases q) (auto split: prod.splits dest: cq.next_None sq.next_None)
next
  fix q c q' assume "wq_Next q = (Some c, q')"
  then show "wq_pending q = c # wq_pending q' \<and> wq_finished q' = wq_finished q"
    by (cases q) (auto split: prod.splits dest: cq.next_Some sq.next_Some)
next
  fix c m q q' assume "wq_Requeue c m q = (True, q')"
  then show "wq_pending q' = wq_pending q @ [c] \<and> wq_finished q' = wq_finished q"
    by (cases q) (auto split: prod.splits dest: cq.requeue_True sq.requeue_True)
next
  fix c m q q' assume "wq_Requeue c m q = (False, q')"
  then show "wq_pending q' = wq_pending q \<and> wq_finished q' = wq_finished q"
    by (cases q) (auto split: prod.splits dest: cq.requeue_False sq.requeue_False)
next
  fix c q show "wq_finished (wq_MarkDone c q) = insert (Start c) (wq_finished q)"
    using cq.mark_finished sq.mark_finished by (cases q) auto
next
  fix c :: chunk and q assume "Start c \<notin> Start ` set (wq_pending q)"
  then show "wq_pending (wq_MarkDone c q) = wq_pending q"
    using cq.mark_pending sq.mark_pending by (cases q) auto
next
  fix q show "wq_CompletedOffsets q = sorted_list_of_set (wq_finished q)"
    using cq.offsets_list sq.offsets_list by (cases q) auto
qed

end
