(* ===== verification/Worker_Pool.thy ===== *)
theory Worker_Pool imports Work_Queue begin

section \<open>The workers of a task (internal/download/task_io.go, task.go, task_pause.go)\<close>

text \<open>
  The goroutines of one task as a step relation. A worker is at the top of its loop (about to run
  \<open>retireIfAboveTarget\<close>), at the pause gate, about to call \<open>Next\<close>, downloading a chunk, or gone;
  each rule of \<open>pool_step\<close> is one atomic action: a load of a counter, a compare-and-swap, a
  queue operation under its mutex, or the handling of \<open>downloadChunk\<close>'s result. \<open>retireIfAboveTarget\<close>
  is three of them: it loads the connection count, then the target, and then tries to swap the count it
  loaded. The other rules are the calls that reach a running task from outside: \<open>Pause\<close>, \<open>Unpause\<close>,
  \<open>Cancel\<close>, the two actions of \<open>AdjustConns\<close> (the swap of the target, truncated to 32 bits, and later, under
  its mutex, the spawning of the workers) and the return of the wait group. Workers and calls run in any
  interleaving. The relation is parametric in the queue operations; a task has one queue, or two in the
  both profile. Two fields are ghosts: \<open>lost\<close>, the chunks whose worker gave up, and \<open>asked\<close>, the largest
  number of connections anyone asked for. Logging, checkpoints and the progress sink do not act on this
  state and are left out.
\<close>

datatype TaskState = StateQueued | StateActive | StatePaused | StateRetrying | StateCompleted | StateError

fun TaskState_String :: "TaskState \<Rightarrow> string" where
  "TaskState_String StateQueued = ''queued''"
| "TaskState_String StateActive = ''downloading''"
| "TaskState_String StatePaused = ''paused''"
| "TaskState_String StateRetrying = ''retrying''"
| "TaskState_String StateCompleted = ''completed''"
| "TaskState_String StateError = ''error''"

datatype wstate = AtTop | Seen int | Retiring int | AtGate | AtNext | Working chunk | Exited

type_synonym worker = "nat \<times> wstate"

record 'q pool =
  queues :: "'q list"
  workers :: "worker list"
  conns :: int
  connTarget :: int
  errors :: int
  tstate :: TaskState
  paused :: bool
  cancelled :: bool
  adjustDone :: bool
  raised :: "int list"
  asked :: int
  lost :: "(nat \<times> chunk) list"

text \<open>The deferred decrement of a worker that leaves: a CAS loop guarded against underflow.\<close>

definition drop_conn :: "int \<Rightarrow> int" where
  "drop_conn n = (if n \<le> 0 then n else n - 1)"

text \<open>The conversion to \<open>int32\<close> of an int.\<close>

definition w32 :: "int \<Rightarrow> int" where
  "w32 i = (i + 2 ^ 31) mod 2 ^ 32 - 2 ^ 31"

lemma w32_id: "- (2 ^ 31) \<le> i \<Longrightarrow> i < 2 ^ 31 \<Longrightarrow> w32 i = i"
  by (simp add: w32_def)

lemma w32_le: "- (2 ^ 31) \<le> i \<Longrightarrow> w32 i \<le> i"
  using zmod_le_nonneg_dividend [of "i + 2 ^ 31" "2 ^ 32"] by (simp add: w32_def)

text \<open>\<open>AdjustConns\<close> on a started task: the target is clamped to 1 and stored as an \<open>int32\<close>; when it is above the
  value it replaces, workers are spawned on the current engine (the first one) unless the wait group has
  returned. \<open>raised\<close> holds the calls between the two actions, with the workers each will spawn.\<close>

definition clamp1 :: "int \<Rightarrow> int" where
  "clamp1 target = (if target < 1 then 1 else target)"

definition adjust_swap :: "int \<Rightarrow> 'q pool \<Rightarrow> 'q pool" where
  "adjust_swap target0 s =
     (let target = clamp1 target0
      in s\<lparr>connTarget := w32 target, asked := max (asked s) target,
           raised := (if target \<le> connTarget s then raised s else (target - connTarget s) # raised s)\<rparr>)"

definition adjust_spawn :: "int \<Rightarrow> 'q pool \<Rightarrow> 'q pool" where
  "adjust_spawn k s =
     (let s1 = s\<lparr>raised := remove1 k (raised s)\<rparr>
      in if adjustDone s then s1 else s1\<lparr>workers := workers s @ replicate (nat k) (0, AtTop)\<rparr>)"

text \<open>The call with nothing in between.\<close>

definition AdjustConns :: "int \<Rightarrow> 'q pool \<Rightarrow> bool \<times> 'q pool" where
  "AdjustConns target0 s =
     (let k = clamp1 target0 - connTarget s
      in if k \<le> 0 then (True, adjust_swap target0 s)
         else (\<not> adjustDone s, adjust_spawn k (adjust_swap target0 s)))"

definition pool_Pause :: "'q pool \<Rightarrow> 'q pool" where
  "pool_Pause s = s\<lparr>paused := True, tstate := StatePaused\<rparr>"

definition pool_Unpause :: "'q pool \<Rightarrow> 'q pool" where
  "pool_Unpause s = s\<lparr>paused := False, tstate := StateActive\<rparr>"

definition pool_Cancel :: "'q pool \<Rightarrow> 'q pool" where
  "pool_Cancel s = s\<lparr>cancelled := True\<rparr>"

definition leave :: "nat \<Rightarrow> 'q pool \<Rightarrow> 'q pool" where
  "leave i s = s\<lparr>workers := (workers s)[i := (fst (workers s ! i), Exited)], conns := drop_conn (conns s)\<rparr>"

definition give_up :: "nat \<Rightarrow> chunk \<Rightarrow> 'q pool \<Rightarrow> 'q pool" where
  "give_up i c s =
     leave i (s\<lparr>errors := errors s + 1, lost := (fst (workers s ! i), c) # lost s\<rparr>)"

definition move :: "nat \<Rightarrow> wstate \<Rightarrow> 'q pool \<Rightarrow> 'q pool" where
  "move i w s = s\<lparr>workers := (workers s)[i := (fst (workers s ! i), w)]\<rparr>"

definition with_queue :: "nat \<Rightarrow> 'q \<Rightarrow> 'q pool \<Rightarrow> 'q pool" where
  "with_queue i q s = s\<lparr>queues := (queues s)[fst (workers s ! i) := q]\<rparr>"

abbreviation my_queue :: "nat \<Rightarrow> 'q pool \<Rightarrow> 'q" where
  "my_queue i s \<equiv> queues s ! fst (workers s ! i)"

definition worker_at :: "nat \<Rightarrow> wstate \<Rightarrow> 'q pool \<Rightarrow> bool" where
  "worker_at i w s \<longleftrightarrow> i < length (workers s) \<and> fst (workers s ! i) < length (queues s) \<and> snd (workers s ! i) = w"

inductive pool_step ::
  "('q \<Rightarrow> chunk option \<times> 'q) \<Rightarrow> (chunk \<Rightarrow> int \<Rightarrow> 'q \<Rightarrow> bool \<times> 'q) \<Rightarrow> (chunk \<Rightarrow> 'q \<Rightarrow> 'q) \<Rightarrow> int \<Rightarrow>
   'q pool \<Rightarrow> 'q pool \<Rightarrow> bool"
  for nxt :: "'q \<Rightarrow> chunk option \<times> 'q"
  and requeue :: "chunk \<Rightarrow> int \<Rightarrow> 'q \<Rightarrow> bool \<times> 'q"
  and mark :: "chunk \<Rightarrow> 'q \<Rightarrow> 'q"
  and retry :: int
where
  look: "worker_at i AtTop s \<Longrightarrow> pool_step nxt requeue mark retry s (move i (Seen (conns s)) s)"
| stay: "worker_at i (Seen n) s \<Longrightarrow> n \<le> connTarget s \<Longrightarrow> pool_step nxt requeue mark retry s (move i AtGate s)"
| above: "worker_at i (Seen n) s \<Longrightarrow> connTarget s < n \<Longrightarrow> pool_step nxt requeue mark retry s (move i (Retiring n) s)"
| retire: "worker_at i (Retiring n) s \<Longrightarrow> conns s = n \<Longrightarrow>
    pool_step nxt requeue mark retry s ((move i Exited s)\<lparr>conns := n - 1\<rparr>)"
| missed: "worker_at i (Retiring n) s \<Longrightarrow> conns s \<noteq> n \<Longrightarrow> pool_step nxt requeue mark retry s (move i AtTop s)"
| gate: "worker_at i AtGate s \<Longrightarrow> \<not> paused s \<or> cancelled s \<Longrightarrow>
    pool_step nxt requeue mark retry s (move i AtNext s)"
| stop: "worker_at i AtNext s \<Longrightarrow> cancelled s \<Longrightarrow> pool_step nxt requeue mark retry s (leave i s)"
| drained: "worker_at i AtNext s \<Longrightarrow> nxt (my_queue i s) = (None, q) \<Longrightarrow>
    pool_step nxt requeue mark retry s (leave i (with_queue i q s))"
| take_chunk: "worker_at i AtNext s \<Longrightarrow> nxt (my_queue i s) = (Some c, q) \<Longrightarrow>
    pool_step nxt requeue mark retry s (move i (Working c) (with_queue i q s))"
| succeed: "worker_at i (Working c) s \<Longrightarrow>
    pool_step nxt requeue mark retry s (move i AtTop (with_queue i (mark c (my_queue i s)) s))"
| interrupted: "worker_at i (Working c) s \<Longrightarrow> cancelled s \<Longrightarrow>
    pool_step nxt requeue mark retry s (give_up i c s)"
| permanent: "worker_at i (Working c) s \<Longrightarrow> \<not> cancelled s \<Longrightarrow>
    pool_step nxt requeue mark retry s ((give_up i c s)\<lparr>tstate := StateError\<rparr>)"
| requeued: "worker_at i (Working c) s \<Longrightarrow> \<not> cancelled s \<Longrightarrow> requeue c retry (my_queue i s) = (True, q) \<Longrightarrow>
    pool_step nxt requeue mark retry s (move i AtTop (with_queue i q s))"
| exhausted: "worker_at i (Working c) s \<Longrightarrow> \<not> cancelled s \<Longrightarrow> requeue c retry (my_queue i s) = (False, q) \<Longrightarrow>
    pool_step nxt requeue mark retry s ((give_up i c (with_queue i q s))\<lparr>tstate := StateError\<rparr>)"
| swap: "pool_step nxt requeue mark retry s (adjust_swap n s)"
| spawn: "k \<in> set (raised s) \<Longrightarrow> pool_step nxt requeue mark retry s (adjust_spawn k s)"
| pause: "pool_step nxt requeue mark retry s (pool_Pause s)"
| unpause: "pool_step nxt requeue mark retry s (pool_Unpause s)"
| cancel: "pool_step nxt requeue mark retry s (pool_Cancel s)"
| waited: "\<forall>w \<in> set (workers s). snd w = Exited \<Longrightarrow> pool_step nxt requeue mark retry s (s\<lparr>adjustDone := True\<rparr>)"

inductive_cases pool_stepE: "pool_step nxt requeue mark retry s s'"

abbreviation pool_steps ::
  "('q \<Rightarrow> chunk option \<times> 'q) \<Rightarrow> (chunk \<Rightarrow> int \<Rightarrow> 'q \<Rightarrow> bool \<times> 'q) \<Rightarrow> (chunk \<Rightarrow> 'q \<Rightarrow> 'q) \<Rightarrow> int \<Rightarrow>
   'q pool \<Rightarrow> 'q pool \<Rightarrow> bool" where
  "pool_steps nxt requeue mark retry \<equiv> (pool_step nxt requeue mark retry)\<^sup>*\<^sup>*"

text \<open>The pool \<open>Start\<close> launches: \<open>counts ! e\<close> workers on engine e, and the counters stored just
  before the launch.\<close>

definition spawn_workers :: "nat list \<Rightarrow> worker list" where
  "spawn_workers counts = concat (map (\<lambda>e. replicate (counts ! e) (e, AtTop)) [0..<length counts])"

definition start_pool :: "'q list \<Rightarrow> nat list \<Rightarrow> 'q pool" where
  "start_pool qs counts =
     \<lparr>queues = qs, workers = spawn_workers counts, conns = w32 (int (sum_list counts)),
      connTarget = w32 (int (sum_list counts)), errors = 0, tstate = StateActive, paused = False,
      cancelled = False, adjustDone = False, raised = [], asked = int (sum_list counts), lost = []\<rparr>"

subsection \<open>Counting\<close>

definition is_live :: "worker \<Rightarrow> nat" where
  "is_live w = (if snd w = Exited then 0 else 1)"

definition live :: "worker list \<Rightarrow> nat" where
  "live ws = sum_list (map is_live ws)"

fun holds :: "nat \<Rightarrow> worker \<Rightarrow> int multiset" where
  "holds e (e', Working c) = (if e' = e then {#Start c#} else {#})"
| "holds e (e', w) = {#}"

definition held :: "nat \<Rightarrow> worker list \<Rightarrow> int multiset" where
  "held e ws = sum_list (map (holds e) ws)"

definition lost_in :: "nat \<Rightarrow> (nat \<times> chunk) list \<Rightarrow> int multiset" where
  "lost_in e ls = mset (map (Start \<circ> snd) (filter (\<lambda>p. fst p = e) ls))"

lemma live_update: "i < length ws \<Longrightarrow> live (ws[i := w]) + is_live (ws ! i) = live ws + is_live w"
  unfolding live_def
proof (induction ws arbitrary: i)
  case (Cons a ws)
  then show ?case by (cases i) (auto simp: ac_simps)
qed simp

lemma held_update: "i < length ws \<Longrightarrow> held e (ws[i := w]) + holds e (ws ! i) = held e ws + holds e w"
  unfolding held_def
proof (induction ws arbitrary: i)
  case (Cons a ws)
  then show ?case by (cases i) (auto simp: ac_simps)
qed simp

lemma live_append: "live (ws @ ws') = live ws + live ws'" by (simp add: live_def)

lemma held_append: "held e (ws @ ws') = held e ws + held e ws'" by (simp add: held_def)

lemma live_replicate_AtTop [simp]: "live (replicate n (e, AtTop)) = n"
  by (induction n) (simp_all add: live_def is_live_def)

lemma held_replicate_AtTop [simp]: "held e (replicate n (e', AtTop)) = {#}"
  by (induction n) (simp_all add: held_def)

lemma live_zero: "live ws = 0 \<longleftrightarrow> (\<forall>w \<in> set ws. snd w = Exited)"
  by (induction ws) (auto simp: live_def is_live_def)

lemma held_Exited: "\<forall>w \<in> set ws. snd w = Exited \<Longrightarrow> held e ws = {#}"
proof (induction ws)
  case (Cons w ws)
  then show ?case by (cases w) (auto simp: held_def)
qed (simp add: held_def)

lemma live_spawn: "live (spawn_workers counts) = sum_list counts"
proof -
  have "live (concat (map (\<lambda>e. replicate (f e) (e, AtTop)) es)) = sum_list (map f es)" for f :: "nat \<Rightarrow> nat" and es
    by (induction es) (simp_all add: live_append, simp add: live_def)
  then show ?thesis by (simp add: spawn_workers_def map_nth)
qed

lemma held_spawn: "held e (spawn_workers counts) = {#}"
proof -
  have "held e (concat (map (\<lambda>e'. replicate (f e') (e', AtTop)) es)) = {#}" for f :: "nat \<Rightarrow> nat" and es
    by (induction es) (simp_all add: held_append, simp add: held_def)
  then show ?thesis by (simp add: spawn_workers_def)
qed

lemma spawn_no_retiring: "Retiring n \<notin> snd ` set (spawn_workers counts)"
  by (auto simp: spawn_workers_def)

lemma worker_at_nth: "worker_at i w s \<Longrightarrow> workers s ! i = (fst (workers s ! i), w)"
  by (cases "workers s ! i") (auto simp: worker_at_def)

lemma held_set: "worker_at i w s \<Longrightarrow>
   held e ((workers s)[i := (k, w')]) + holds e (fst (workers s ! i), w) = held e (workers s) + holds e (k, w')"
  using held_update [of i "workers s" e "(k, w')"] worker_at_nth [of i w s] by (auto simp: worker_at_def)

lemma live_set: "worker_at i w s \<Longrightarrow>
   live ((workers s)[i := (k, w')]) + is_live (k, w) = live (workers s) + is_live (k, w')"
  using live_update [of i "workers s" "(k, w')"] by (auto simp: worker_at_def is_live_def)

lemma my_queue_update [simp]:
  "worker_at i w s \<Longrightarrow> (queues s)[fst (workers s ! i) := q] ! e = (if fst (workers s ! i) = e then q else queues s ! e)"
  by (auto simp: worker_at_def nth_list_update)

lemma drop_conn_le: "c \<le> int n \<Longrightarrow> drop_conn c \<le> int (n - Suc 0)"
  by (auto simp: drop_conn_def)

subsection \<open>The invariant\<close>

text \<open>Every offset of engine e's layout is in exactly one place: still queued, held by a worker, lost
  with a worker that gave up, or finished.\<close>

definition balance :: "('q \<Rightarrow> chunk list) \<Rightarrow> ('q \<Rightarrow> int set) \<Rightarrow> nat \<Rightarrow> 'q pool \<Rightarrow> int multiset" where
  "balance pending finished e s =
     mset (map Start (pending (queues s ! e))) + held e (workers s) + lost_in e (lost s) +
     mset_set (finished (queues s ! e))"

lemma balance_tstate [simp]: "balance pending finished e (s\<lparr>tstate := t\<rparr>) = balance pending finished e s"
  by (simp add: balance_def)

definition retiring_ok :: "'q pool \<Rightarrow> bool" where
  "retiring_ok s \<longleftrightarrow> 1 \<le> connTarget s \<and> (\<forall>n. Retiring n \<in> snd ` set (workers s) \<longrightarrow> 2 \<le> n)"

definition counters_ok :: "'q pool \<Rightarrow> bool" where
  "counters_ok s \<longleftrightarrow> conns s \<le> int (live (workers s)) \<and> 0 \<le> errors s \<and> (lost s \<noteq> [] \<longrightarrow> 0 < errors s) \<and>
     (asked s < 2 ^ 31 \<longrightarrow> retiring_ok s)"

definition conserved :: "('q \<Rightarrow> chunk list) \<Rightarrow> ('q \<Rightarrow> int set) \<Rightarrow> int set list \<Rightarrow> 'q pool \<Rightarrow> bool" where
  "conserved pending finished A s \<longleftrightarrow> length (queues s) = length A \<and>
     (\<forall>e < length A. finite (finished (queues s ! e)) \<and> balance pending finished e s = mset_set (A ! e))"

text \<open>With one queue, work left means a worker left, unless the task failed or was cancelled, or was asked for
  more connections than an \<open>int32\<close> holds.\<close>

definition attended :: "('q \<Rightarrow> chunk list) \<Rightarrow> 'q pool \<Rightarrow> bool" where
  "attended pending s \<longleftrightarrow>
     (pending (queues s ! 0) \<noteq> [] \<longrightarrow> errors s = 0 \<longrightarrow> \<not> cancelled s \<longrightarrow> asked s < 2 ^ 31 \<longrightarrow> 1 \<le> live (workers s))"

lemmas step_defs = move_def leave_def give_up_def with_queue_def adjust_swap_def adjust_spawn_def pool_Pause_def
  pool_Unpause_def pool_Cancel_def

lemma move_sel [simp]:
  "queues (move i w s) = queues s" "conns (move i w s) = conns s" "connTarget (move i w s) = connTarget s"
  "errors (move i w s) = errors s" "lost (move i w s) = lost s" "cancelled (move i w s) = cancelled s" "asked (move i w s) = asked s"
  "workers (move i w s) = (workers s)[i := (fst (workers s ! i), w)]"
  by (simp_all add: move_def)

lemma leave_sel [simp]:
  "queues (leave i s) = queues s" "conns (leave i s) = drop_conn (conns s)" "connTarget (leave i s) = connTarget s"
  "errors (leave i s) = errors s" "lost (leave i s) = lost s" "cancelled (leave i s) = cancelled s" "asked (leave i s) = asked s"
  "workers (leave i s) = (workers s)[i := (fst (workers s ! i), Exited)]"
  by (simp_all add: leave_def)

lemma give_up_sel [simp]:
  "queues (give_up i c s) = queues s" "conns (give_up i c s) = drop_conn (conns s)"
  "connTarget (give_up i c s) = connTarget s" "errors (give_up i c s) = errors s + 1"
  "lost (give_up i c s) = (fst (workers s ! i), c) # lost s" "cancelled (give_up i c s) = cancelled s" "asked (give_up i c s) = asked s"
  "workers (give_up i c s) = (workers s)[i := (fst (workers s ! i), Exited)]"
  by (simp_all add: give_up_def leave_def)

lemma with_queue_sel [simp]:
  "queues (with_queue i q s) = (queues s)[fst (workers s ! i) := q]" "conns (with_queue i q s) = conns s"
  "connTarget (with_queue i q s) = connTarget s" "errors (with_queue i q s) = errors s"
  "lost (with_queue i q s) = lost s" "cancelled (with_queue i q s) = cancelled s" "asked (with_queue i q s) = asked s"
  "workers (with_queue i q s) = workers s"
  by (simp_all add: with_queue_def)

lemma adjust_sel [simp]:
  "queues (adjust_swap n s) = queues s" "queues (adjust_spawn k s) = queues s"
  "conns (adjust_swap n s) = conns s" "conns (adjust_spawn k s) = conns s"
  "errors (adjust_swap n s) = errors s" "errors (adjust_spawn k s) = errors s"
  "lost (adjust_swap n s) = lost s" "lost (adjust_spawn k s) = lost s"
  "cancelled (adjust_swap n s) = cancelled s" "cancelled (adjust_spawn k s) = cancelled s"
  "asked (adjust_swap n s) = max (asked s) (clamp1 n)" "asked (adjust_spawn k s) = asked s"
  "connTarget (adjust_swap n s) = w32 (clamp1 n)" "connTarget (adjust_spawn k s) = connTarget s"
  "workers (adjust_swap n s) = workers s"
  "workers (adjust_spawn k s) = workers s @ (if adjustDone s then [] else replicate (nat k) (0, AtTop))"
  by (simp_all add: adjust_swap_def adjust_spawn_def Let_def)

lemma move_move: "i < length (workers s) \<Longrightarrow> move i w' (move i w s) = move i w' s"
  by (simp add: move_def)

lemma live_move [simp]:
  "worker_at i w s \<Longrightarrow> w \<noteq> Exited \<Longrightarrow> w' \<noteq> Exited \<Longrightarrow> live ((workers s)[i := (k, w')]) = live (workers s)"
  using live_set [of i w s k w'] by (simp add: is_live_def)

lemma live_leave [simp]:
  "worker_at i w s \<Longrightarrow> w \<noteq> Exited \<Longrightarrow> live ((workers s)[i := (k, Exited)]) = live (workers s) - 1"
  using live_set [of i w s k Exited] by (simp add: is_live_def)

lemma live_pos: "worker_at i w s \<Longrightarrow> w \<noteq> Exited \<Longrightarrow> 1 \<le> live (workers s)"
  using live_set [of i w s k Exited] by (simp add: is_live_def)

lemma retiring_upd:
  "retiring_ok s \<Longrightarrow> workers s' = (workers s)[i := (k, w)] \<Longrightarrow> connTarget s' = connTarget s \<Longrightarrow>
   (\<And>n. w = Retiring n \<Longrightarrow> 2 \<le> n) \<Longrightarrow> retiring_ok s'"
  unfolding retiring_ok_def using set_update_subset_insert [of "workers s" i "(k, w)"] by fastforce

lemma retiring_move: "retiring_ok s \<Longrightarrow> (\<And>n. w = Retiring n \<Longrightarrow> 2 \<le> n) \<Longrightarrow> retiring_ok (move i w s)"
  by (erule retiring_upd) auto

lemma retiring_leave: "retiring_ok s \<Longrightarrow> retiring_ok (leave i s)"
  by (erule retiring_upd) auto

lemma retiring_frame [simp]:
  "retiring_ok (s\<lparr>conns := x1\<rparr>) = retiring_ok s" "retiring_ok (s\<lparr>tstate := x2\<rparr>) = retiring_ok s"
  "retiring_ok (s\<lparr>adjustDone := x3\<rparr>) = retiring_ok s" "retiring_ok (s\<lparr>paused := x4\<rparr>) = retiring_ok s"
  "retiring_ok (s\<lparr>cancelled := x5\<rparr>) = retiring_ok s"
  "retiring_ok (with_queue i q s) = retiring_ok s" "retiring_ok (give_up i c s) = retiring_ok (leave i s)"
  by (simp_all add: retiring_ok_def)

lemma counters_step: "pool_step nxt requeue mark retry s s' \<Longrightarrow> counters_ok s \<Longrightarrow> counters_ok s'"
proof (induction rule: pool_step.induct)
  case (above i n s)
  then have "retiring_ok s \<Longrightarrow> 2 \<le> n" by (simp add: retiring_ok_def)
  then show ?case using above by (auto simp: counters_ok_def intro: retiring_move)
next
  case (retire i n s)
  then show ?case using live_pos [OF retire(1)] by (auto simp: counters_ok_def of_nat_diff intro: retiring_move)
next
  case (swap s n)
  then show ?case using w32_id [of "clamp1 n"] by (auto simp: counters_ok_def retiring_ok_def clamp1_def)
next
  case (spawn k s)
  then show ?case by (auto simp: counters_ok_def retiring_ok_def live_append)
qed (auto simp: counters_ok_def drop_conn_le pool_Pause_def pool_Unpause_def pool_Cancel_def
      intro: retiring_move retiring_leave)

abbreviation idle :: "wstate \<Rightarrow> bool" where
  "idle w \<equiv> (\<forall>c. w \<noteq> Working c)"

lemma holds_idle [simp]: "idle w \<Longrightarrow> holds e (k, w) = {#}"
  by (cases w) auto

lemma held_idle: "worker_at i w s \<Longrightarrow> idle w \<Longrightarrow> idle w' \<Longrightarrow>
   held e ((workers s)[i := (k, w')]) = held e (workers s)"
  using held_set [of i w s e k w'] by simp

lemma held_take: "worker_at i w s \<Longrightarrow> idle w \<Longrightarrow>
   held e ((workers s)[i := (k, Working c)]) = held e (workers s) + (if k = e then {#Start c#} else {#})"
  using held_set [of i w s e k "Working c"] by simp

lemma held_drop: "worker_at i (Working c) s \<Longrightarrow> idle w' \<Longrightarrow>
   held e (workers s) = held e ((workers s)[i := (k, w')]) + (if fst (workers s ! i) = e then {#Start c#} else {#})"
  using held_set [of i "Working c" s e k w'] by simp

lemma lost_in_Cons [simp]: "lost_in e ((k, c) # ls) = (if k = e then {#Start c#} else {#}) + lost_in e ls"
  by (simp add: lost_in_def)

lemma lost_in_Nil [simp]: "lost_in e [] = {#}"
  by (simp add: lost_in_def)

lemma mset_set_once: "X + {#x#} = mset_set A \<Longrightarrow> x \<notin># X"
proof
  assume e: "X + {#x#} = mset_set A" and x: "x \<in># X"
  have "count (mset_set A) x \<le> 1" by (cases "finite A"; cases "x \<in> A") auto
  moreover have "count (mset_set A) x = count X x + 1" using arg_cong [OF e, of "\<lambda>m. count m x"] by simp
  ultimately have "count X x = 0" by simp
  then show False using x by (simp add: count_eq_zero_iff)
qed

lemma start_counters: "1 \<le> sum_list counts \<Longrightarrow> counters_ok (start_pool qs counts)"
  using live_spawn [of counts] w32_le [of "int (sum_list counts)"] w32_id [of "int (sum_list counts)"]
  by (auto simp: start_pool_def retiring_ok_def spawn_no_retiring counters_ok_def)

context work_queue
begin

abbreviation "bal \<equiv> balance pending finished"

lemma balance_idle:
  "worker_at i w s \<Longrightarrow> idle w \<Longrightarrow> idle w' \<Longrightarrow> queues s' = queues s \<Longrightarrow> lost s' = lost s \<Longrightarrow>
   workers s' = (workers s)[i := (k, w')] \<Longrightarrow> bal e s' = bal e s"
  by (simp add: balance_def held_idle)

lemma balance_drained:
  "worker_at i AtNext s \<Longrightarrow> nxt (my_queue i s) = (None, q) \<Longrightarrow> e < length (queues s) \<Longrightarrow>
   bal e (leave i (with_queue i q s)) = bal e s"
  by (cases "e = fst (workers s ! i)") (auto simp: balance_def held_idle dest: next_None)

lemma balance_take:
  "worker_at i AtNext s \<Longrightarrow> nxt (my_queue i s) = (Some c, q) \<Longrightarrow> e < length (queues s) \<Longrightarrow>
   bal e (move i (Working c) (with_queue i q s)) = bal e s"
  by (cases "e = fst (workers s ! i)") (auto simp: balance_def held_take dest: next_Some)

lemma balance_requeued:
  "worker_at i (Working c) s \<Longrightarrow> requeue c m (my_queue i s) = (True, q) \<Longrightarrow> e < length (queues s) \<Longrightarrow>
   bal e (move i AtTop (with_queue i q s)) = bal e s"
  using held_drop [of i c s AtTop e "fst (workers s ! i)"]
  by (cases "e = fst (workers s ! i)") (auto simp: balance_def dest: requeue_True)

lemma balance_give_up:
  "worker_at i (Working c) s \<Longrightarrow> bal e (give_up i c s) = bal e s"
  using held_drop [of i c s Exited e "fst (workers s ! i)"] by (simp add: balance_def)

lemma balance_exhausted:
  "worker_at i (Working c) s \<Longrightarrow> requeue c m (my_queue i s) = (False, q) \<Longrightarrow> e < length (queues s) \<Longrightarrow>
   bal e (give_up i c (with_queue i q s)) = bal e s"
  using held_drop [of i c s Exited e "fst (workers s ! i)"]
  by (cases "e = fst (workers s ! i)") (auto simp: balance_def dest: requeue_False)

lemma balance_succeed:
  assumes w: "worker_at i (Working c) s" and e: "e < length (queues s)"
    and f: "finite (finished (queues s ! e))" and b: "bal e s = mset_set B"
  shows "bal e (move i AtTop (with_queue i (mark c (my_queue i s)) s)) = bal e s"
proof (cases "e = fst (workers s ! i)")
  case True
  note h = held_drop [OF w, of AtTop e "fst (workers s ! i)"]
  let ?q = "queues s ! e"
  have "(mset (map Start (pending ?q)) + held e ((workers s)[i := (fst (workers s ! i), AtTop)]) +
      lost_in e (lost s) + mset_set (finished ?q)) + {#Start c#} = mset_set B"
    using b h True by (simp add: balance_def)
  from mset_set_once [OF this] have "Start c \<notin> Start ` set (pending ?q)" "Start c \<notin> finished ?q"
    using f by auto
  then show ?thesis using True e f h by (simp add: balance_def mark_pending mark_finished)
next
  case False
  then show ?thesis using held_drop [OF w, of AtTop e "fst (workers s ! i)"] by (simp add: balance_def)
qed

abbreviation "step \<equiv> pool_step nxt requeue mark"

lemma conserved_step: "step retry s s' \<Longrightarrow> conserved pending finished A s \<Longrightarrow> conserved pending finished A s'"
proof (induction rule: pool_step.induct)
  case (drained i s q)
  then show ?case using balance_drained [OF drained(1,2)] next_None [OF drained(2)]
    by (auto simp: conserved_def)
next
  case (take_chunk i s c q)
  then show ?case using balance_take [OF take_chunk(1,2)] next_Some [OF take_chunk(2)]
    by (auto simp: conserved_def)
next
  case (succeed i c s)
  then show ?case using balance_succeed [OF succeed(1)] mark_finished [of c "my_queue i s"]
    by (auto simp: conserved_def)
next
  case (requeued i c s q)
  then show ?case using balance_requeued [OF requeued(1,3)] requeue_True [OF requeued(3)]
    by (auto simp: conserved_def)
next
  case (exhausted i c s q)
  then show ?case using balance_exhausted [OF exhausted(1,3)] requeue_False [OF exhausted(3)]
    by (auto simp: conserved_def)
next
  case (interrupted i c s)
  then show ?case using balance_give_up [OF interrupted(1)] by (simp add: conserved_def)
next
  case (permanent i c s)
  then show ?case using balance_give_up [OF permanent(1)] by (simp add: conserved_def)
next
  case (swap s n)
  then show ?case by (simp add: conserved_def balance_def)
next
  case (spawn k s)
  then show ?case by (simp add: conserved_def balance_def held_append held_Exited)
qed (simp_all add: conserved_def balance_def held_idle pool_Pause_def pool_Unpause_def pool_Cancel_def)

lemma attended_step:
  "step retry s s' \<Longrightarrow> counters_ok s \<Longrightarrow> length (queues s) = 1 \<Longrightarrow> attended pending s \<Longrightarrow> attended pending s'"
proof (induction rule: pool_step.induct)
  case (retire i n s)
  have "Retiring n \<in> snd ` set (workers s)" using retire(1) by (force simp: worker_at_def in_set_conv_nth)
  then have "asked s < 2 ^ 31 \<Longrightarrow> 2 \<le> live (workers s)"
    using retire(2,3) by (auto simp: counters_ok_def retiring_ok_def)
  then show ?case using retire(1) by (auto simp: attended_def)
next
  case (drained i s q)
  then show ?case using next_None [OF drained(2)] by (auto simp: attended_def worker_at_def)
next
  case (take_chunk i s c q)
  then show ?case using live_pos [OF take_chunk(1)] by (simp add: attended_def)
next
  case (succeed i c s)
  then show ?case using live_pos [OF succeed(1)] by (simp add: attended_def)
next
  case (requeued i c s q)
  then show ?case using live_pos [OF requeued(1)] by (simp add: attended_def)
next
  case (spawn k s)
  then show ?case by (auto simp: attended_def live_append)
qed (auto simp: attended_def counters_ok_def pool_Pause_def pool_Unpause_def pool_Cancel_def)

lemma step_queues: "step retry s s' \<Longrightarrow> length (queues s') = length (queues s)"
  by (induction rule: pool_step.induct)
     (auto simp: pool_Pause_def pool_Unpause_def pool_Cancel_def split: if_splits)

lemma steps_inv:
  assumes "pool_steps nxt requeue mark retry s s'"
    and "counters_ok s" "conserved pending finished A s" "length (queues s) = 1 \<longrightarrow> attended pending s"
  shows "counters_ok s' \<and> conserved pending finished A s' \<and> (length (queues s') = 1 \<longrightarrow> attended pending s')"
  using assms
proof (induction rule: rtranclp_induct)
  case (step t u)
  then show ?case
    using counters_step [OF step(2)] conserved_step [OF step(2)] attended_step [OF step(2)]
      step_queues [OF step(2)] by simp
qed simp

lemma start_inv:
  assumes "1 \<le> sum_list counts" "length qs = length A"
    and "\<And>e. e < length A \<Longrightarrow> finite (finished (qs ! e)) \<and>
        mset (map Start (pending (qs ! e))) + mset_set (finished (qs ! e)) = mset_set (A ! e)"
  shows "counters_ok (start_pool qs counts)" "conserved pending finished A (start_pool qs counts)"
    "attended pending (start_pool qs counts)"
  using assms live_spawn [of counts] start_counters [of counts qs]
  by (auto simp: start_pool_def conserved_def balance_def attended_def held_spawn)

text \<open>When every worker of a task with one queue has left, without an error and without a
  cancellation, every chunk is finished.\<close>

lemma all_finished:
  assumes "pool_steps nxt requeue mark retry (start_pool [q] [n]) s" "1 \<le> n"
    and "finite (finished q)" "mset (map Start (pending q)) + mset_set (finished q) = mset_set D" "finite D"
    and "\<forall>w \<in> set (workers s). snd w = Exited" "errors s = 0" "\<not> cancelled s" "asked s < 2 ^ 31"
  shows "finished (queues s ! 0) = D"
proof -
  have i: "counters_ok s" "conserved pending finished [D] s" "length (queues s) = 1 \<longrightarrow> attended pending s"
    using steps_inv [OF assms(1), of "[D]"] start_inv [of "[n]" "[q]" "[D]"] assms(2-4) by auto
  then have "length (queues s) = 1" by (simp add: conserved_def)
  with i(3) have "pending (queues s ! 0) = []"
    using assms(6-9) live_zero [of "workers s"] by (auto simp: attended_def)
  moreover have "lost s = []" using i(1) assms(7) by (auto simp: counters_ok_def)
  moreover have "held 0 (workers s) = {#}" using assms(6) by (rule held_Exited)
  ultimately have "mset_set (finished (queues s ! 0)) = mset_set D" "finite (finished (queues s ! 0))"
    using i(2) by (auto simp: conserved_def balance_def)
  then show ?thesis using assms(5) by (metis finite_set_mset_mset_set)
qed

end

subsection \<open>Running a schedule\<close>

text \<open>An executable scheduler: one action per rule, None when its guard does not hold. Every run it
  accepts is a run of the step relation.\<close>

datatype action = Stay nat | Retire nat | Gate nat | Pull nat | Succeed nat | Permanent nat | Fail nat | Adjust int | Swap int

definition is_at :: "nat \<Rightarrow> wstate \<Rightarrow> 'q pool \<Rightarrow> bool" where
  "is_at i w s \<longleftrightarrow> i < length (workers s) \<and> fst (workers s ! i) < length (queues s) \<and> snd (workers s ! i) = w"

fun working :: "wstate \<Rightarrow> chunk option" where
  "working (Working c) = Some c"
| "working w = None"

definition holding :: "nat \<Rightarrow> 'q pool \<Rightarrow> chunk option" where
  "holding i s = (if i < length (workers s) \<and> fst (workers s ! i) < length (queues s)
                  then working (snd (workers s ! i)) else None)"

fun act :: "int \<Rightarrow> action \<Rightarrow> workQueue pool \<Rightarrow> workQueue pool option" where
  "act retry (Stay i) s = (if is_at i AtTop s \<and> conns s \<le> connTarget s then Some (move i AtGate s) else None)"
| "act retry (Retire i) s =
     (if is_at i AtTop s \<and> connTarget s < conns s then Some ((move i Exited s)\<lparr>conns := conns s - 1\<rparr>) else None)"
| "act retry (Gate i) s = (if is_at i AtGate s \<and> \<not> paused s then Some (move i AtNext s) else None)"
| "act retry (Pull i) s =
     (if is_at i AtNext s
      then (case wq_Next (my_queue i s) of
              (None, q) \<Rightarrow> Some (leave i (with_queue i q s))
            | (Some c, q) \<Rightarrow> Some (move i (Working c) (with_queue i q s)))
      else None)"
| "act retry (Succeed i) s =
     (case holding i s of None \<Rightarrow> None
      | Some c \<Rightarrow> Some (move i AtTop (with_queue i (wq_MarkDone c (my_queue i s)) s)))"
| "act retry (Permanent i) s =
     (case holding i s of None \<Rightarrow> None
      | Some c \<Rightarrow> if cancelled s then None else Some ((give_up i c s)\<lparr>tstate := StateError\<rparr>))"
| "act retry (Fail i) s =
     (case holding i s of None \<Rightarrow> None
      | Some c \<Rightarrow> if cancelled s then None else
          (case wq_Requeue c retry (my_queue i s) of
             (True, q) \<Rightarrow> Some (move i AtTop (with_queue i q s))
           | (False, q) \<Rightarrow> Some ((give_up i c (with_queue i q s))\<lparr>tstate := StateError\<rparr>)))"
| "act retry (Adjust n) s = Some (snd (AdjustConns n s))"
| "act retry (Swap n) s = Some (adjust_swap n s)"

fun run :: "int \<Rightarrow> action list \<Rightarrow> workQueue pool \<Rightarrow> workQueue pool option" where
  "run retry [] s = Some s"
| "run retry (a # as) s = (case act retry a s of None \<Rightarrow> None | Some s' \<Rightarrow> run retry as s')"

abbreviation task_step :: "int \<Rightarrow> workQueue pool \<Rightarrow> workQueue pool \<Rightarrow> bool" where
  "task_step \<equiv> pool_step wq_Next wq_Requeue wq_MarkDone"

abbreviation task_steps :: "int \<Rightarrow> workQueue pool \<Rightarrow> workQueue pool \<Rightarrow> bool" where
  "task_steps \<equiv> pool_steps wq_Next wq_Requeue wq_MarkDone"

lemma is_at_worker_at: "is_at i w s = worker_at i w s"
  by (auto simp: is_at_def worker_at_def)

lemma holding_Some: "holding i s = Some c \<Longrightarrow> worker_at i (Working c) s"
  by (cases "snd (workers s ! i)") (auto simp: holding_def worker_at_def split: if_splits)

lemma Stay_sound:
  assumes "worker_at i AtTop s" "conns s \<le> connTarget s"
  shows "task_steps retry s (move i AtGate s)"
proof -
  have i: "i < length (workers s)" using assms(1) by (simp add: worker_at_def)
  let ?s1 = "move i (Seen (conns s)) s"
  have "task_step retry s ?s1" using assms(1) by (rule look)
  moreover have "task_step retry ?s1 (move i AtGate ?s1)"
    using assms i by (intro stay [of i "conns s"]) (auto simp: worker_at_def)
  ultimately show ?thesis using move_move [OF i] by auto
qed

lemma Retire_sound:
  assumes "worker_at i AtTop s" "connTarget s < conns s"
  shows "task_steps retry s ((move i Exited s)\<lparr>conns := conns s - 1\<rparr>)"
proof -
  have i: "i < length (workers s)" using assms(1) by (simp add: worker_at_def)
  let ?s1 = "move i (Seen (conns s)) s"
  let ?s2 = "move i (Retiring (conns s)) s"
  have "task_step retry s ?s1" using assms(1) by (rule look)
  moreover have "task_step retry ?s1 ?s2"
    using above [of i "conns s" ?s1] assms i move_move [OF i] by (auto simp: worker_at_def)
  moreover have "task_step retry ?s2 ((move i Exited s)\<lparr>conns := conns s - 1\<rparr>)"
    using retire [of i "conns s" ?s2] assms i move_move [OF i] by (auto simp: worker_at_def)
  ultimately show ?thesis by auto
qed

lemma Adjust_sound: "task_steps retry s (snd (AdjustConns n s))"
proof (cases "clamp1 n - connTarget s \<le> 0")
  case True
  then show ?thesis by (auto simp: AdjustConns_def Let_def intro: swap)
next
  case False
  let ?k = "clamp1 n - connTarget s"
  have "?k \<in> set (raised (adjust_swap n s))" using False by (simp add: adjust_swap_def Let_def)
  then have "task_step retry (adjust_swap n s) (adjust_spawn ?k (adjust_swap n s))" by (rule spawn)
  moreover have "task_step retry s (adjust_swap n s)" by (rule swap)
  ultimately show ?thesis using False by (auto simp: AdjustConns_def Let_def)
qed

lemma act_sound: "act retry a s = Some s' \<Longrightarrow> task_steps retry s s'"
proof (cases a)
  case (Pull i)
  assume "act retry a s = Some s'"
  then show ?thesis using Pull
    by (auto simp: is_at_worker_at split: if_splits option.splits prod.splits intro!: r_into_rtranclp intro: drained take_chunk)
next
  case (Fail i)
  assume "act retry a s = Some s'"
  then show ?thesis using Fail
    by (auto split: if_splits option.splits prod.splits bool.splits dest!: holding_Some intro!: r_into_rtranclp intro: requeued exhausted)
qed (auto simp: is_at_worker_at split: if_splits option.splits dest!: holding_Some
      intro: Stay_sound Retire_sound Adjust_sound r_into_rtranclp gate succeed permanent swap)

lemma run_sound: "run retry as s = Some s' \<Longrightarrow> task_steps retry s s'"
proof (induction retry as s rule: run.induct)
  case (2 retry a as s)
  then show ?case by (auto split: option.splits dest!: act_sound intro: rtranclp_trans)
qed simp

subsection \<open>Queues a task starts with\<close>

lemma mset_starts_split:
  assumes "distinct (map Start cs)"
  shows "mset (map Start (filter (\<lambda>c. Start c \<notin> D) cs)) + mset_set (D \<inter> Start ` set cs) = mset_set (Start ` set cs)"
proof -
  have "mset (map Start (filter (\<lambda>c. Start c \<notin> D) cs)) = mset_set (Start ` set (filter (\<lambda>c. Start c \<notin> D) cs))"
    using mset_set_set [OF distinct_mono_filter [OF assms, of "\<lambda>c. Start c \<notin> D"]] by (simp only: set_map)
  moreover have "Start ` set (filter (\<lambda>c. Start c \<notin> D) cs) = Start ` set cs - D" by auto
  moreover have "(Start ` set cs - D) \<union> (D \<inter> Start ` set cs) = Start ` set cs" by auto
  moreover have "mset_set ((Start ` set cs - D) \<union> (D \<inter> Start ` set cs)) =
      mset_set (Start ` set cs - D) + mset_set (D \<inter> Start ` set cs)"
    by (intro mset_set_Union) auto
  ultimately show ?thesis by simp
qed

lemma chunk_queue_start:
  assumes "NewChunkQueue sz cs = Some q0" "0 < sz" "1 \<le> cs" "sz + cs \<le> 2 ^ 63"
    and "ResetCompletedOffsets D sz q0 = ((already, True), q)"
  shows "finite (completed q)" "mset (map Start (chunks q)) + mset_set (completed q) = mset_set (Start ` set (chunks q0))"
proof -
  have t: "tiles (chunks q0) 0 sz" using assms(1-4) by (auto simp: NewChunkQueue_layout layout_tiles)
  note r = reset_conserves [OF t _ assms(5)]
  show "finite (completed q)" using r(3) assms(2) by simp
  show "mset (map Start (chunks q)) + mset_set (completed q) = mset_set (Start ` set (chunks q0))"
    using r(2,3) assms(2) mset_starts_split [OF tiles_distinct [OF t], of D] by simp
qed

lemma filter_drop_takeWhile:
  "(\<forall>c. P c \<longrightarrow> \<not> Q c) \<Longrightarrow> filter Q (drop (length (takeWhile P cs)) cs) = filter Q cs"
  by (induction cs) auto

lemma static_queue_start:
  assumes "NewStaticQueue sz k = Some q0" "0 < sz" "1 \<le> k" "2 * sz + k \<le> 2 ^ 63 - 1"
    and "static_ResetCompletedOffsets D sz q0 = ((already, True), q)"
  shows "finite (sq_done q)"
    "mset (map Start (static_pending q)) + mset_set (sq_done q) = mset_set (Start ` set (sq_chunks q0))"
proof -
  let ?l = "layout ((sz + k - 1) div k) sz 0 0"
  have q0: "q0 = \<lparr>sq_chunks = ?l, sq_next = 0, sq_done = {}\<rparr>"
    using NewStaticQueue_layout [OF assms(2-4)] assms(1) by simp
  have "0 < (sz + k - 1) div k" using ceil_div_bounds(1) [of sz k] assms(2,3) by simp
  then have d: "distinct (map Start ?l)" using layout_tiles tiles_distinct assms(2) by (metis less_imp_le)
  have q: "sq_done q = D \<inter> Start ` set ?l" "sq_chunks q = ?l" "sq_next q = skip_done (sq_done q) ?l"
    using assms(5) by (auto simp: static_ResetCompletedOffsets_def Let_def q0)
  show "finite (sq_done q)" by (simp add: q)
  have "static_pending q = filter (\<lambda>c. Start c \<notin> sq_done q) ?l"
    unfolding static_pending_def q(2,3) skip_done_def by (rule filter_drop_takeWhile) simp
  also have "\<dots> = filter (\<lambda>c. Start c \<notin> D) ?l" by (rule filter_cong) (auto simp: q)
  finally show "mset (map Start (static_pending q)) + mset_set (sq_done q) = mset_set (Start ` set (sq_chunks q0))"
    using mset_starts_split [OF d, of D] by (simp add: q q0)
qed

abbreviation example_chunks :: "chunk list" where
  "example_chunks \<equiv> [\<lparr>Index = 0, Start = 0, End = 3\<rparr>, \<lparr>Index = 1, Start = 4, End = 7\<rparr>, \<lparr>Index = 2, Start = 8, End = 9\<rparr>]"

abbreviation turn :: "nat \<Rightarrow> action list" where
  "turn i \<equiv> [Stay i, Gate i, Pull i]"

lemma NewChunkQueue_example:
  "NewChunkQueue 10 4 = Some \<lparr>chunks = example_chunks, completed = {}, failed = (\<lambda>_. 0)\<rparr>"
  by (simp add: NewChunkQueue_layout layout.simps [of 4])

lemma NewStaticQueue_example:
  "NewStaticQueue 10 3 = Some \<lparr>sq_chunks = example_chunks, sq_next = 0, sq_done = {}\<rparr>"
  by (simp add: NewStaticQueue_layout layout.simps [of 4])

definition all_left :: "workQueue pool \<Rightarrow> bool" where
  "all_left s \<longleftrightarrow> (\<forall>w \<in> set (workers s). snd w = Exited)"

subsection \<open>Properties\<close>



text \<open>the same for the aria2c profile, whose segments are never requeued.\<close>

lemma aria_task_completes:
  "NewStaticQueue sz k = Some q0 \<Longrightarrow> 0 < sz \<Longrightarrow> 1 \<le> k \<Longrightarrow> 2 * sz + k \<le> 2 ^ 63 - 1 \<Longrightarrow>
   static_ResetCompletedOffsets D sz q0 = ((already, True), q) \<Longrightarrow> 1 \<le> n \<Longrightarrow>
   task_steps retry (start_pool [SQ q] [n]) s \<Longrightarrow> all_left s \<Longrightarrow> errors s = 0 \<Longrightarrow> \<not> cancelled s \<Longrightarrow> asked s < 2 ^ 31 \<Longrightarrow>
   wq_finished (queues s ! 0) = Start ` set (sq_chunks q0)"
  using wq.all_finished [of retry "SQ q" n s "Start ` set (sq_chunks q0)"] static_queue_start [of sz k q0 D already q]
  by (simp add: all_left_def)

lemma aria_task_completes_witness:
  "\<exists>s. task_steps 0 (start_pool [SQ \<lparr>sq_chunks = example_chunks, sq_next = 1, sq_done = {0}\<rparr>] [1]) s \<and>
     wq_finished (queues s ! 0) = {0, 4, 8}"
proof -
  let ?full = "\<lparr>sq_chunks = example_chunks, sq_next = 0, sq_done = {}\<rparr>"
  let ?rest = "\<lparr>sq_chunks = example_chunks, sq_next = 1, sq_done = {0}\<rparr>"
  let ?r = "run 0 (turn 0 @ [Succeed 0] @ turn 0 @ [Succeed 0] @ turn 0) (start_pool [SQ ?rest] [1])"
  have r: "static_ResetCompletedOffsets {0} 10 ?full = ((4, True), ?rest)"
    by (simp add: static_ResetCompletedOffsets_def skip_done_def)
  have "case ?r of None \<Rightarrow> False | Some s \<Rightarrow> all_left s \<and> errors s = 0 \<and> \<not> cancelled s \<and> asked s < 2 ^ 31" by code_simp
  from case_option_ex [OF this] obtain s
    where s: "?r = Some s" "all_left s" "errors s = 0" "\<not> cancelled s" "asked s < 2 ^ 31" by blast
  have "wq_finished (queues s ! 0) = Start ` set (sq_chunks ?full)"
    using aria_task_completes [OF NewStaticQueue_example _ _ _ r, of 1 0 s] run_sound [OF s(1)] s by simp
  then show ?thesis using run_sound [OF s(1)] by auto
qed

text \<open>C5: no worker of any region loses a chunk silently: at every moment each chunk of each of the
  two regions of the both profile is queued, held by one worker, finished, or was given up, and a
  chunk given up is counted as an error.\<close>

lemma both_task_conserves:
  "NewChunkQueue m cs = Some q1 \<Longrightarrow> 0 < m \<Longrightarrow> 1 \<le> cs \<Longrightarrow> m + cs \<le> 2 ^ 63 \<Longrightarrow>
   NewStaticQueue r k = Some q2 \<Longrightarrow> 0 < r \<Longrightarrow> 1 \<le> k \<Longrightarrow> 2 * r + k \<le> 2 ^ 63 - 1 \<Longrightarrow>
   1 \<le> n1 + n2 \<Longrightarrow> task_steps retry (start_pool [CQ q1, SQ q2] [n1, n2]) s \<Longrightarrow>
   balance wq_pending wq_finished 0 s = mset_set (Start ` set (chunks q1)) \<and>
   balance wq_pending wq_finished 1 s = mset_set (Start ` set (sq_chunks q2)) \<and>
   (lost s \<noteq> [] \<longrightarrow> 0 < errors s)"
proof -
  assume q1: "NewChunkQueue m cs = Some q1" "0 < m" "1 \<le> cs" "m + cs \<le> 2 ^ 63"
    and q2: "NewStaticQueue r k = Some q2" "0 < r" "1 \<le> k" "2 * r + k \<le> 2 ^ 63 - 1"
    and n: "1 \<le> n1 + n2" and steps: "task_steps retry (start_pool [CQ q1, SQ q2] [n1, n2]) s"
  let ?A = "[Start ` set (chunks q1), Start ` set (sq_chunks q2)]"
  have c1: "completed q1 = {}" and t1: "tiles (chunks q1) 0 m"
    using q1 by (auto simp: NewChunkQueue_layout layout_tiles)
  obtain l where l: "q2 = \<lparr>sq_chunks = l, sq_next = 0, sq_done = {}\<rparr>" "tiles l 0 r"
    using NewStaticQueue_tiles' [OF q2(2-4)] q2(1) by auto
  have "mset (map Start (chunks q1)) = mset_set (Start ` set (chunks q1))"
    using mset_starts_split [OF tiles_distinct [OF t1], of "{}"] by simp
  moreover have "mset (map Start l) = mset_set (Start ` set l)"
    using mset_starts_split [OF tiles_distinct [OF l(2)], of "{}"] by simp
  ultimately have "\<And>e. e < length ?A \<Longrightarrow> finite (wq_finished ([CQ q1, SQ q2] ! e)) \<and>
      mset (map Start (wq_pending ([CQ q1, SQ q2] ! e))) + mset_set (wq_finished ([CQ q1, SQ q2] ! e)) = mset_set (?A ! e)"
    using c1 l by (auto simp: less_Suc_eq static_pending_def)
  then have "conserved wq_pending wq_finished ?A s \<and> counters_ok s"
    using wq.steps_inv [OF steps, of ?A] wq.start_inv [of "[n1, n2]" "[CQ q1, SQ q2]" ?A] n
    by (auto simp: start_pool_def)
  then show ?thesis by (auto simp: conserved_def counters_ok_def less_Suc_eq)
qed

lemma both_task_conserves_witness:
  "\<exists>s. task_steps 0 (start_pool [CQ \<lparr>chunks = example_chunks, completed = {}, failed = (\<lambda>_. 0)\<rparr>,
       SQ \<lparr>sq_chunks = example_chunks, sq_next = 0, sq_done = {}\<rparr>] [1, 1]) s \<and> 0 < errors s"
proof -
  let ?fst_region = "\<lparr>chunks = example_chunks, completed = {}, failed = (\<lambda>_. 0)\<rparr>"
  let ?snd_region = "\<lparr>sq_chunks = example_chunks, sq_next = 0, sq_done = {}\<rparr>"
  let ?r = "run 0 (turn 1 @ [Fail 1]) (start_pool [CQ ?fst_region, SQ ?snd_region] [1, 1])"
  have "case ?r of None \<Rightarrow> False | Some s \<Rightarrow> lost s \<noteq> []" by code_simp
  from case_option_ex [OF this] obtain s where s: "?r = Some s" "lost s \<noteq> []" by blast
  have "0 < errors s"
    using both_task_conserves [OF NewChunkQueue_example _ _ _ NewStaticQueue_example, of 1 1 0 s]
      run_sound [OF s(1)] s(2) by simp
  then show ?thesis using run_sound [OF s(1)] by auto
qed

text \<open>the bound on the connections asked for is needed. A request for 2 to the 31 is stored as a negative
  target: every worker sees more connections than that and retires, and Start's wait returns with no error,
  no cancellation and chunks still queued, while the request has yet to spawn anything.\<close>

lemma AdjustConns_int32_drops:
  "\<exists>q s. NewChunkQueue 10 4 = Some q \<and> task_steps 0 (start_pool [CQ q] [2]) s \<and>
     all_left s \<and> errors s = 0 \<and> \<not> cancelled s \<and> wq_pending (queues s ! 0) = chunks q \<and> chunks q \<noteq> []"
proof -
  let ?q = "\<lparr>chunks = example_chunks, completed = {}, failed = (\<lambda>_. 0)\<rparr>"
  let ?r = "run 0 [Swap 2147483648, Retire 0, Retire 1] (start_pool [CQ ?q] [2])"
  have "case ?r of None \<Rightarrow> False | Some s \<Rightarrow> all_left s \<and> errors s = 0 \<and> \<not> cancelled s \<and>
      wq_pending (queues s ! 0) = chunks ?q \<and> chunks ?q \<noteq> []" by code_simp
  from case_option_ex [OF this] obtain s where "?r = Some s" "all_left s \<and> errors s = 0 \<and> \<not> cancelled s \<and>
      wq_pending (queues s ! 0) = chunks ?q \<and> chunks ?q \<noteq> []" by blast
  then show ?thesis using NewChunkQueue_example run_sound by blast
qed

text \<open>with two regions the connection drain can lose one: lowering the connection count to 1
  lets the only worker of the second region retire; the first region's worker then finishes its
  queue, every worker has left with no error and no cancellation, and the second region was never
  downloaded.\<close>

lemma both_task_drops_region:
  "\<exists>q1 q2 s. NewChunkQueue 10 4 = Some q1 \<and> NewStaticQueue 10 3 = Some q2 \<and>
     task_steps 0 (start_pool [CQ q1, SQ q2] [1, 1]) s \<and>
     all_left s \<and> errors s = 0 \<and> \<not> cancelled s \<and> wq_pending (queues s ! 1) = sq_chunks q2 \<and> sq_chunks q2 \<noteq> []"
proof -
  let ?fst_region = "\<lparr>chunks = example_chunks, completed = {}, failed = (\<lambda>_. 0)\<rparr>"
  let ?snd_region = "\<lparr>sq_chunks = example_chunks, sq_next = 0, sq_done = {}\<rparr>"
  let ?r = "run 0 ([Adjust 1, Retire 1] @ turn 0 @ [Succeed 0] @ turn 0 @ [Succeed 0] @ turn 0 @ [Succeed 0] @ turn 0)
      (start_pool [CQ ?fst_region, SQ ?snd_region] [1, 1])"
  have "case ?r of None \<Rightarrow> False | Some s \<Rightarrow> all_left s \<and> errors s = 0 \<and> \<not> cancelled s \<and>
      wq_pending (queues s ! 1) = sq_chunks ?snd_region \<and> sq_chunks ?snd_region \<noteq> []" by code_simp
  from case_option_ex [OF this] obtain s where "?r = Some s" "all_left s \<and> errors s = 0 \<and> \<not> cancelled s \<and>
      wq_pending (queues s ! 1) = sq_chunks ?snd_region \<and> sq_chunks ?snd_region \<noteq> []" by blast
  then show ?thesis using NewChunkQueue_example NewStaticQueue_example run_sound by blast
qed

end
