(* ===== verification/Transport.thy ===== *)
theory Transport imports Go_Prelude begin

section \<open>The HTTP layer (internal/transport/transport.go)\<close>

text \<open>
  The decisions of package transport: the three-step probe, the total and start of a Content-Range,
  the ranged request and the classification of its status, the base headers, the redirect limit and
  the proxy check. A response is its status, its URL after redirects and its header (the empty
  string where a field is absent, as Header.Get returns it); the network is the response each
  request of the probe gets, None for a transport error. The filename a Content-Disposition names
  (mime.ParseMediaType) is a parameter.
\<close>

record probe_result =
  FinalURL :: string
  SupportsRange :: bool
  TotalSize :: int
  AcceptRanges :: bool
  ETag :: string
  Filename :: string
  StatusCode :: int
  SingleStream :: bool

record response =
  rsp_status :: int
  rsp_url :: string
  rsp_header :: "string \<Rightarrow> string"
  rsp_proto :: int

definition parseRangeTotal :: "string \<Rightarrow> int" where
  "parseRangeTotal cr =
     (case str_cut cr ''/'' of
        None \<Rightarrow> - 1
      | Some (before, after0) \<Rightarrow>
          let after = trim_space after0
          in if after = ''*'' then - 1
             else case parse_int after of ParsedInt v \<Rightarrow> v | _ \<Rightarrow> - 1)"

definition contentDispositionFilename :: "(string \<Rightarrow> string) \<Rightarrow> string \<Rightarrow> string" where
  "contentDispositionFilename media_filename v = (if v = [] then [] else media_filename v)"

definition is_2xx :: "int \<Rightarrow> bool" where
  "is_2xx s \<longleftrightarrow> 200 \<le> s \<and> s < 300"

text \<open>The size after a Content-Length field, kept when the field is absent or not a number.\<close>

definition with_content_length :: "response \<Rightarrow> int \<Rightarrow> int" where
  "with_content_length r size0 =
     (let cl = rsp_header r ''Content-Length''
      in if cl = [] then size0 else case parse_int cl of ParsedInt v \<Rightarrow> v | _ \<Rightarrow> size0)"

definition with_range_total :: "response \<Rightarrow> int \<Rightarrow> int" where
  "with_range_total r size0 =
     (let cr = rsp_header r ''Content-Range''
      in if cr = [] then size0 else if parseRangeTotal cr \<ge> 0 then parseRangeTotal cr else size0)"

datatype probe_error = ProbeFailed | UnexpectedStatus int | PlainStatus int

definition initial_probe :: "string \<Rightarrow> probe_result" where
  "initial_probe rawURL =
     \<lparr>FinalURL = rawURL, SupportsRange = False, TotalSize = - 1, AcceptRanges = False, ETag = [],
      Filename = [], StatusCode = 0, SingleStream = False\<rparr>"

text \<open>Step 1, the HEAD: what it learns, and whether the probe ends here.\<close>

definition probe_head :: "(string \<Rightarrow> string) \<Rightarrow> response option \<Rightarrow> probe_result \<Rightarrow> probe_result \<times> bool" where
  "probe_head media head pr0 =
     (case head of
        None \<Rightarrow> (pr0, False)
      | Some r \<Rightarrow>
          let pr1 = pr0\<lparr>FinalURL := rsp_url r, StatusCode := rsp_status r, ETag := rsp_header r ''ETag'',
                        Filename := contentDispositionFilename media (rsp_header r ''Content-Disposition'')\<rparr>
          in if is_2xx (rsp_status r) then
               let pr2 = pr1\<lparr>TotalSize := with_range_total r (with_content_length r (TotalSize pr1)),
                             AcceptRanges := equal_fold (rsp_header r ''Accept-Ranges'') ''bytes''
                                             \<or> rsp_header r ''Content-Range'' \<noteq> []\<rparr>
               in if AcceptRanges pr2 \<and> TotalSize pr2 > 0
                  then (pr2\<lparr>SupportsRange := True\<rparr>, True) else (pr2, False)
             else (pr1, False))"

definition doPlainSizeProbe :: "response option \<Rightarrow> probe_error + probe_result" where
  "doPlainSizeProbe plain =
     (case plain of
        None \<Rightarrow> Inl ProbeFailed
      | Some r \<Rightarrow>
          if is_2xx (rsp_status r)
          then Inr ((initial_probe (rsp_url r))\<lparr>StatusCode := rsp_status r,
                      TotalSize := with_content_length r 0\<rparr>)
          else Inl (PlainStatus (rsp_status r)))"

definition mergeSize :: "probe_result \<Rightarrow> probe_result \<Rightarrow> probe_result" where
  "mergeSize dst src =
     dst\<lparr>TotalSize := (if TotalSize dst < 0 \<and> TotalSize src > 0 then TotalSize src else TotalSize dst),
         FinalURL := FinalURL src, StatusCode := StatusCode src\<rparr>"

text \<open>Step 2, the ranged GET, with the plain GET as a last resort.\<close>

definition probe_range ::
  "(string \<Rightarrow> string) \<Rightarrow> response option \<Rightarrow> response option \<Rightarrow> probe_result \<Rightarrow> probe_error + probe_result" where
  "probe_range media ranged plain pr =
     (case ranged of
        None \<Rightarrow>
          (case doPlainSizeProbe plain of
             Inr pr2 \<Rightarrow> Inr ((mergeSize pr pr2)\<lparr>SingleStream := True\<rparr>)
           | Inl e \<Rightarrow> Inl ProbeFailed)
      | Some r \<Rightarrow>
          let pr1 = pr\<lparr>FinalURL := rsp_url r, StatusCode := rsp_status r, ETag := rsp_header r ''ETag'',
                       Filename := (if Filename pr = []
                                    then contentDispositionFilename media (rsp_header r ''Content-Disposition'')
                                    else Filename pr)\<rparr>
          in if rsp_status r = 206 then
               Inr (pr1\<lparr>SupportsRange := True, AcceptRanges := True,
                        TotalSize := with_range_total r (TotalSize pr1)\<rparr>)
             else if is_2xx (rsp_status r) then
               Inr (pr1\<lparr>SingleStream := True, TotalSize := with_content_length r (TotalSize pr1)\<rparr>)
             else Inl (UnexpectedStatus (rsp_status r)))"

definition Probe ::
  "(string \<Rightarrow> string) \<Rightarrow> response option \<Rightarrow> response option \<Rightarrow> response option \<Rightarrow> string \<Rightarrow>
   probe_error + probe_result" where
  "Probe media head ranged plain rawURL =
     (case probe_head media head (initial_probe rawURL) of
        (pr, finished) \<Rightarrow> if finished then Inr pr else probe_range media ranged plain pr)"

definition SupportsHTTP2 :: "response option \<Rightarrow> bool" where
  "SupportsHTTP2 head = (case head of None \<Rightarrow> False | Some r \<Rightarrow> rsp_proto r = 2)"

subsection \<open>Requests and their errors\<close>

type_synonym header_set = "(string \<times> string) list"

definition hdr_set :: "string \<Rightarrow> string \<Rightarrow> header_set \<Rightarrow> header_set" where
  "hdr_set k v h = filter (\<lambda>p. fst p \<noteq> k) h @ [(k, v)]"

text \<open>\<open>initBaseHeaders\<close>: canonical is http.CanonicalHeaderKey.\<close>

definition initBaseHeaders ::
  "(string \<Rightarrow> string) \<Rightarrow> string \<Rightarrow> string \<Rightarrow> string list \<Rightarrow> string + header_set" where
  "initBaseHeaders canonical userAgent referer headers =
     (let h0 = (if userAgent \<noteq> [] then hdr_set ''User-Agent'' userAgent [] else []);
          h1 = (if referer \<noteq> [] then hdr_set ''Referer'' referer h0 else h0)
      in fold (\<lambda>line acc. case acc of
                 Inl e \<Rightarrow> Inl e
               | Inr h \<Rightarrow> (case str_cut line '':'' of
                    None \<Rightarrow> Inl line
                  | Some (key, val) \<Rightarrow> Inr (h @ [(canonical (trim_space key), trim_space val)])))
           headers (Inr h1))"

definition newRequest :: "header_set \<Rightarrow> header_set" where
  "newRequest baseHdr = baseHdr"

definition IsPermanent :: "int \<Rightarrow> bool" where
  "IsPermanent status \<longleftrightarrow> 400 \<le> status \<and> status < 500 \<and> status \<noteq> 408 \<and> status \<noteq> 429"

datatype err_kind =
    TransportError | RangeStatus | IgnoredRange | ResumeDrift | WrongRange | ShortRead | WholeStatus
  | ReadError | WriteError | CtxError

text \<open>An error as the workers see it: its message and, when it is a StatusError, its status and
  whether it is permanent.\<close>

record io_error =
  ie_kind :: err_kind
  ie_status :: "int option"
  ie_permanent :: bool

definition PermanentWrap :: "err_kind \<Rightarrow> int \<Rightarrow> io_error" where
  "PermanentWrap k status = \<lparr>ie_kind = k, ie_status = Some status, ie_permanent = IsPermanent status\<rparr>"

definition plain_error :: "err_kind \<Rightarrow> io_error" where
  "plain_error k = \<lparr>ie_kind = k, ie_status = None, ie_permanent = False\<rparr>"

definition isPermanent :: "io_error \<Rightarrow> bool" where
  "isPermanent e \<longleftrightarrow> ie_status e \<noteq> None \<and> ie_permanent e"

definition statusErr :: "int \<Rightarrow> io_error" where
  "statusErr status = PermanentWrap WholeStatus status"

definition range_header :: "int \<Rightarrow> int \<Rightarrow> string" where
  "range_header start en =
     (if en < 0 then ''bytes='' @ itoa start @ ''-'' else ''bytes='' @ itoa start @ ''-'' @ itoa en)"

text \<open>\<open>GetRange\<close>: the request's header and what becomes of the answer.\<close>

definition GetRange_headers :: "header_set \<Rightarrow> int \<Rightarrow> int \<Rightarrow> string \<Rightarrow> header_set" where
  "GetRange_headers baseHdr start en etag =
     (let h = hdr_set ''Range'' (range_header start en) (newRequest baseHdr)
      in if etag \<noteq> [] then hdr_set ''If-Range'' etag h else h)"

definition GetRange_result :: "response option \<Rightarrow> io_error + response" where
  "GetRange_result answer =
     (case answer of
        None \<Rightarrow> Inl (plain_error TransportError)
      | Some r \<Rightarrow> if rsp_status r \<noteq> 206 \<and> rsp_status r \<noteq> 200
                   then Inl (PermanentWrap RangeStatus (rsp_status r)) else Inr r)"

text \<open>The redirect policy: \<open>via\<close> is the number of requests already made.\<close>

definition checkRedirect :: "int \<Rightarrow> nat \<Rightarrow> bool" where
  "checkRedirect maxRedirect0 via \<longleftrightarrow>
     \<not> (int via > (if maxRedirect0 < 0 then 0 else maxRedirect0))"

datatype proxy_setup = NoProxy | HTTPConnect | Socks5 bool
datatype proxy_error = UnsupportedScheme | NoProxyHost | InvalidProxyPort

text \<open>The proxy check of \<open>NewClient\<close> and \<open>newSocks5Dialer\<close> on a parsed URL (scheme, host, port).\<close>

definition proxy_check :: "string \<Rightarrow> string \<Rightarrow> string \<Rightarrow> string \<Rightarrow> proxy_error + proxy_setup" where
  "proxy_check cfgProxy scheme host port =
     (if cfgProxy = [] then Inr NoProxy
      else if scheme = ''http'' \<or> scheme = ''https'' then Inr HTTPConnect
      else if scheme = ''socks5'' \<or> scheme = ''socks5h'' then
        (if host = [] then Inl NoProxyHost
         else if port \<noteq> [] \<and> (case parse_int port of ParsedInt n \<Rightarrow> n < 1 \<or> n > 65535 | _ \<Rightarrow> True)
              then Inl InvalidProxyPort
         else Inr (Socks5 (scheme = ''socks5'')))
      else Inl UnsupportedScheme)"

text \<open>contentRangeStartsWith of task_io.go.\<close>

definition contentRangeStartsWith :: "string \<Rightarrow> int \<Rightarrow> bool" where
  "contentRangeStartsWith cr want =
     (if \<not> has_prefix cr ''bytes '' then False
      else let rest = drop 6 cr;
               startStr = (case str_cut rest ''-'' of None \<Rightarrow> rest | Some (b, _) \<Rightarrow> b)
           in parse_int startStr = ParsedInt want)"

subsection \<open>Properties\<close>

text \<open>a probe that succeeds either supports ranges or asks for a single stream, never both and
  never neither, and a resource that supports ranges on the strength of its HEAD alone has a
  positive size.\<close>

lemma Probe_range_or_single:
  "Probe media head ranged plain url = Inr pr \<Longrightarrow>
   SupportsRange pr \<noteq> SingleStream pr \<and> (SingleStream pr \<or> AcceptRanges pr) \<and>
   (ranged = None \<longrightarrow> SupportsRange pr \<longrightarrow> 0 < TotalSize pr)"
proof -
  assume p: "Probe media head ranged plain url = Inr pr"
  obtain pr1 fin where h: "probe_head media head (initial_probe url) = (pr1, fin)" by fastforce
  have h1: "SupportsRange pr1 = fin \<and> \<not> SingleStream pr1 \<and> (fin \<longrightarrow> AcceptRanges pr1 \<and> 0 < TotalSize pr1)"
    using h by (auto simp: probe_head_def initial_probe_def Let_def split: option.splits if_splits)
  show ?thesis
  proof (cases fin)
    case True
    with p h h1 show ?thesis by (simp add: Probe_def)
  next
    case False
    with p h have r: "probe_range media ranged plain pr1 = Inr pr" by (simp add: Probe_def)
    show ?thesis
    proof (cases ranged)
      case None
      with r h1 False show ?thesis by (auto simp: probe_range_def mergeSize_def split: sum.splits)
    next
      case (Some x)
      with r h1 False show ?thesis by (auto simp: probe_range_def Let_def split: if_splits)
    qed
  qed
qed

lemma Probe_range_or_single_witness:
  "SupportsRange \<lparr>FinalURL = ''u'', SupportsRange = True, TotalSize = - 1, AcceptRanges = True, ETag = [],
      Filename = [], StatusCode = 206, SingleStream = False\<rparr>"
proof -
  let ?r = "\<lparr>rsp_status = 206, rsp_url = ''u'', rsp_header = (\<lambda>_. []), rsp_proto = 1\<rparr>"
  let ?pr = "\<lparr>FinalURL = ''u'', SupportsRange = True, TotalSize = - 1, AcceptRanges = True, ETag = [],
      Filename = [], StatusCode = 206, SingleStream = False\<rparr>"
  have "Probe (\<lambda>v. v) None (Some ?r) None ''u'' = Inr ?pr"
    by (simp add: Probe_def probe_head_def probe_range_def initial_probe_def with_range_total_def
        contentDispositionFilename_def Let_def)
  from Probe_range_or_single [OF this] show ?thesis by simp
qed

text \<open>a 206 is accepted for a chunk exactly when its Content-Range starts at the offset asked
  for, whatever end and total follow.\<close>

lemma contentRangeStartsWith_iff:
  "0 \<le> s \<Longrightarrow> s < 2 ^ 63 \<Longrightarrow>
   contentRangeStartsWith (''bytes '' @ itoa s @ ''-'' @ rest) want \<longleftrightarrow> s = want"
proof -
  assume s: "0 \<le> s" "s < 2 ^ 63"
  have "str_cut (itoa s @ ''-'' @ rest) ''-'' = Some (itoa s, rest)"
    using str_cut_first [OF itoa_no_minus [OF s(1)]] by simp
  moreover have "has_prefix (''bytes '' @ itoa s @ ''-'' @ rest) ''bytes ''" by (rule has_prefix_append)
  moreover have "drop 6 (''bytes '' @ itoa s @ ''-'' @ rest) = itoa s @ ''-'' @ rest" by simp
  ultimately show ?thesis
    unfolding contentRangeStartsWith_def Let_def by (simp only: option.case prod.case simp_thms if_False
        parse_int_itoa [OF s] parse_int_result.inject)
qed

lemma contentRangeStartsWith_iff_witness: "\<not> contentRangeStartsWith ''bytes 0-9/10'' 4"
proof -
  have "''bytes '' @ itoa 0 @ ''-'' @ ''9/10'' = ''bytes 0-9/10''"
    by (simp add: itoa_def nat_digits.simps [of 0])
  then show ?thesis using contentRangeStartsWith_iff [of 0 "''9/10''" 4] by simp
qed

text \<open>a server that answers the ranged probe with 206 but no total leaves the size unknown and
  still counts as range-capable: the size is -1 and no single stream is asked for, although the
  documentation of \<open>Probe\<close> says an unknown size always sets it.\<close>

lemma Probe_sizeless_ranged:
  "rsp_status r = 206 \<Longrightarrow> rsp_header r ''Content-Range'' = [] \<Longrightarrow>
   \<exists>pr. Probe media None (Some r) plain url = Inr pr \<and> SupportsRange pr \<and> \<not> SingleStream pr \<and> TotalSize pr = - 1"
  by (simp add: Probe_def probe_head_def probe_range_def initial_probe_def with_range_total_def Let_def)

lemma Probe_sizeless_ranged_witness:
  "\<exists>pr. Probe (\<lambda>v. v) None (Some \<lparr>rsp_status = 206, rsp_url = ''u'', rsp_header = (\<lambda>_. []), rsp_proto = 1\<rparr>) None ''u''
     = Inr pr \<and> TotalSize pr = - 1"
  using Probe_sizeless_ranged [of "\<lparr>rsp_status = 206, rsp_url = ''u'', rsp_header = (\<lambda>_. []), rsp_proto = 1\<rparr>" "\<lambda>v. v" None "''u''"]
  by auto

end
