(* ===== verification/Utf8.thy ===== *)
theory Utf8 imports Go_Prelude begin

section \<open>UTF-8 (unicode/utf8, as the repository's strings meet it)\<close>

text \<open>
  A string is its bytes; a rune is its code point. Decoding and encoding of single runes, the range loop over a
  string, and what encoding/json and \<open>strings.Map\<close> make of a string that is not valid UTF-8: each octet that
  belongs to no valid sequence becomes the replacement character. A string that is valid is left alone.
\<close>

definition octet :: "char \<Rightarrow> nat" where "octet c = of_char c"

definition RuneError :: nat where "RuneError = 65533"

text \<open>The length of the sequence a lead octet opens, and the bounds of its second octet.\<close>

definition lead_class :: "nat \<Rightarrow> (nat \<times> nat \<times> nat) option" where
  "lead_class b =
     (if b < 0xC2 then None else if b \<le> 0xDF then Some (2, 0x80, 0xBF)
      else if b = 0xE0 then Some (3, 0xA0, 0xBF) else if b = 0xED then Some (3, 0x80, 0x9F)
      else if b \<le> 0xEF then Some (3, 0x80, 0xBF) else if b = 0xF0 then Some (4, 0x90, 0xBF)
      else if b \<le> 0xF3 then Some (4, 0x80, 0xBF) else if b = 0xF4 then Some (4, 0x80, 0x8F) else None)"

definition continuation :: "nat \<Rightarrow> bool" where
  "continuation b \<longleftrightarrow> 0x80 \<le> b \<and> b \<le> 0xBF"

definition follows :: "nat \<Rightarrow> nat \<Rightarrow> nat \<Rightarrow> nat list \<Rightarrow> bool" where
  "follows n lo hi bs \<longleftrightarrow> length bs = n - 1 \<and> bs \<noteq> [] \<and> lo \<le> hd bs \<and> hd bs \<le> hi \<and> list_all continuation (tl bs)"

text \<open>utf8.DecodeRuneInString: the rune and its size; an octet that starts no valid sequence is \<open>RuneError\<close> of size 1.\<close>

definition decode_rune :: "string \<Rightarrow> nat \<times> nat" where
  "decode_rune s =
     (case s of
        [] \<Rightarrow> (RuneError, 0)
      | c # r \<Rightarrow>
          if octet c < 0x80 then (octet c, 1)
          else case lead_class (octet c) of
            None \<Rightarrow> (RuneError, 1)
          | Some (n, lo, hi) \<Rightarrow>
              let bs = map octet (take (n - 1) r)
              in if follows n lo hi bs then (foldl (\<lambda>v b. v * 64 + b mod 64) (octet c mod 2 ^ (7 - n)) bs, n)
                 else (RuneError, 1))"

definition encode_rune :: "nat \<Rightarrow> string" where
  "encode_rune r =
     map char_of (if r < 0x80 then [r]
       else if r < 0x800 then [0xC0 + r div 64, 0x80 + r mod 64]
       else if r < 0x10000 then [0xE0 + r div 4096, 0x80 + r div 64 mod 64, 0x80 + r mod 64]
       else [0xF0 + r div 262144, 0x80 + r div 4096 mod 64, 0x80 + r div 64 mod 64, 0x80 + r mod 64])"

lemma lead_class_size: "lead_class b = Some (n, lo, hi) \<Longrightarrow> 2 \<le> n \<and> n \<le> 4 \<and> 0x80 \<le> lo \<and> hi \<le> 0xBF"
  by (auto simp: lead_class_def split: if_splits)

lemma decode_rune_size: "s \<noteq> [] \<Longrightarrow> 1 \<le> snd (decode_rune s) \<and> snd (decode_rune s) \<le> length s"
proof -
  assume "s \<noteq> []"
  then obtain c r where s: "s = c # r" by (cases s) auto
  show ?thesis
  proof (cases "octet c < 0x80 \<or> lead_class (octet c) = None")
    case True
    then show ?thesis by (auto simp: s decode_rune_def)
  next
    case False
    then obtain n lo hi where l: "lead_class (octet c) = Some (n, lo, hi)" by auto
    have "2 \<le> n" using lead_class_size [OF l] by simp
    then show ?thesis using False l by (auto simp: s decode_rune_def Let_def follows_def)
  qed
qed

text \<open>A range loop over a string: its runes, one \<open>RuneError\<close> for each invalid octet.\<close>

function runes :: "string \<Rightarrow> nat list" where
  "runes s = (if s = [] then [] else fst (decode_rune s) # runes (drop (snd (decode_rune s)) s))"
  by pat_completeness auto
termination
proof (relation "measure length")
  fix s :: string assume "s \<noteq> []"
  then have "1 \<le> snd (decode_rune s)" using decode_rune_size [of s] by simp
  then show "(drop (snd (decode_rune s)) s, s) \<in> measure length" using \<open>s \<noteq> []\<close> by (cases s) auto
qed simp

declare runes.simps [simp del]

lemma runes_Nil [simp]: "runes [] = []"
  by (simp add: runes.simps)

subsection \<open>Replacing what is not UTF-8\<close>

definition coerce :: "string \<Rightarrow> string" where
  "coerce s = concat (map encode_rune (runes s))"

text \<open>\<open>strings.Map\<close> of a mapping that deletes nothing.\<close>

definition map_runes :: "(nat \<Rightarrow> nat) \<Rightarrow> string \<Rightarrow> string" where
  "map_runes f s = concat (map (\<lambda>r. encode_rune (f r)) (runes s))"

definition valid_utf8 :: "string \<Rightarrow> bool" where
  "valid_utf8 s \<longleftrightarrow> coerce s = s"

definition scalar :: "nat \<Rightarrow> bool" where
  "scalar r \<longleftrightarrow> r < 0xD800 \<or> 0xE000 \<le> r \<and> r < 0x110000"

lemma octet_char_of: "n < 256 \<Longrightarrow> octet (char_of n) = n"
  by (simp add: octet_def)

lemma octet_less: "octet c < 256"
  by (simp add: octet_def nat_of_char_less_256)

lemma decode_seq:
  assumes "lead_class b0 = Some (n, lo, hi)" "follows n lo hi bs" "\<forall>b \<in> set (b0 # bs). b < 256"
  shows "decode_rune (map char_of (b0 # bs) @ s) = (foldl (\<lambda>v b. v * 64 + b mod 64) (b0 mod 2 ^ (7 - n)) bs, n)"
proof -
  have "\<not> b0 < 0x80" using assms(1) by (auto simp: lead_class_def)
  moreover have "map octet (map char_of bs) = bs" using assms(3) by (simp add: map_idI octet_char_of)
  moreover have "length bs = n - 1" using assms(2) by (simp add: follows_def)
  ultimately show ?thesis using assms by (simp add: decode_rune_def octet_char_of Let_def)
qed

lemma low_bits: "(c::nat) < 64 \<Longrightarrow> (128 + c) mod 64 = c"
  using mod_mult_self2 [of c 64 2] by (simp add: add.commute)

lemma decode_two:
  assumes "2 \<le> a" "a < 32" "c < 64"
  shows "decode_rune (map char_of [0xC0 + a, 0x80 + c] @ s) = (a * 64 + c, 2)"
proof -
  have m: "(192 + a) mod 32 = a" using assms(2) mod_mult_self2 [of a 32 6] by (simp add: add.commute)
  have l: "lead_class (0xC0 + a) = Some (2, 0x80, 0xBF)" using assms by (simp add: lead_class_def)
  have f: "follows 2 0x80 0xBF [0x80 + c]" using assms by (simp add: follows_def)
  show ?thesis using decode_seq [OF l f, of s] assms low_bits [of c] m by simp
qed

lemma decode_three:
  assumes a: "a < 16" "b < 64" "c < 64" "a = 0 \<longrightarrow> 32 \<le> b" "a = 13 \<longrightarrow> b < 32"
  shows "decode_rune (map char_of [0xE0 + a, 0x80 + b, 0x80 + c] @ s) = ((a * 64 + b) * 64 + c, 3)"
proof -
  have m: "(224 + a) mod 16 = a" using a(1) mod_mult_self2 [of a 16 14] by (simp add: add.commute)
  define lo :: nat where "lo = (if a = 0 then 0xA0 else 0x80)"
  define hi :: nat where "hi = (if a = 13 then 0x9F else 0xBF)"
  have l: "lead_class (0xE0 + a) = Some (3, lo, hi)" using a by (simp add: lead_class_def lo_def hi_def)
  have f: "follows 3 lo hi [0x80 + b, 0x80 + c]" using a by (auto simp: follows_def continuation_def lo_def hi_def)
  show ?thesis using decode_seq [OF l f, of s] a low_bits [of b] low_bits [of c] m by simp
qed

lemma decode_four:
  assumes a: "d < 5" "a < 64" "b < 64" "c < 64" "d = 0 \<longrightarrow> 16 \<le> a" "d = 4 \<longrightarrow> a < 16"
  shows "decode_rune (map char_of [0xF0 + d, 0x80 + a, 0x80 + b, 0x80 + c] @ s) = (((d * 64 + a) * 64 + b) * 64 + c, 4)"
proof -
  have m: "(240 + d) mod 8 = d" using a(1) mod_mult_self2 [of d 8 30] by (simp add: add.commute)
  define lo :: nat where "lo = (if d = 0 then 0x90 else 0x80)"
  define hi :: nat where "hi = (if d = 4 then 0x8F else 0xBF)"
  have l: "lead_class (0xF0 + d) = Some (4, lo, hi)" using a by (simp add: lead_class_def lo_def hi_def)
  have f: "follows 4 lo hi [0x80 + a, 0x80 + b, 0x80 + c]" using a by (auto simp: follows_def continuation_def lo_def hi_def)
  show ?thesis using decode_seq [OF l f, of s] a low_bits [of a] low_bits [of b] low_bits [of c] m by simp
qed

text \<open>Encoding a scalar value and decoding it again.\<close>

lemma decode_encode:
  assumes "scalar r"
  shows "decode_rune (encode_rune r @ s) = (r, length (encode_rune r))"
proof -
  have r2: "r div 64 * 64 + r mod 64 = r" by simp
  have r3: "r div 4096 * 64 + r div 64 mod 64 = r div 64"
    using div_mult_mod_eq [of "r div 64" 64] by (simp add: div_mult2_eq [of r 64 64, simplified])
  have r4: "r div 262144 * 64 + r div 4096 mod 64 = r div 4096"
    using div_mult_mod_eq [of "r div 4096" 64] by (simp add: div_mult2_eq [of r 4096 64, simplified])
  show ?thesis
  proof (cases "r < 0x80")
    case True
    then show ?thesis by (simp add: encode_rune_def decode_rune_def octet_char_of)
  next
    case r1: False
    show ?thesis
    proof (cases "r < 0x800")
      case True
      have "2 \<le> r div 64" "r div 64 < 32" using r1 True by (simp_all add: div_le_dividend less_mult_imp_div_less)
      then show ?thesis using decode_two [of "r div 64" "r mod 64" s] True r1 r2 by (auto simp: encode_rune_def)
    next
      case b2: False
      show ?thesis
      proof (cases "r < 0x10000")
        case True
        have "r div 4096 < 16" "r div 4096 = 0 \<longrightarrow> 32 \<le> r div 64 mod 64" "r div 4096 = 13 \<longrightarrow> r div 64 mod 64 < 32"
        proof -
          define q where "q = r div 64"
          have q: "r div 4096 = q div 64" by (simp add: q_def div_mult2_eq [of r 64 64, simplified])
          have "q < 1024" "32 \<le> q" "q < 864 \<or> 896 \<le> q" using b2 True assms by (auto simp: q_def scalar_def less_mult_imp_div_less)
          then show "r div 4096 < 16" "r div 4096 = 0 \<longrightarrow> 32 \<le> r div 64 mod 64" "r div 4096 = 13 \<longrightarrow> r div 64 mod 64 < 32"
            unfolding q q_def [symmetric] using div_mult_mod_eq [of q 64] by (auto, linarith)
        qed
        then show ?thesis using decode_three [of "r div 4096" "r div 64 mod 64" "r mod 64" s] True b2 r3 r2 by (simp add: encode_rune_def)
      next
        case b3: False
        have "r div 262144 < 5" "r div 262144 = 0 \<longrightarrow> 16 \<le> r div 4096 mod 64" "r div 262144 = 4 \<longrightarrow> r div 4096 mod 64 < 16"
        proof -
          define q where "q = r div 4096"
          have q: "r div 262144 = q div 64" by (simp add: q_def div_mult2_eq [of r 4096 64, simplified])
          have "16 \<le> q" "q < 272" using b3 assms by (auto simp: q_def scalar_def less_mult_imp_div_less)
          then show "r div 262144 < 5" "r div 262144 = 0 \<longrightarrow> 16 \<le> r div 4096 mod 64" "r div 262144 = 4 \<longrightarrow> r div 4096 mod 64 < 16"
            unfolding q q_def [symmetric] using div_mult_mod_eq [of q 64] by (auto, linarith)
        qed
        then show ?thesis using decode_four [of "r div 262144" "r div 4096 mod 64" "r div 64 mod 64" "r mod 64" s] b3 b2 r4 r3 r2
          by (simp add: encode_rune_def)
      qed
    qed
  qed
qed

text \<open>What is decoded is a scalar value, of a length that depends on it alone.\<close>

lemma follows_two: "follows 2 lo hi bs \<longleftrightarrow> (\<exists>b. bs = [b] \<and> lo \<le> b \<and> b \<le> hi)"
  by (cases bs) (auto simp: follows_def)

lemma follows_three: "follows 3 lo hi bs \<longleftrightarrow> (\<exists>b c. bs = [b, c] \<and> lo \<le> b \<and> b \<le> hi \<and> continuation c)"
  by (cases bs; cases "tl bs") (auto simp: follows_def)

lemma follows_four:
  "follows 4 lo hi bs \<longleftrightarrow> (\<exists>b c d. bs = [b, c, d] \<and> lo \<le> b \<and> b \<le> hi \<and> continuation c \<and> continuation d)"
  by (cases bs; cases "tl bs"; cases "tl (tl bs)") (auto simp: follows_def)

lemma lead_class_cases:
  assumes "lead_class b = Some (n, lo, hi)"
  shows "n = 2 \<and> 0xC2 \<le> b \<and> b < 0xE0 \<or> n = 3 \<and> 0xE0 \<le> b \<and> b < 0xF0 \<and> (b = 0xE0 \<longrightarrow> lo = 0xA0) \<and> (b = 0xED \<longrightarrow> hi = 0x9F) \<or>
    n = 4 \<and> 0xF0 \<le> b \<and> b < 0xF5 \<and> (b = 0xF4 \<longrightarrow> hi = 0x8F)"
  using assms by (auto simp: lead_class_def split: if_splits)

lemma cont_mod: "128 \<le> b \<Longrightarrow> b \<le> 191 \<Longrightarrow> b mod 64 = b - (128::nat)"
  using mod_mult_self2 [of "b - 128" 64 2] by simp

lemma four_scalar: "16 \<le> v \<Longrightarrow> v < 272 \<Longrightarrow> x < 64 \<Longrightarrow> y < 64 \<Longrightarrow> scalar ((v * 64 + x) * 64 + y)"
  by (simp add: scalar_def)

lemma decoded_scalar: "s \<noteq> [] \<Longrightarrow> scalar (fst (decode_rune s))"
proof -
  assume "s \<noteq> []"
  then obtain c r where s: "s = c # r" by (cases s) auto
  have err: "scalar RuneError" by (simp add: scalar_def RuneError_def)
  show ?thesis
  proof (cases "octet c < 0x80 \<or> lead_class (octet c) = None")
    case True
    then show ?thesis using err by (auto simp: s decode_rune_def scalar_def)
  next
    case False
    define b0 where "b0 = octet c"
    obtain n lo hi where l: "lead_class b0 = Some (n, lo, hi)" using False by (auto simp: b0_def)
    define bs where "bs = map octet (take (n - 1) r)"
    have d: "fst (decode_rune s) = (if follows n lo hi bs then foldl (\<lambda>v b. v * 64 + b mod 64) (b0 mod 2 ^ (7 - n)) bs else RuneError)"
      using False l by (simp add: s decode_rune_def Let_def bs_def b0_def)
    note c = lead_class_cases [OF l] lead_class_size [OF l]
    have "scalar (foldl (\<lambda>v b. v * 64 + b mod 64) (b0 mod 2 ^ (7 - n)) bs)" if f: "follows n lo hi bs"
    proof -
      consider "n = 2" | "n = 3" | "n = 4" using c by auto
      then show ?thesis
      proof cases
        case 1
        then obtain b where "bs = [b]" using f by (auto simp: follows_two)
        moreover have "b0 mod 32 < 32" "b mod 64 < 64" by simp_all
        ultimately show ?thesis using 1 by (auto simp: scalar_def)
      next
        case 2
        then obtain b d where b: "bs = [b, d]" "lo \<le> b" "b \<le> hi" using f by (auto simp: follows_three)
        have m: "b mod 64 = b - 128" using b c by (intro cont_mod) auto
        have "b0 mod 16 < 16" "b0 mod 16 = 13 \<Longrightarrow> b0 = 0xED" "d mod 64 < 64" "b - 128 < 64"
          using c b 2 mod_mult_self2 [of "b0 - 224" 16 14] by auto
        moreover have "b0 mod 16 = 13 \<Longrightarrow> b - 128 < 32" using calculation(2) c b 2 by auto
        moreover have "b0 mod 16 < 13 \<or> b0 mod 16 = 13 \<or> 14 \<le> b0 mod 16" by linarith
        ultimately show ?thesis using 2 b m by (auto simp: scalar_def)
      next
        case 3
        then obtain b d e where b: "bs = [b, d, e]" "lo \<le> b" "b \<le> hi" using f by (auto simp: follows_four)
        have m: "b mod 64 = b - 128" using b c by (intro cont_mod) auto
        have z: "b0 mod 8 = b0 - 240" using c 3 mod_mult_self2 [of "b0 - 240" 8 30] by auto
        have "d mod 64 < 64" "e mod 64 < 64" "b0 - 240 < 5" "b - 128 < 64" "b0 - 240 = 4 \<Longrightarrow> b - 128 < 16" "b0 = 240 \<Longrightarrow> lo = 0x90"
          using c b 3 l by (auto simp: lead_class_def split: if_splits)
        moreover have "b0 - 240 = 0 \<Longrightarrow> b0 = 240" using c 3 by auto
        ultimately have "16 \<le> (b0 - 240) * 64 + (b - 128)" "(b0 - 240) * 64 + (b - 128) < 272"
          using b by (cases "b0 - 240 = 0"; cases "b0 - 240 = 4"; simp)+
        then have "scalar ((((b0 - 240) * 64 + (b - 128)) * 64 + d mod 64) * 64 + e mod 64)"
          by (intro four_scalar) simp_all
        then show ?thesis using 3 b m z by simp
      qed
    qed
    then show ?thesis using d err by simp
  qed
qed

lemma encode_rune_nonempty [simp]: "encode_rune r \<noteq> []"
  by (simp add: encode_rune_def)

lemma runes_encode: "scalar r \<Longrightarrow> runes (encode_rune r @ s) = r # runes s"
  using decode_encode [of r s] by (subst runes.simps) simp

lemma runes_scalar: "list_all scalar (runes s)"
proof (induction s rule: runes.induct)
  case (1 s)
  then show ?case by (cases "s = []") (simp_all add: runes.simps [of s] decoded_scalar)
qed

lemma runes_concat: "list_all scalar rs \<Longrightarrow> runes (concat (map encode_rune rs)) = rs"
  by (induction rs) (simp_all add: runes_encode)

text \<open>Replacing is done once.\<close>

lemma coerce_coerce [simp]: "coerce (coerce s) = coerce s"
  using runes_concat [OF runes_scalar, of s] by (simp add: coerce_def)

lemma valid_coerce [simp]: "valid_utf8 (coerce s)"
  by (simp add: valid_utf8_def)

lemma coerce_Nil [simp]: "coerce s = [] \<longleftrightarrow> s = []"
  by (auto simp: coerce_def runes.simps [of s])

lemma coerce_empty [simp]: "coerce [] = []"
  by simp

lemma runes_ascii: "list_all (\<lambda>c. octet c < 0x80) s \<Longrightarrow> runes s = map octet s"
proof (induction s)
  case (Cons c s)
  then have d: "decode_rune (c # s) = (octet c, 1)" by (simp add: decode_rune_def)
  show ?case using Cons d by (simp add: runes.simps [of "c # s"])
qed simp

lemma encode_ascii: "octet c < 0x80 \<Longrightarrow> encode_rune (octet c) = [c]"
  by (simp add: encode_rune_def) (simp add: octet_def)

lemma coerce_ascii: "list_all (\<lambda>c. octet c < 0x80) s \<Longrightarrow> coerce s = s"
  by (induction s) (simp_all add: coerce_def runes_ascii encode_ascii)

lemma valid_ascii: "list_all (\<lambda>c. octet c < 0x80) s \<Longrightarrow> valid_utf8 s"
  by (simp add: valid_utf8_def coerce_ascii)

lemma encode_octets:
  assumes "scalar r" "c \<in> set (encode_rune r)"
  shows "r < 0x80 \<and> c = char_of r \<or> 0x80 \<le> r \<and> 0x80 \<le> octet c"
proof (cases "r < 0x80")
  case False
  have "r < 0x110000" using assms(1) by (auto simp: scalar_def)
  then have "r div 64 < 17408" "r div 4096 < 272" "r div 262144 < 5" by (simp_all add: less_mult_imp_div_less)
  moreover have "r < 0x800 \<Longrightarrow> r div 64 < 32" "r < 0x10000 \<Longrightarrow> r div 4096 < 16" by (simp_all add: less_mult_imp_div_less)
  moreover have "r div 64 mod 64 < 64" "r div 4096 mod 64 < 64" "r mod 64 < 64" by simp_all
  ultimately show ?thesis using assms(2) False
    by (auto simp: encode_rune_def octet_char_of simp del: mod_less_divisor split: if_splits)
qed (use assms in \<open>simp add: encode_rune_def\<close>)

lemma runes_map: "list_all scalar (map f (runes s)) \<Longrightarrow> runes (map_runes f s) = map f (runes s)"
  using runes_concat [of "map f (runes s)"] by (simp add: map_runes_def comp_def)

lemma map_runes_id: "(\<And>r. r \<in> set (runes s) \<Longrightarrow> f r = r) \<Longrightarrow> map_runes f s = coerce s"
  by (simp add: map_runes_def coerce_def cong: map_cong)

lemma map_runes_coerced: "list_all scalar (map f (runes s)) \<Longrightarrow> coerce (map_runes f s) = map_runes f s"
  using runes_map [of f s] by (simp add: coerce_def map_runes_def comp_def)

end
