(* ===== verification/Filename.thy ===== *)
theory Filename imports Utf8 begin

section \<open>Names of output files (internal/download/task_filename.go, task_checksum.go, manager.go)\<close>

text \<open>
  How a server-controlled name becomes a path: \<open>deriveFilename\<close>, \<open>flattenFilename\<close>, \<open>uniqueName\<close>
  and \<open>ResolveDest\<close>, over the functions of package filepath they call (Base, Ext, Clean and Join
  of a Unix path), and the parser of a checksum sidecar. Whether a file exists is a parameter of
  \<open>uniqueName\<close>, whose loop need not end.
\<close>

subsection \<open>Package filepath\<close>

definition slash :: char where
  "slash = CHR ''/''"

fun split_on :: "char \<Rightarrow> string \<Rightarrow> string list" where
  "split_on d [] = [[]]"
| "split_on d (c # s) =
     (if c = d then [] # split_on d s
      else case split_on d s of [] \<Rightarrow> [[c]] | w # ws \<Rightarrow> (c # w) # ws)"

fun join_with :: "string \<Rightarrow> string list \<Rightarrow> string" where
  "join_with sep [] = []"
| "join_with sep [w] = w"
| "join_with sep (w # ws) = w @ sep @ join_with sep ws"

definition after_last :: "char \<Rightarrow> string \<Rightarrow> string" where
  "after_last d s = rev (takeWhile (\<lambda>c. c \<noteq> d) (rev s))"

definition path_base :: "string \<Rightarrow> string" where
  "path_base p =
     (if p = [] then ''.''
      else let q = rev (dropWhile (\<lambda>c. c = slash) (rev p)); b = after_last slash q
           in if b = [] then [slash] else b)"

definition path_ext :: "string \<Rightarrow> string" where
  "path_ext p =
     (let b = after_last slash p
      in if CHR ''.'' \<in> set b then CHR ''.'' # after_last (CHR ''.'') b else [])"

fun clean_comps :: "bool \<Rightarrow> string list \<Rightarrow> string list \<Rightarrow> string list" where
  "clean_comps rooted out [] = out"
| "clean_comps rooted out (c # cs) =
     (if c = [] \<or> c = ''.'' then clean_comps rooted out cs
      else if c = ''..'' then
        (if out \<noteq> [] \<and> last out \<noteq> ''..'' then clean_comps rooted (butlast out) cs
         else if rooted then clean_comps rooted out cs
         else clean_comps rooted (out @ [c]) cs)
      else clean_comps rooted (out @ [c]) cs)"

definition rooted :: "string \<Rightarrow> bool" where
  "rooted p \<longleftrightarrow> (case p of [] \<Rightarrow> False | c # _ \<Rightarrow> c = slash)"

definition path_comps :: "string \<Rightarrow> string list" where
  "path_comps p = clean_comps (rooted p) [] (split_on slash p)"

definition path_clean :: "string \<Rightarrow> string" where
  "path_clean p =
     (let body = join_with [slash] (path_comps p)
      in if rooted p then slash # body else if body = [] then ''.'' else body)"

definition path_join :: "string \<Rightarrow> string \<Rightarrow> string" where
  "path_join dir name =
     (if dir = [] \<and> name = [] then []
      else path_clean (if dir = [] then name else if name = [] then dir else dir @ slash # name))"

subsection \<open>The names\<close>

definition no_separator :: "nat \<Rightarrow> nat" where
  "no_separator r = (if r = 0x2F \<or> r = 0x5C then 0x5F else r)"

definition flattenFilename :: "string \<Rightarrow> string" where
  "flattenFilename name0 =
     (let name = map_runes no_separator name0
      in if name = [] \<or> name = ''.'' \<or> name = ''..'' then ''download.bin''
         else let base = path_base name
              in if base \<noteq> name \<and> base \<noteq> ''.'' \<and> base \<noteq> ''..'' then base else name)"

definition last_index :: "char \<Rightarrow> string \<Rightarrow> nat option" where
  "last_index c s = (if c \<in> set s then Some (length s - 1 - length (after_last c s)) else None)"

definition strip_query :: "string \<Rightarrow> string" where
  "strip_query u = (case last_index (CHR ''?'') u of None \<Rightarrow> u | Some i \<Rightarrow> take i u)"

definition deriveFilename :: "string \<Rightarrow> string \<Rightarrow> string" where
  "deriveFilename finalURL override =
     (if override \<noteq> [] then override
      else let u = strip_query finalURL
           in case last_index slash u of
                None \<Rightarrow> ''download.bin''
              | Some i \<Rightarrow>
                  let name = drop (i + 1) u
                  in if name \<noteq> [] then flattenFilename name else ''download.bin'')"

definition unique_candidate :: "string \<Rightarrow> nat \<Rightarrow> string" where
  "unique_candidate name i =
     (let ext = path_ext name in trim_suffix name ext @ ''.'' @ nat_digits i @ ext)"

partial_function (option) unique_loop :: "(string \<Rightarrow> bool) \<Rightarrow> string \<Rightarrow> string \<Rightarrow> nat \<Rightarrow> string option" where
  "unique_loop exists dir name i =
     (if exists (path_join dir (unique_candidate name i)) then unique_loop exists dir name (i + 1)
      else Some (unique_candidate name i))"

declare unique_loop.simps [code]

definition uniqueName :: "(string \<Rightarrow> bool) \<Rightarrow> string \<Rightarrow> string \<Rightarrow> string option" where
  "uniqueName exists dir name = unique_loop exists dir name 1"

definition sizeOrUnknown :: "int \<Rightarrow> string" where
  "sizeOrUnknown sz = (if sz < 0 then ''?'' else itoa sz)"

definition ResolveDest :: "string \<Rightarrow> string \<Rightarrow> string \<Rightarrow> string" where
  "ResolveDest dir outFile url =
     (let name = (if outFile \<noteq> [] then outFile
                  else let n = path_base (strip_query url)
                       in if n = [] \<or> n = ''.'' \<or> n = ''/'' then ''download.bin'' else n)
      in path_join dir name)"

subsection \<open>The checksum sidecar\<close>

datatype sidecar_error = EmptyChecksumFile | UnrecognisedDigest | UnsupportedAlgorithm

fun fields_aux :: "string \<Rightarrow> string \<Rightarrow> string list" where
  "fields_aux acc [] = (if acc = [] then [] else [acc])"
| "fields_aux acc (c # s) =
     (if is_space c then (if acc = [] then fields_aux [] s else acc # fields_aux [] s)
      else fields_aux (acc @ [c]) s)"

definition str_fields :: "string \<Rightarrow> string list" where
  "str_fields s = fields_aux [] s"

definition parseChecksumSidecar :: "string \<Rightarrow> sidecar_error + string" where
  "parseChecksumSidecar s =
     (case str_fields (trim_space s) of
        [] \<Rightarrow> Inl EmptyChecksumFile
      | tok # _ \<Rightarrow>
          let r = (case str_cut tok '':'' of
                     Some (a, h) \<Rightarrow> Some (a, h)
                   | None \<Rightarrow>
                       if length tok = 64 then Some (''sha256'', tok)
                       else if length tok = 40 then Some (''sha1'', tok)
                       else if length tok = 32 then Some (''md5'', tok)
                       else None)
          in case r of
               None \<Rightarrow> Inl UnrecognisedDigest
             | Some (algo0, hexStr) \<Rightarrow>
                 let algo = to_lower algo0
                 in if algo \<in> {''md5'', ''sha1'', ''sha256''} then Inr (algo @ '':'' @ to_lower hexStr)
                    else Inl UnsupportedAlgorithm)"

text \<open>The check of a written file: the digest function of an algorithm on the file's content (None
  when the file cannot be read) is a parameter.\<close>

datatype checksum_error = BadSpec | UnsupportedAlgo | Unreadable | Mismatch

definition verify_file :: "(string \<Rightarrow> string option) \<Rightarrow> string \<Rightarrow> string \<Rightarrow> checksum_error option" where
  "verify_file digest algo expectHex =
     (if to_lower algo \<notin> {''md5'', ''sha1'', ''sha256''} then Some UnsupportedAlgo
      else case digest (to_lower algo) of
        None \<Rightarrow> Some Unreadable
      | Some got \<Rightarrow> if \<not> equal_fold got (trim_space expectHex) then Some Mismatch else None)"

definition verifyChecksum :: "(string \<Rightarrow> string option) \<Rightarrow> string \<Rightarrow> checksum_error option" where
  "verifyChecksum digest spec =
     (if spec = [] then None
      else case str_cut spec '':'' of
        None \<Rightarrow> Some BadSpec
      | Some (algo, hexStr) \<Rightarrow> if hexStr = [] then Some BadSpec else verify_file digest algo hexStr)"

subsection \<open>A flattened name is one safe path component\<close>

definition safe_component :: "string \<Rightarrow> bool" where
  "safe_component n \<longleftrightarrow> n \<noteq> [] \<and> n \<noteq> ''.'' \<and> n \<noteq> ''..'' \<and> slash \<notin> set n \<and> CHR 0x5C \<notin> set n"

lemma after_last_id: "d \<notin> set s \<Longrightarrow> after_last d s = s"
proof -
  assume "d \<notin> set s"
  then have "takeWhile (\<lambda>c. c \<noteq> d) (rev s) = rev s" by (auto simp: takeWhile_eq_all_conv)
  then show ?thesis unfolding after_last_def by (simp only: rev_rev_ident)
qed

lemma dropWhile_id: "d \<notin> set s \<Longrightarrow> dropWhile (\<lambda>c. c = d) s = s"
  by (cases s) auto

lemma path_base_id: "n \<noteq> [] \<Longrightarrow> slash \<notin> set n \<Longrightarrow> path_base n = n"
  by (simp add: path_base_def dropWhile_id after_last_id Let_def)

lemma flat_scalar: "list_all scalar (map no_separator (runes n))"
  using runes_scalar [of n] by (auto simp: list_all_iff no_separator_def scalar_def)

lemma flat_chars: "slash \<notin> set (map_runes no_separator n)" "CHR 0x5C \<notin> set (map_runes no_separator n)"
proof -
  have "c \<noteq> slash \<and> c \<noteq> CHR 0x5C" if c: "c \<in> set (map_runes no_separator n)" for c
  proof -
    obtain r where r: "r \<in> set (map no_separator (runes n))" "c \<in> set (encode_rune r)" using c by (auto simp: map_runes_def)
    have "scalar r" using r(1) flat_scalar [of n] by (auto simp: list_all_iff)
    moreover have "r \<noteq> 0x2F" "r \<noteq> 0x5C" using r(1) by (auto simp: no_separator_def)
    moreover have "octet slash = 0x2F" "octet (CHR 0x5C) = 0x5C" by (simp_all add: octet_def slash_def)
    ultimately show ?thesis using encode_octets [OF _ r(2)] octet_char_of [of r] by auto
  qed
  then show "slash \<notin> set (map_runes no_separator n)" "CHR 0x5C \<notin> set (map_runes no_separator n)" by auto
qed

lemma flatten_eq:
  "flattenFilename n =
    (let m = map_runes no_separator n in if m = [] \<or> m = ''.'' \<or> m = ''..'' then ''download.bin'' else m)"
  using flat_chars(1) [of n] by (simp add: flattenFilename_def Let_def path_base_id)

lemma flatten_safe: "safe_component (flattenFilename n)"
  unfolding flatten_eq Let_def safe_component_def using flat_chars [of n] by (auto simp: slash_def)

lemma flatten_again: "flattenFilename (flattenFilename n) = flattenFilename n"
proof (cases "flattenFilename n = ''download.bin''")
  case True
  have "flattenFilename ''download.bin'' = ''download.bin''"
  proof -
    have a: "list_all (\<lambda>c. octet c < 0x80) ''download.bin''" by (simp add: octet_def)
    have "map_runes no_separator ''download.bin'' = coerce ''download.bin''"
      using runes_ascii [OF a] by (intro map_runes_id) (auto simp: no_separator_def octet_def)
    then show ?thesis using coerce_ascii [OF a] by (simp add: flatten_eq)
  qed
  then show ?thesis by (simp add: True)
next
  case False
  define m where "m = map_runes no_separator n"
  have f: "flattenFilename n = m" "m \<noteq> []" "m \<noteq> ''.''" "m \<noteq> ''..''"
    using False by (auto simp: flatten_eq Let_def m_def split: if_splits)
  have "runes m = map no_separator (runes n)" unfolding m_def by (rule runes_map [OF flat_scalar])
  then have "map_runes no_separator m = coerce m" by (intro map_runes_id) (auto simp: no_separator_def)
  then have "map_runes no_separator m = m" using map_runes_coerced [OF flat_scalar, of n] by (simp add: m_def)
  then show ?thesis using f by (simp add: flatten_eq [of m])
qed

lemma split_on_not_Nil [simp]: "split_on d s \<noteq> []"
  by (induction s) (auto split: list.split)

lemma split_on_append: "split_on d (s @ d # t) = split_on d s @ split_on d t"
  by (induction s) (auto split: list.split)

lemma split_on_id: "d \<notin> set s \<Longrightarrow> split_on d s = [s]"
  by (induction s) auto

lemma clean_comps_append: "clean_comps r out (cs @ ds) = clean_comps r (clean_comps r out cs) ds"
  by (induction r out cs rule: clean_comps.induct) auto

lemma path_comps_join:
  "dir \<noteq> [] \<Longrightarrow> safe_component n \<Longrightarrow> path_comps (dir @ slash # n) = path_comps dir @ [n]"
proof -
  assume d: "dir \<noteq> []" and n: "safe_component n"
  have "rooted (dir @ slash # n) = rooted dir" using d by (cases dir) (auto simp: rooted_def)
  then show ?thesis using n
    unfolding path_comps_def split_on_append clean_comps_append
    by (simp add: split_on_id safe_component_def)
qed

lemma unique_loop_least:
  assumes "\<not> exists (path_join dir (unique_candidate name k))" "i \<le> k"
    and "\<forall>j. i \<le> j \<longrightarrow> j < k \<longrightarrow> exists (path_join dir (unique_candidate name j))"
  shows "unique_loop exists dir name i = Some (unique_candidate name k)"
  using assms
proof (induction "k - i" arbitrary: i)
  case 0
  then have "i = k" by simp
  with 0 show ?case by (subst unique_loop.simps) simp
next
  case (Suc d)
  then have "i < k" "d = k - (i + 1)" by auto
  with Suc have "unique_loop exists dir name (i + 1) = Some (unique_candidate name k)" by simp
  moreover have "exists (path_join dir (unique_candidate name i))" using Suc \<open>i < k\<close> by simp
  ultimately show ?case by (subst unique_loop.simps) simp
qed

subsection \<open>Properties\<close>

text \<open>C24: whatever name the server sends, the flattened name is a single path component (no separator,
  not a dot segment, not empty), so joining it to the output directory lands directly inside that
  directory, and flattening twice changes nothing.\<close>

lemma flattenFilename_stays_inside:
  "dir \<noteq> [] \<Longrightarrow>
   safe_component (flattenFilename name) \<and>
   path_join dir (flattenFilename name) = path_clean (dir @ slash # flattenFilename name) \<and>
   path_comps (dir @ slash # flattenFilename name) = path_comps dir @ [flattenFilename name] \<and>
   flattenFilename (flattenFilename name) = flattenFilename name"
proof -
  assume d: "dir \<noteq> []"
  note s = flatten_safe [of name]
  have ne: "flattenFilename name \<noteq> []" using s by (simp add: safe_component_def)
  then show ?thesis using s flatten_again [of name] d path_comps_join [OF d s] by (simp add: path_join_def)
qed

lemma flattenFilename_stays_inside_witness:
  "path_join ''/srv'' (flattenFilename ''../../etc/passwd'') = ''/srv/.._.._etc_passwd''"
proof -
  have "path_join ''/srv'' (flattenFilename ''../../etc/passwd'') =
      path_clean (''/srv'' @ slash # flattenFilename ''../../etc/passwd'')"
    using flattenFilename_stays_inside [of "''/srv''" "''../../etc/passwd''"] by blast
  also have "\<dots> = ''/srv/.._.._etc_passwd''" by code_simp
  finally show ?thesis .
qed

text \<open>\<open>uniqueName\<close> returns as soon as some numbered name is free, with the lowest free number;
  the number goes before the last extension only, so it splits a compound extension.\<close>

lemma uniqueName_lowest:
  "1 \<le> k \<Longrightarrow> \<not> exists (path_join dir (unique_candidate name k)) \<Longrightarrow>
   (\<forall>j. 1 \<le> j \<longrightarrow> j < k \<longrightarrow> exists (path_join dir (unique_candidate name j))) \<Longrightarrow>
   uniqueName exists dir name = Some (unique_candidate name k)"
  unfolding uniqueName_def by (rule unique_loop_least)

lemma uniqueName_lowest_witness:
  "uniqueName (\<lambda>p. p = ''d/f.tar.gz'') ''d'' ''f.tar.gz'' = Some ''f.tar.1.gz''"
proof -
  have c: "unique_candidate ''f.tar.gz'' 1 = ''f.tar.1.gz''" by code_simp
  have p: "path_join ''d'' ''f.tar.1.gz'' = ''d/f.tar.1.gz''" by code_simp
  show ?thesis
    using uniqueName_lowest [of 1 "\<lambda>p. p = ''d/f.tar.gz''" "''d''" "''f.tar.gz''"] unfolding c p by simp
qed

end
