(* ===== verification/Task_Layout.thy ===== *)
theory Task_Layout imports Worker_Pool Transport Filename begin

section \<open>A task and its byte layout (internal/download/task.go, task_start.go, task_persist.go)\<close>

text \<open>
  The part of \<open>Task\<close> that \<open>Start\<close>, the resume and the checkpoints work on, and the construction of
  the layout: one fixed-chunk queue, one static split, or the two regions of the both profile. The
  queue constructors may not return (their loop adds on wrapping int64), so the layout is an option.
\<close>

record task_opts =
  op_OutputName :: string
  op_Dir :: string
  op_Retry :: int
  op_RetryWait :: int
  op_Continue :: bool
  op_ChunkSize :: int
  op_Timeout :: int
  op_UserAgent :: string
  op_Checksum :: string
  op_TaskLimitRate :: string
  op_Profile :: string
  op_Split :: int
  op_MinSplitSize :: int
  op_MaxConnPerServer :: int
  op_Collision :: string
  op_ChecksumURL :: string
  op_Mirrors :: "string list"

text \<open>The engine \<open>currentEngine\<close> caches in \<open>t.single\<close> holds a pointer to a queue: to the one \<open>t.queue\<close> points to
  (\<open>OnQueue\<close>), or, when \<open>t.queue\<close> has been replaced since, to the old one (\<open>OnOld\<close>).\<close>

datatype cached_engine = NotBuilt | OnQueue | OnOld engine

record task =
  tk_id :: string
  tk_url :: string
  tk_opts :: task_opts
  tk_resumeETag :: string
  tk_probe :: "probe_result option"
  tk_queue :: "workQueue option"
  tk_single :: cached_engine
  tk_outPath :: string
  tk_ariaSplit :: int
  tk_engines :: "(engine \<times> engine) option"
  tk_regionConns :: "int \<times> int"
  tk_splitAt :: int
  tk_hasH2 :: bool
  tk_bytesDone :: int
  tk_speed :: int
  tk_conns :: int
  tk_state :: TaskState
  tk_errors :: int
  tk_retries :: int
  tk_chunksSincePersist :: int
  tk_lastPersist :: "int option"
  tk_controlCreatedAt :: "int option"
  tk_cancelled :: bool
  tk_chunkHashes :: "int \<Rightarrow> string option"
  tk_connTarget :: int

text \<open>engineClient: a static split uses the HTTP/2 client when there is one.\<close>

definition engineClient :: "task \<Rightarrow> bool \<Rightarrow> client_kind" where
  "engineClient t static = (if static \<and> tk_hasH2 t then H2Client else H1Client)"

definition queue_engine :: "task \<Rightarrow> workQueue \<Rightarrow> engine" where
  "queue_engine t q = \<lparr>eng_q = q, eng_client = engineClient t (isStaticQueue q), eng_base = 0\<rparr>"

definition currentEngine :: "task \<Rightarrow> engine option \<times> task" where
  "currentEngine t =
     (case tk_engines t of
        Some (e1, _) \<Rightarrow> (Some e1, t)
      | None \<Rightarrow>
          (case tk_single t of
             OnOld e \<Rightarrow> (Some e, t)
           | _ \<Rightarrow> (map_option (queue_engine t) (tk_queue t), t\<lparr>tk_single := OnQueue\<rparr>)))"

text \<open>An assignment to \<open>t.queue\<close>: an engine cached earlier keeps the queue it was built on.\<close>

definition replace_queue :: "workQueue \<Rightarrow> task \<Rightarrow> task" where
  "replace_queue q t =
     t\<lparr>tk_queue := Some q,
       tk_single := (case (tk_single t, tk_queue t) of (OnQueue, Some old) \<Rightarrow> OnOld (queue_engine t old) | (c, _) \<Rightarrow> c)\<rparr>"

definition profileUsesH2 :: "task \<Rightarrow> bool" where
  "profileUsesH2 t \<longleftrightarrow> op_Profile (tk_opts t) = ''aria2c'' \<or> op_Profile (tk_opts t) = ''both''"

definition probed_size :: "task \<Rightarrow> int option" where
  "probed_size t = (case tk_probe t of Some pr \<Rightarrow> if TotalSize pr > 0 then Some (TotalSize pr) else None | None \<Rightarrow> None)"

definition totalOrDone :: "task \<Rightarrow> int" where
  "totalOrDone t = (case probed_size t of Some s \<Rightarrow> s | None \<Rightarrow> tk_bytesDone t)"

subsection \<open>The size of a chunk\<close>

definition effectiveChunkSize :: "task \<Rightarrow> int" where
  "effectiveChunkSize t =
     (if op_Profile (tk_opts t) = ''aria2c'' \<and> tk_ariaSplit t > 0 then
        (case probed_size t of
           Some s \<Rightarrow> snd (AriaSplit s (op_Split (tk_opts t)) (op_MinSplitSize (tk_opts t)))
         | None \<Rightarrow> op_ChunkSize (tk_opts t))
      else op_ChunkSize (tk_opts t))"

definition region2ChunkSize :: "task \<Rightarrow> int" where
  "region2ChunkSize t =
     (if tk_engines t \<noteq> None then
        (case probed_size t of
           Some s \<Rightarrow> snd (AriaSplit (s - tk_splitAt t) (op_Split (tk_opts t)) (op_MinSplitSize (tk_opts t)))
         | None \<Rightarrow> 0)
      else 0)"

definition layoutChunkSize :: "task \<Rightarrow> int \<Rightarrow> int" where
  "layoutChunkSize t start =
     (if tk_engines t \<noteq> None \<and> start \<ge> tk_splitAt t \<and> region2ChunkSize t > 0 then region2ChunkSize t
      else if op_Profile (tk_opts t) = ''aria2c'' \<and> effectiveChunkSize t > 0 then effectiveChunkSize t
      else if op_ChunkSize (tk_opts t) < 1 then defaultChunkSize else op_ChunkSize (tk_opts t))"

definition chunkSpan :: "task \<Rightarrow> probe_result \<Rightarrow> int \<Rightarrow> int \<times> int" where
  "chunkSpan t pr start =
     (if SingleStream pr then (0, TotalSize pr - 1)
      else let e = w64 (start + layoutChunkSize t start - 1)
           in (start, if TotalSize pr > 0 \<and> e \<ge> TotalSize pr then TotalSize pr - 1 else e))"

subsection \<open>The layout\<close>

definition both_engines :: "task \<Rightarrow> int \<Rightarrow> int \<Rightarrow> int \<Rightarrow> (engine \<times> engine) option" where
  "both_engines t qs mid n2 =
     (case (NewChunkQueue mid (op_ChunkSize (tk_opts t)), NewStaticQueue (qs - mid) n2) of
        (Some q1, Some q2) \<Rightarrow>
          Some (\<lparr>eng_q = CQ q1, eng_client = H1Client, eng_base = 0\<rparr>,
                \<lparr>eng_q = SQ q2, eng_client = engineClient t True, eng_base = mid\<rparr>)
      | _ \<Rightarrow> None)"

definition single_queue :: "task \<Rightarrow> int \<Rightarrow> int \<Rightarrow> workQueue option" where
  "single_queue t qs effective =
     (if op_Profile (tk_opts t) = ''aria2c'' \<and> qs > 0
      then map_option SQ (NewStaticQueue qs (tk_ariaSplit t))
      else map_option CQ (NewChunkQueue qs effective))"

text \<open>\<open>Start\<close> from the probe-derived size to the end of the layout: the task with its layout, and the
  effective chunk size. \<open>budget\<close> is the connection budget.\<close>

definition layout_size :: "probe_result \<Rightarrow> int" where
  "layout_size pr = (if SingleStream pr then - 1 else TotalSize pr)"

definition uses_both :: "task \<Rightarrow> int \<Rightarrow> int \<Rightarrow> bool" where
  "uses_both t qs budget \<longleftrightarrow>
     op_Profile (tk_opts t) = ''both'' \<and> qs > 0 \<and> \<not> qs < 4 * 1024 * 1024 \<and> \<not> budget < 2"

definition build_layout :: "task \<Rightarrow> probe_result \<Rightarrow> int \<Rightarrow> (task \<times> int) option" where
  "build_layout t0 pr budget =
     (let qs = layout_size pr;
          isAria = (op_Profile (tk_opts t0) = ''aria2c'');
          t1 = t0\<lparr>tk_engines := None, tk_single := NotBuilt, tk_splitAt := 0\<rparr>;
          (t2, effective) =
            (if isAria \<and> qs > 0 then
               (case AriaSplit qs (op_Split (tk_opts t1)) (op_MinSplitSize (tk_opts t1)) of
                  (n, seg) \<Rightarrow> (t1\<lparr>tk_ariaSplit := n\<rparr>, seg))
             else (t1, op_ChunkSize (tk_opts t1)))
      in if uses_both t2 qs budget then
           let conns1 = max 1 (budget sdiv 2);
               conns2 = max 1 (budget - conns1);
               mid = (if qs sdiv 2 < 1 then 1 else qs sdiv 2);
               n2 = fst (AriaSplit (qs - mid) (op_Split (tk_opts t2)) (op_MinSplitSize (tk_opts t2)))
           in map_option (\<lambda>es.
                (t2\<lparr>tk_regionConns := (conns1, conns2), tk_splitAt := mid, tk_engines := Some es,
                    tk_ariaSplit := n2, tk_queue := Some (eng_q (fst es))\<rparr>, effective))
              (both_engines t2 qs mid n2)
         else map_option (\<lambda>q. (t2\<lparr>tk_queue := Some q\<rparr>, effective)) (single_queue t2 qs effective))"

subsection \<open>Where the chunks of a layout lie\<close>

text \<open>The absolute spans of the chunks of a task's engines.\<close>

fun wq_chunks :: "workQueue \<Rightarrow> chunk list" where
  "wq_chunks (CQ q) = chunks q"
| "wq_chunks (SQ q) = sq_chunks q"

definition shift_chunk :: "int \<Rightarrow> chunk \<Rightarrow> chunk" where
  "shift_chunk base c = c\<lparr>Start := base + Start c, End := base + End c\<rparr>"

definition task_spans :: "task \<Rightarrow> chunk list" where
  "task_spans t =
     (case tk_engines t of
        Some (e1, e2) \<Rightarrow> wq_chunks (eng_q e1) @ map (shift_chunk (eng_base e2)) (wq_chunks (eng_q e2))
      | None \<Rightarrow> (case tk_queue t of None \<Rightarrow> [] | Some q \<Rightarrow> wq_chunks q))"

lemma tiles_shift: "tiles cs s e \<Longrightarrow> tiles (map (shift_chunk b) cs) (b + s) (b + e)"
  by (induction cs s e rule: tiles.induct) (auto simp: shift_chunk_def add.assoc)

lemma tiles_append: "tiles xs s m \<Longrightarrow> tiles ys m e \<Longrightarrow> s \<le> m \<Longrightarrow> m \<le> e \<Longrightarrow> tiles (xs @ ys) s e"
proof (induction xs s m rule: tiles.induct)
  case (2 c cs s t)
  then show ?case using tiles_le [of cs "End c + 1" t] by (cases ys) auto
qed simp

text \<open>Sizes and options for which the int64 arithmetic of the layout stays in range.\<close>

definition layout_in_range :: "task_opts \<Rightarrow> int \<Rightarrow> bool" where
  "layout_in_range o' sz \<longleftrightarrow> 0 < sz \<and> sz \<le> 2 ^ 61 \<and> op_ChunkSize o' \<le> 2 ^ 61 \<and> 1 \<le> op_Split o' \<and>
     op_Split o' \<le> 2 ^ 31 \<and> 1 \<le> op_MinSplitSize o' \<and> op_MinSplitSize o' \<le> 2 ^ 61"

lemma NewChunkQueue_any:
  "0 < sz \<Longrightarrow> sz \<le> 2 ^ 61 \<Longrightarrow> cs \<le> 2 ^ 61 \<Longrightarrow>
   NewChunkQueue sz cs = Some \<lparr>chunks = layout (if cs < 1 then defaultChunkSize else cs) sz 0 0, completed = {}, failed = (\<lambda>_. 0)\<rparr>
   \<and> tiles (layout (if cs < 1 then defaultChunkSize else cs) sz 0 0) 0 sz"
  using layout_tiles [of "if cs < 1 then defaultChunkSize else cs" 0 sz 0]
  by (auto simp: NewChunkQueue_layout defaultChunkSize_def)

lemma NewStaticQueue_any:
  "0 < sz \<Longrightarrow> sz \<le> 2 ^ 61 \<Longrightarrow> 1 \<le> n \<Longrightarrow> n \<le> 2 ^ 31 \<Longrightarrow>
   NewStaticQueue sz n = Some \<lparr>sq_chunks = layout ((sz + n - 1) div n) sz 0 0, sq_next = 0, sq_done = {}\<rparr>
   \<and> tiles (layout ((sz + n - 1) div n) sz 0 0) 0 sz"
  using NewStaticQueue_layout [of sz n] ceil_div_bounds(1) [of sz n] layout_tiles [of "(sz + n - 1) div n" 0 sz 0]
  by auto

lemma AriaSplit_any:
  assumes "0 < sz" "sz \<le> 2 ^ 61" "1 \<le> s" "s \<le> 2 ^ 31" "1 \<le> m" "m \<le> 2 ^ 61"
  obtains n where "AriaSplit sz s m = (n, (sz + n - 1) div n)" "1 \<le> n" "n \<le> s" "n \<le> 2 ^ 31"
proof -
  have a: "2 * m \<le> 2 ^ 63 - 1" "sz + s \<le> 2 ^ 63 - 1" using assms by simp_all
  note e = AriaSplit_eq [OF assms(1,3,5) a]
  show ?thesis by (rule that [OF e(1)]) (use e(2,3) assms(4) in linarith)+
qed

lemma layout_End: "0 < cs \<Longrightarrow> c \<in> set (layout cs sz idx start) \<Longrightarrow> End c = min (Start c + cs) sz - 1"
proof (induction cs sz idx start rule: layout.induct)
  case (1 cs sz idx start)
  then show ?case by (subst (asm) (2) layout.simps) (auto split: if_splits)
qed

definition both_mid :: "int \<Rightarrow> int" where
  "both_mid qs = (if qs sdiv 2 < 1 then 1 else qs sdiv 2)"

text \<open>The three shapes of a layout, written out.\<close>

lemma build_single:
  assumes "layout_in_range (tk_opts t) (TotalSize pr)" "\<not> SingleStream pr"
    and "op_Profile (tk_opts t) \<noteq> ''aria2c''" "\<not> uses_both t (TotalSize pr) budget"
  defines "cs \<equiv> (if op_ChunkSize (tk_opts t) < 1 then defaultChunkSize else op_ChunkSize (tk_opts t))"
  shows "build_layout t pr budget = Some (t\<lparr>tk_engines := None, tk_single := NotBuilt, tk_splitAt := 0,
      tk_queue := Some (CQ \<lparr>chunks = layout cs (TotalSize pr) 0 0, completed = {}, failed = (\<lambda>_. 0)\<rparr>)\<rparr>,
      op_ChunkSize (tk_opts t))" and "0 < cs"
proof -
  have n: "NewChunkQueue (TotalSize pr) (op_ChunkSize (tk_opts t)) =
      Some \<lparr>chunks = layout cs (TotalSize pr) 0 0, completed = {}, failed = (\<lambda>_. 0)\<rparr>"
    using NewChunkQueue_any [of "TotalSize pr" "op_ChunkSize (tk_opts t)"] assms(1)
    by (simp add: layout_in_range_def cs_def)
  have u: "\<not> uses_both (t\<lparr>tk_engines := None, tk_single := NotBuilt, tk_splitAt := 0\<rparr>) (TotalSize pr) budget"
    using assms(4) by (simp add: uses_both_def)
  show "build_layout t pr budget = Some (t\<lparr>tk_engines := None, tk_single := NotBuilt, tk_splitAt := 0,
      tk_queue := Some (CQ \<lparr>chunks = layout cs (TotalSize pr) 0 0, completed = {}, failed = (\<lambda>_. 0)\<rparr>)\<rparr>,
      op_ChunkSize (tk_opts t))"
    using assms(2,3) u n by (simp add: build_layout_def layout_size_def single_queue_def Let_def)
  show "0 < cs" by (simp add: cs_def defaultChunkSize_def)
qed

lemma build_aria:
  assumes r: "layout_in_range (tk_opts t) (TotalSize pr)" "\<not> SingleStream pr" "op_Profile (tk_opts t) = ''aria2c''"
    and s: "AriaSplit (TotalSize pr) (op_Split (tk_opts t)) (op_MinSplitSize (tk_opts t)) = (n, seg)"
  shows "build_layout t pr budget = Some (t\<lparr>tk_engines := None, tk_single := NotBuilt, tk_splitAt := 0, tk_ariaSplit := n,
      tk_queue := Some (SQ \<lparr>sq_chunks = layout seg (TotalSize pr) 0 0, sq_next = 0, sq_done = {}\<rparr>)\<rparr>, seg)"
    and "0 < seg" "1 \<le> n" "n \<le> op_Split (tk_opts t)"
proof -
  obtain n' where n': "AriaSplit (TotalSize pr) (op_Split (tk_opts t)) (op_MinSplitSize (tk_opts t)) =
      (n', (TotalSize pr + n' - 1) div n')" "1 \<le> n'" "n' \<le> op_Split (tk_opts t)" "n' \<le> 2 ^ 31"
    using AriaSplit_any [of "TotalSize pr" "op_Split (tk_opts t)" "op_MinSplitSize (tk_opts t)"] r(1)
    unfolding layout_in_range_def by metis
  then have n: "n = n'" "seg = (TotalSize pr + n - 1) div n" using s by auto
  have q: "NewStaticQueue (TotalSize pr) n = Some \<lparr>sq_chunks = layout seg (TotalSize pr) 0 0, sq_next = 0, sq_done = {}\<rparr>"
    using NewStaticQueue_any [of "TotalSize pr" n] r(1) n n' by (simp add: layout_in_range_def)
  have u: "\<not> uses_both x (TotalSize pr) budget" if "tk_opts x = tk_opts t" for x
    using that r(3) by (simp add: uses_both_def)
  have pos: "0 < TotalSize pr" using r(1) by (simp add: layout_in_range_def)
  show "build_layout t pr budget = Some (t\<lparr>tk_engines := None, tk_single := NotBuilt, tk_splitAt := 0, tk_ariaSplit := n,
      tk_queue := Some (SQ \<lparr>sq_chunks = layout seg (TotalSize pr) 0 0, sq_next = 0, sq_done = {}\<rparr>)\<rparr>, seg)"
    using r(2,3) u q s pos by (simp add: build_layout_def layout_size_def single_queue_def Let_def)
  show "0 < seg" using ceil_div_bounds(1) [of "TotalSize pr" n] pos n n'(2) by simp
  show "1 \<le> n" "n \<le> op_Split (tk_opts t)" using n n' by auto
qed

lemma both_mid_bounds: "4 * 1024 * 1024 \<le> sz \<Longrightarrow> 1 \<le> both_mid sz \<and> both_mid sz < sz \<and> 2 * both_mid sz \<le> sz"
  using div_mult_mod_eq [of sz 2] pos_mod_sign [of 2 sz] pos_mod_bound [of 2 sz]
  by (simp add: both_mid_def sdiv_nonneg) linarith

lemma build_both:
  assumes r: "layout_in_range (tk_opts t) (TotalSize pr)" "\<not> SingleStream pr" "uses_both t (TotalSize pr) budget"
    and s: "AriaSplit (TotalSize pr - both_mid (TotalSize pr)) (op_Split (tk_opts t)) (op_MinSplitSize (tk_opts t)) = (n, seg)"
  defines "cs \<equiv> (if op_ChunkSize (tk_opts t) < 1 then defaultChunkSize else op_ChunkSize (tk_opts t))"
    and "mid \<equiv> both_mid (TotalSize pr)"
  shows "\<exists>t'. build_layout t pr budget = Some (t', op_ChunkSize (tk_opts t)) \<and> tk_opts t' = tk_opts t \<and> tk_probe t' = tk_probe t \<and>
      tk_splitAt t' = mid \<and> tk_ariaSplit t' = n \<and>
      tk_engines t' = Some (\<lparr>eng_q = CQ \<lparr>chunks = layout cs mid 0 0, completed = {}, failed = (\<lambda>_. 0)\<rparr>, eng_client = H1Client, eng_base = 0\<rparr>,
        \<lparr>eng_q = SQ \<lparr>sq_chunks = layout seg (TotalSize pr - mid) 0 0, sq_next = 0, sq_done = {}\<rparr>,
         eng_client = engineClient t True, eng_base = mid\<rparr>) \<and>
      tk_regionConns t' = (max 1 (budget sdiv 2), max 1 (budget - max 1 (budget sdiv 2)))"
    and "0 < cs" "0 < seg"
proof -
  have b: "1 \<le> mid" "mid < TotalSize pr" using both_mid_bounds [of "TotalSize pr"] r(3) by (auto simp: mid_def uses_both_def)
  have p: "op_Profile (tk_opts t) = ''both''" using r(3) by (simp add: uses_both_def)
  obtain n' where n': "AriaSplit (TotalSize pr - mid) (op_Split (tk_opts t)) (op_MinSplitSize (tk_opts t)) =
      (n', (TotalSize pr - mid + n' - 1) div n')" "1 \<le> n'" "n' \<le> 2 ^ 31"
    using AriaSplit_any [of "TotalSize pr - mid" "op_Split (tk_opts t)" "op_MinSplitSize (tk_opts t)"] r(1) b
    unfolding layout_in_range_def by (smt (verit))
  then have n: "n = n'" "seg = (TotalSize pr - mid + n - 1) div n" using s by (auto simp: mid_def)
  have q2: "NewStaticQueue (TotalSize pr - mid) n = Some \<lparr>sq_chunks = layout seg (TotalSize pr - mid) 0 0, sq_next = 0, sq_done = {}\<rparr>"
    using NewStaticQueue_any [of "TotalSize pr - mid" n] r(1) b n n' by (simp add: layout_in_range_def)
  have q1: "NewChunkQueue mid (op_ChunkSize (tk_opts t)) = Some \<lparr>chunks = layout cs mid 0 0, completed = {}, failed = (\<lambda>_. 0)\<rparr>"
    using NewChunkQueue_any [of mid "op_ChunkSize (tk_opts t)"] r(1) b by (simp add: layout_in_range_def cs_def)
  have u: "uses_both x (TotalSize pr) budget" if "tk_opts x = tk_opts t" for x
    using that r(3) by (simp add: uses_both_def)
  show "\<exists>t'. build_layout t pr budget = Some (t', op_ChunkSize (tk_opts t)) \<and> tk_opts t' = tk_opts t \<and> tk_probe t' = tk_probe t \<and>
      tk_splitAt t' = mid \<and> tk_ariaSplit t' = n \<and>
      tk_engines t' = Some (\<lparr>eng_q = CQ \<lparr>chunks = layout cs mid 0 0, completed = {}, failed = (\<lambda>_. 0)\<rparr>, eng_client = H1Client, eng_base = 0\<rparr>,
        \<lparr>eng_q = SQ \<lparr>sq_chunks = layout seg (TotalSize pr - mid) 0 0, sq_next = 0, sq_done = {}\<rparr>,
         eng_client = engineClient t True, eng_base = mid\<rparr>) \<and>
      tk_regionConns t' = (max 1 (budget sdiv 2), max 1 (budget - max 1 (budget sdiv 2)))"
    using r(2) p u q1 q2 s
    by (simp add: build_layout_def layout_size_def both_engines_def Let_def engineClient_def
        mid_def [unfolded both_mid_def] both_mid_def)
  show "0 < cs" by (simp add: cs_def defaultChunkSize_def)
  show "0 < seg" using ceil_div_bounds(1) [of "TotalSize pr - mid" n] b n n'(2) by simp
qed

subsection \<open>The layout covers the file\<close>

lemma layout_covers:
  assumes "layout_in_range (tk_opts t) (TotalSize pr)" "\<not> SingleStream pr"
  shows "\<exists>t' eff. build_layout t pr budget = Some (t', eff) \<and> tiles (task_spans t') 0 (TotalSize pr)"
proof (cases "uses_both t (TotalSize pr) budget")
  case True
  obtain n seg where s: "AriaSplit (TotalSize pr - both_mid (TotalSize pr)) (op_Split (tk_opts t)) (op_MinSplitSize (tk_opts t)) = (n, seg)"
    by (cases "AriaSplit (TotalSize pr - both_mid (TotalSize pr)) (op_Split (tk_opts t)) (op_MinSplitSize (tk_opts t))") auto
  have m: "1 \<le> both_mid (TotalSize pr)" "both_mid (TotalSize pr) < TotalSize pr"
    using both_mid_bounds [of "TotalSize pr"] True by (auto simp: uses_both_def)
  have a: "tiles (layout (if op_ChunkSize (tk_opts t) < 1 then defaultChunkSize else op_ChunkSize (tk_opts t)) (both_mid (TotalSize pr)) 0 0) 0 (both_mid (TotalSize pr))"
    using layout_tiles build_both(2) [OF assms True s] m by simp
  have b: "tiles (map (shift_chunk (both_mid (TotalSize pr))) (layout seg (TotalSize pr - both_mid (TotalSize pr)) 0 0)) (both_mid (TotalSize pr)) (TotalSize pr)"
    using tiles_shift [OF layout_tiles [of seg 0 "TotalSize pr - both_mid (TotalSize pr)" 0], of "both_mid (TotalSize pr)"]
      build_both(3) [OF assms True s] m by simp
  show ?thesis using build_both(1) [OF assms True s] tiles_append [OF a b] m by (auto simp: task_spans_def)
next
  case False
  show ?thesis
  proof (cases "op_Profile (tk_opts t) = ''aria2c''")
    case True
    obtain n seg where s: "AriaSplit (TotalSize pr) (op_Split (tk_opts t)) (op_MinSplitSize (tk_opts t)) = (n, seg)"
      by (cases "AriaSplit (TotalSize pr) (op_Split (tk_opts t)) (op_MinSplitSize (tk_opts t))") auto
    have "tiles (layout seg (TotalSize pr) 0 0) 0 (TotalSize pr)"
      using layout_tiles build_aria(2) [OF assms True s] assms(1) by (simp add: layout_in_range_def)
    then show ?thesis using build_aria(1) [OF assms True s] by (simp add: task_spans_def)
  next
    case f: False
    have "tiles (layout (if op_ChunkSize (tk_opts t) < 1 then defaultChunkSize else op_ChunkSize (tk_opts t)) (TotalSize pr) 0 0) 0 (TotalSize pr)"
      using layout_tiles build_single(2) [OF assms f False] assms(1) by (simp add: layout_in_range_def)
    then show ?thesis using build_single(1) [OF assms f False] by (simp add: task_spans_def)
  qed
qed

subsection \<open>Properties\<close>

text \<open>C9: the layout Start builds covers the file. For a ranged download with options in range the queue
  constructors return, and the chunks of the queue, or of both regions taken together at their
  absolute offsets, tile the bytes \<open>[0, TotalSize)\<close> with no gap and no overlap, whatever the profile.\<close>

lemma build_layout_tiles:
  assumes "layout_in_range (tk_opts t) (TotalSize pr)" "\<not> SingleStream pr"
  shows "\<exists>t' eff. build_layout t pr budget = Some (t', eff) \<and> tiles (task_spans t') 0 (TotalSize pr)"
  using assms by (rule layout_covers)

text \<open>A concrete task for the witnesses.\<close>

definition sample_opts :: "string \<Rightarrow> task_opts" where
  "sample_opts p = \<lparr>op_OutputName = [], op_Dir = ''.'', op_Retry = 3, op_RetryWait = 2, op_Continue = True, op_ChunkSize = 4194304,
     op_Timeout = 30, op_UserAgent = [], op_Checksum = [], op_TaskLimitRate = [], op_Profile = p, op_Split = 5,
     op_MinSplitSize = 1048576, op_MaxConnPerServer = 16, op_Collision = [], op_ChecksumURL = [], op_Mirrors = []\<rparr>"

definition sample_task :: "string \<Rightarrow> probe_result \<Rightarrow> task" where
  "sample_task p pr = \<lparr>tk_id = ''odm-001'', tk_url = ''u'', tk_opts = sample_opts p, tk_resumeETag = [], tk_probe = Some pr,
     tk_queue = None, tk_single = NotBuilt, tk_outPath = ''o'', tk_ariaSplit = 0, tk_engines = None, tk_regionConns = (0, 0), tk_splitAt = 0,
     tk_hasH2 = False, tk_bytesDone = 0, tk_speed = 0, tk_conns = 0, tk_state = StateQueued, tk_errors = 0, tk_retries = 0,
     tk_chunksSincePersist = 0, tk_lastPersist = None, tk_controlCreatedAt = None, tk_cancelled = False,
     tk_chunkHashes = (\<lambda>_. None), tk_connTarget = 0\<rparr>"

definition sample_probe :: "int \<Rightarrow> probe_result" where
  "sample_probe sz = (initial_probe ''u'')\<lparr>TotalSize := sz, SingleStream := False\<rparr>"

lemma build_layout_tiles_witness:
  "\<exists>t' eff. build_layout (sample_task ''both'' (sample_probe 10485760)) (sample_probe 10485760) 4 = Some (t', eff)
     \<and> tiles (task_spans t') 0 10485760"
  using build_layout_tiles [of "sample_task ''both'' (sample_probe 10485760)" "sample_probe 10485760" 4]
  by (simp add: sample_task_def sample_probe_def sample_opts_def layout_in_range_def)

lemma chunkSpan_shifted:
  assumes cs: "0 < cs" "cs \<le> 2 ^ 61" and d: "d \<in> set (layout cs len 0 0)"
    and b: "0 \<le> b" "0 \<le> len" "b + len \<le> TotalSize pr" "TotalSize pr \<le> 2 ^ 61" "\<not> SingleStream pr"
    and l: "layoutChunkSize t (b + Start d) = cs" and e: "b + len = TotalSize pr \<or> Start d + cs \<le> len"
  shows "chunkSpan t pr (b + Start d) = (b + Start d, b + End d)"
proof -
  have E: "End d = min (Start d + cs) len - 1" using layout_End [OF cs(1) d] .
  have t: "0 \<le> Start d" "Start d < len"
    using tiles_bounds [OF layout_tiles [OF cs(1), of 0 len 0] d] b by auto
  have w: "w64 (b + Start d + cs - 1) = b + Start d + cs - 1" by (rule w64_id) (use t b cs in simp_all)
  show ?thesis using E t l w b e by (simp only: chunkSpan_def Let_def) (auto simp: min_def)
qed

lemma AriaSplit_seg:
  assumes "0 < sz" "sz \<le> 2 ^ 61" "layout_in_range o' sz'" "AriaSplit sz (op_Split o') (op_MinSplitSize o') = (n, seg)"
  shows "seg \<le> 2 ^ 61"
proof -
  obtain n' where "seg = (sz + n' - 1) div n'" "1 \<le> n'"
    using AriaSplit_any [of sz "op_Split o'" "op_MinSplitSize o'"] assms by (auto simp: layout_in_range_def)
  then show ?thesis using seg_le [of sz n'] assms by simp
qed

lemma both_shape:
  assumes r: "layout_in_range (tk_opts t) (TotalSize pr)" "\<not> SingleStream pr" "tk_probe t = Some pr" "uses_both t (TotalSize pr) budget"
    and l: "build_layout t pr budget = Some (t', eff)"
  obtains mid cs seg where "1 \<le> mid" "mid < TotalSize pr" "TotalSize pr \<le> 2 ^ 61" "0 < cs" "cs \<le> 2 ^ 61" "0 < seg" "seg \<le> 2 ^ 61"
    "tk_splitAt t' = mid" "tk_engines t' \<noteq> None"
    "task_spans t' = layout cs mid 0 0 @ map (shift_chunk mid) (layout seg (TotalSize pr - mid) 0 0)"
    "\<forall>off. layoutChunkSize t' off = (if mid \<le> off then seg else cs)"
proof -
  define mid where "mid = both_mid (TotalSize pr)"
  define cs where "cs = (if op_ChunkSize (tk_opts t) < 1 then defaultChunkSize else op_ChunkSize (tk_opts t))"
  obtain n seg where s: "AriaSplit (TotalSize pr - mid) (op_Split (tk_opts t)) (op_MinSplitSize (tk_opts t)) = (n, seg)"
    by (cases "AriaSplit (TotalSize pr - mid) (op_Split (tk_opts t)) (op_MinSplitSize (tk_opts t))") auto
  note b = build_both [OF r(1,2,4) s [unfolded mid_def], folded mid_def cs_def]
  have m: "1 \<le> mid" "mid < TotalSize pr" using both_mid_bounds [of "TotalSize pr"] r(4) by (auto simp: mid_def uses_both_def)
  have z: "TotalSize pr \<le> 2 ^ 61" "cs \<le> 2 ^ 61" using r(1) by (auto simp: layout_in_range_def cs_def defaultChunkSize_def)
  have f: "tk_opts t' = tk_opts t" "tk_probe t' = Some pr" "tk_splitAt t' = mid" "tk_engines t' \<noteq> None"
    "task_spans t' = layout cs mid 0 0 @ map (shift_chunk mid) (layout seg (TotalSize pr - mid) 0 0)"
    using b(1) l r(3) by (auto simp: task_spans_def)
  have g: "region2ChunkSize t' = seg" using f s m by (simp add: region2ChunkSize_def probed_size_def)
  have "\<forall>off. layoutChunkSize t' off = (if mid \<le> off then seg else cs)"
    using f g b(3) r(4) by (simp add: layoutChunkSize_def cs_def uses_both_def)
  moreover have "seg \<le> 2 ^ 61" using AriaSplit_seg [OF _ _ r(1) s] m z by simp
  ultimately show ?thesis by (rule that [OF m z(1) b(2) z(2) b(3) _ f(3-5), rotated])
qed

lemma chunkSpan_both:
  assumes r: "layout_in_range (tk_opts t) (TotalSize pr)" "\<not> SingleStream pr" "tk_probe t = Some pr" "uses_both t (TotalSize pr) budget"
    and l: "build_layout t pr budget = Some (t', eff)" and c: "c \<in> set (task_spans t')"
    and ok: "Start c \<ge> tk_splitAt t' \<or> Start c + layoutChunkSize t' (Start c) \<le> tk_splitAt t'"
  shows "chunkSpan t' pr (Start c) = (Start c, End c)"
proof -
  obtain mid cs seg where f: "1 \<le> mid" "mid < TotalSize pr" "TotalSize pr \<le> 2 ^ 61" "0 < cs" "cs \<le> 2 ^ 61" "0 < seg" "seg \<le> 2 ^ 61"
    "tk_splitAt t' = mid" "tk_engines t' \<noteq> None"
    "task_spans t' = layout cs mid 0 0 @ map (shift_chunk mid) (layout seg (TotalSize pr - mid) 0 0)"
    "\<forall>off. layoutChunkSize t' off = (if mid \<le> off then seg else cs)"
    by (rule both_shape [OF r l]) (rule that; assumption)
  consider (one) "c \<in> set (layout cs mid 0 0)" | (two) d where "d \<in> set (layout seg (TotalSize pr - mid) 0 0)" "c = shift_chunk mid d"
    using c f(10) by auto
  then show ?thesis
  proof cases
    case one
    have t: "Start c < mid" using tiles_bounds [OF layout_tiles [OF f(4), of 0 mid 0] one] f(1) by auto
    have "layoutChunkSize t' (0 + Start c) = cs" "0 + mid = TotalSize pr \<or> Start c + cs \<le> mid"
      using t ok f(8,11) by auto
    then show ?thesis using chunkSpan_shifted [OF f(4,5) one, of 0 pr t'] f(1-3) r(2) by simp
  next
    case two
    have "0 \<le> Start d" using tiles_bounds [OF layout_tiles [OF f(6), of 0 "TotalSize pr - mid" 0] two(1)] f(2) by auto
    then show ?thesis using chunkSpan_shifted [OF f(6,7) two(1), of mid pr t'] two(2) f(1-3,11) r(2) by (simp add: shift_chunk_def)
  qed
qed

text \<open>Where the arithmetic goes wrong: the last chunk of region 1, cut short by the boundary.\<close>

lemma chunkSpan_overrun:
  assumes r: "layout_in_range (tk_opts t) (TotalSize pr)" "\<not> SingleStream pr" "tk_probe t = Some pr" "uses_both t (TotalSize pr) budget"
    and l: "build_layout t pr budget = Some (t', eff)" and c: "c \<in> set (task_spans t')"
    and over: "Start c < tk_splitAt t'" "tk_splitAt t' < Start c + layoutChunkSize t' (Start c)"
  shows "End c = tk_splitAt t' - 1" "tk_splitAt t' \<le> snd (chunkSpan t' pr (Start c))"
proof -
  obtain mid cs seg where f: "1 \<le> mid" "mid < TotalSize pr" "TotalSize pr \<le> 2 ^ 61" "0 < cs" "cs \<le> 2 ^ 61" "0 < seg" "seg \<le> 2 ^ 61"
    "tk_splitAt t' = mid" "tk_engines t' \<noteq> None"
    "task_spans t' = layout cs mid 0 0 @ map (shift_chunk mid) (layout seg (TotalSize pr - mid) 0 0)"
    "\<forall>off. layoutChunkSize t' off = (if mid \<le> off then seg else cs)"
    by (rule both_shape [OF r l]) (rule that; assumption)
  have "0 \<le> Start d" if "d \<in> set (layout seg (TotalSize pr - mid) 0 0)" for d
    using tiles_bounds [OF layout_tiles [OF f(6), of 0 "TotalSize pr - mid" 0] that] f(2) by auto
  then have one: "c \<in> set (layout cs mid 0 0)" using c f(8,10) over(1) by (fastforce simp: shift_chunk_def)
  have t: "0 \<le> Start c" using tiles_bounds [OF layout_tiles [OF f(4), of 0 mid 0] one] f(1) by auto
  show "End c = tk_splitAt t' - 1" using layout_End [OF f(4) one] over f(8,11) by simp
  have "w64 (Start c + cs - 1) = Start c + cs - 1" by (rule w64_id) (use t over(1) f(1-5,8) in simp_all)
  then show "tk_splitAt t' \<le> snd (chunkSpan t' pr (Start c))"
    using over f(1-5,8,11) r(2) by (auto simp: chunkSpan_def Let_def)
qed

lemma chunkSpan_one_region:
  assumes r: "layout_in_range (tk_opts t) (TotalSize pr)" "\<not> SingleStream pr" "tk_probe t = Some pr" "\<not> uses_both t (TotalSize pr) budget"
    and l: "build_layout t pr budget = Some (t', eff)" and c: "c \<in> set (task_spans t')"
  shows "chunkSpan t' pr (Start c) = (Start c, End c)"
proof -
  have pos: "0 < TotalSize pr" "TotalSize pr \<le> 2 ^ 61" using r(1) by (auto simp: layout_in_range_def)
  show ?thesis
  proof (cases "op_Profile (tk_opts t) = ''aria2c''")
    case True
    obtain n seg where s: "AriaSplit (TotalSize pr) (op_Split (tk_opts t)) (op_MinSplitSize (tk_opts t)) = (n, seg)"
      by (cases "AriaSplit (TotalSize pr) (op_Split (tk_opts t)) (op_MinSplitSize (tk_opts t))") auto
    note b = build_aria [OF r(1,2) True s]
    have f: "tk_opts t' = tk_opts t" "tk_probe t' = Some pr" "tk_engines t' = None" "tk_ariaSplit t' = n"
      "task_spans t' = layout seg (TotalSize pr) 0 0" using b(1) l r(3) by (auto simp: task_spans_def)
    have ls: "layoutChunkSize t' (Start c) = seg"
      using f True s b(2,3) pos by (simp add: layoutChunkSize_def effectiveChunkSize_def probed_size_def)
    have cc: "c \<in> set (layout seg (TotalSize pr) 0 0)" using c f(5) by simp
    show ?thesis using chunkSpan_shifted [OF b(2) AriaSplit_seg [OF pos r(1) s] cc, of 0 pr t'] ls pos r(2) by simp
  next
    case False
    define cs where "cs = (if op_ChunkSize (tk_opts t) < 1 then defaultChunkSize else op_ChunkSize (tk_opts t))"
    note b = build_single [OF r(1,2) False r(4), folded cs_def]
    have f: "tk_opts t' = tk_opts t" "tk_engines t' = None" and cc: "c \<in> set (layout cs (TotalSize pr) 0 0)"
      using b(1) l c by (auto simp: task_spans_def)
    have ls: "layoutChunkSize t' (Start c) = cs" using f False by (simp add: layoutChunkSize_def cs_def)
    have z: "cs \<le> 2 ^ 61" using r(1) by (auto simp: layout_in_range_def cs_def defaultChunkSize_def)
    show ?thesis using chunkSpan_shifted [OF b(2) z cc, of 0 pr t'] ls pos r(2) by simp
  qed
qed



text \<open>the last chunk of region 1 of the both profile is not covered by that agreement: for a 10 MiB file
  and 4 MiB chunks region 1 ends at 5 MiB, its second chunk is \<open>[4 MiB, 5 MiB)\<close>, and \<open>chunkSpan\<close> answers
  \<open>[4 MiB, 8 MiB)\<close>, so the hash check of a resume reads three megabytes of the other region and
  rejects data that is intact.\<close>

lemma chunkSpan_region1_overrun:
  "case build_layout (sample_task ''both'' (sample_probe 10485760)) (sample_probe 10485760) 4 of None \<Rightarrow> False
   | Some r \<Rightarrow> \<lparr>Index = 1, Start = 4194304, End = 5242879\<rparr> \<in> set (task_spans (fst r))
       \<and> chunkSpan (fst r) (sample_probe 10485760) 4194304 = (4194304, 8388607)"
proof -
  let ?pr = "sample_probe 10485760" let ?t = "sample_task ''both'' ?pr"
  have m: "both_mid 10485760 = 5242880" by (simp add: both_mid_def sdiv_nonneg)
  have s: "AriaSplit (TotalSize ?pr - both_mid (TotalSize ?pr)) (op_Split (tk_opts ?t)) (op_MinSplitSize (tk_opts ?t)) = (2, 2621440)"
    by (simp add: m sample_task_def sample_probe_def sample_opts_def AriaSplit_def max_int64_def w64_def sdiv_nonneg)
  have r: "layout_in_range (tk_opts ?t) (TotalSize ?pr)" "\<not> SingleStream ?pr" "uses_both ?t (TotalSize ?pr) 4"
    by (simp_all add: sample_task_def sample_probe_def sample_opts_def layout_in_range_def uses_both_def)
  have l: "layout 4194304 5242880 0 0 = [\<lparr>Index = 0, Start = 0, End = 4194303\<rparr>, \<lparr>Index = 1, Start = 4194304, End = 5242879\<rparr>]"
    by (simp add: layout.simps)
  obtain t' eff where b: "build_layout ?t ?pr 4 = Some (t', eff)" "tk_opts t' = tk_opts ?t" "tk_splitAt t' = 5242880"
      "\<lparr>Index = 1, Start = 4194304, End = 5242879\<rparr> \<in> set (task_spans t')"
    using build_both(1) [OF r s] m l by (auto simp: task_spans_def sample_task_def sample_probe_def sample_opts_def)
  then show ?thesis
    by (simp add: chunkSpan_def layoutChunkSize_def sample_task_def sample_probe_def sample_opts_def)
qed

end
