(* ===== verification/Rate_Limiter.thy ===== *)
theory Rate_Limiter imports Go_Prelude Complex_Main begin

section \<open>The global rate limiter (internal/ratelimit/bucket.go)\<close>

text \<open>
  The limiter's state and every operation on it, and \<open>ParseRate\<close> down to float64 rounding. The
  token bucket of golang.org/x/time/rate is its configuration, the pair of limit and burst; a wait
  on it is the number of tokens asked for. Time is nanoseconds passed in by the caller. float64
  values are the rationals they denote; \<open>f64\<close> rounds to nearest even at 53 bits.
\<close>

subsection \<open>float64\<close>

fun bit_length :: "nat \<Rightarrow> nat" where
  "bit_length n = (if n = 0 then 0 else Suc (bit_length (n div 2)))"

declare bit_length.simps [simp del]

definition pow2 :: "int \<Rightarrow> rat" where
  "pow2 e = (if 0 \<le> e then 2 ^ nat e else 1 / 2 ^ nat (- e))"

definition floor_log2 :: "rat \<Rightarrow> int" where
  "floor_log2 x =
     (case quotient_of x of (n, d) \<Rightarrow>
        let k = int (bit_length (nat n)) - int (bit_length (nat d))
        in if pow2 k \<le> x then k else k - 1)"

definition round_even :: "rat \<Rightarrow> int" where
  "round_even y =
     (let f = floor y; r = y - of_int f
      in if r < 1 / 2 then f else if r > 1 / 2 then f + 1 else if even f then f else f + 1)"

definition f64 :: "rat \<Rightarrow> rat" where
  "f64 x =
     (if x \<le> 0 then 0
      else let e = max (- 1074) (floor_log2 x - 52) in of_int (round_even (x / pow2 e)) * pow2 e)"

definition max_float64 :: rat where
  "max_float64 = (2 ^ 53 - 1) * 2 ^ 971"

text \<open>Rounding with a sign, and the conversion of a float64 to int: truncation, and the least int64 out of range (amd64).\<close>

definition to_float :: "rat \<Rightarrow> rat" where
  "to_float x = (if x < 0 then - f64 (- x) else f64 x)"

definition int_of_float :: "rat \<Rightarrow> int" where
  "int_of_float x =
     (let i = (if x < 0 then - floor (- x) else floor x) in if - (2 ^ 63) \<le> i \<and> i < 2 ^ 63 then i else - (2 ^ 63))"

text \<open>
  strconv.ParseFloat for the forms the sources meet: an optional sign, decimal digits with an
  optional point and an optional decimal exponent, inf, infinity and nan. Hexadecimal floats and
  underscores are errors here.
\<close>

datatype float64 = Fin rat | NegFin rat | Inf | NaN

definition split_at :: "(char \<Rightarrow> bool) \<Rightarrow> string \<Rightarrow> string \<times> string option" where
  "split_at p s = (takeWhile (\<lambda>c. \<not> p c) s,
     case dropWhile (\<lambda>c. \<not> p c) s of [] \<Rightarrow> None | _ # r \<Rightarrow> Some r)"

definition digits_value :: "string \<Rightarrow> nat option" where
  "digits_value s = parse_digits 0 s"

definition parse_exponent :: "string option \<Rightarrow> int option" where
  "parse_exponent e =
     (case e of None \<Rightarrow> Some 0
      | Some s \<Rightarrow>
          (let (neg, b) = (case s of [] \<Rightarrow> (False, []) | c # cs \<Rightarrow>
                 if c = CHR ''-'' then (True, cs) else if c = CHR ''+'' then (False, cs) else (False, s))
           in if b = [] then None
              else map_option (\<lambda>n. if neg then - int n else int n) (digits_value b)))"

definition pow10 :: "int \<Rightarrow> rat" where
  "pow10 e = (if 0 \<le> e then 10 ^ nat e else 1 / 10 ^ nat (- e))"

definition parse_decimal :: "string \<Rightarrow> rat option" where
  "parse_decimal s =
     (case split_at (\<lambda>c. c = CHR ''e'' \<or> c = CHR ''E'') s of (mant, ex) \<Rightarrow>
        case split_at (\<lambda>c. c = CHR ''.'') mant of (ip, fp) \<Rightarrow>
          let frac = (case fp of None \<Rightarrow> [] | Some f \<Rightarrow> f)
          in if ip @ frac = [] then None
             else case (digits_value (ip @ frac), parse_exponent ex) of
               (Some n, Some e) \<Rightarrow> Some (of_nat n * pow10 (e - int (length frac)))
             | _ \<Rightarrow> None)"

definition ParseFloat :: "string \<Rightarrow> float64 option" where
  "ParseFloat s =
     (let (neg, b) = (case s of [] \<Rightarrow> (False, []) | c # cs \<Rightarrow>
            if c = CHR ''-'' then (True, cs) else if c = CHR ''+'' then (False, cs) else (False, s))
      in if equal_fold b ''inf'' \<or> equal_fold b ''infinity'' then Some Inf
         else if equal_fold s ''nan'' then Some NaN
         else case parse_decimal b of
           None \<Rightarrow> None
         | Some q \<Rightarrow> let v = f64 q in
             if v > max_float64 then None else if neg \<and> 0 < v then Some (NegFin v) else Some (Fin v))"

subsection \<open>ParseRate\<close>

datatype rate_error = EmptyRate | InvalidRate | RateOverflow | ExceedsPlatformInt | ExceedsBurst

definition rate_suffix :: "string \<Rightarrow> int \<times> nat" where
  "rate_suffix u =
     (if has_suffix u ''KB'' then (1024, 2)
      else if has_suffix u ''K'' then (1024, 1)
      else if has_suffix u ''MB'' then (1024 * 1024, 2)
      else if has_suffix u ''M'' then (1024 * 1024, 1)
      else if has_suffix u ''GB'' then (1024 * 1024 * 1024, 2)
      else if has_suffix u ''G'' then (1024 * 1024 * 1024, 1)
      else if has_suffix u ''TB'' then (1024 * 1024 * 1024 * 1024, 2)
      else if has_suffix u ''T'' then (1024 * 1024 * 1024 * 1024, 1)
      else (1, 0))"

text \<open>The conversion int64(x) of a float64: a value out of range gives the least int64, as the
  amd64 instruction does (Go leaves it to the platform).\<close>

definition int64_of_float :: "rat \<Rightarrow> int" where
  "int64_of_float x = (if floor x < 2 ^ 63 then floor x else - (2 ^ 63))"

definition ParseRate :: "string \<Rightarrow> rate_error + int" where
  "ParseRate spec =
     (let s = trim_space spec
      in if s = [] then Inl EmptyRate
         else
           let s1 = (if has_suffix s ''/s'' \<or> has_suffix s ''/S''
                     then trim_space (take (length s - 2) s) else s);
               (mult, trim) = rate_suffix (to_upper s1);
               s2 = trim_space (if trim > 0 then take (length s1 - trim) s1 else s1)
           in case ParseFloat s2 of
                None \<Rightarrow> Inl InvalidRate
              | Some Inf \<Rightarrow> Inl InvalidRate
              | Some NaN \<Rightarrow> Inl InvalidRate
              | Some (NegFin v) \<Rightarrow> Inl InvalidRate
              | Some (Fin v) \<Rightarrow>
                  if v > f64 (of_int max_int64) / of_int mult then Inl RateOverflow
                  else let bps = int64_of_float (f64 (v * of_int mult))
                       in if bps > max_int64 then Inl ExceedsPlatformInt else Inr bps)"

subsection \<open>The limiter\<close>

record limiter =
  lr :: "(int \<times> int) option"
  bytes :: int
  configured :: int
  cooldownUntil :: int

definition off_limiter :: limiter where
  "off_limiter = \<lparr>lr = None, bytes = 0, configured = 0, cooldownUntil = 0\<rparr>"

definition off_spec :: "string \<Rightarrow> bool" where
  "off_spec spec \<longleftrightarrow> spec = [] \<or> equal_fold spec ''off'' \<or> spec = ''0''"

definition New_Limiter :: "string \<Rightarrow> rate_error + limiter" where
  "New_Limiter spec0 =
     (let spec = trim_space spec0
      in if off_spec spec then Inr off_limiter
         else case ParseRate spec of
           Inl e \<Rightarrow> Inl e
         | Inr bps \<Rightarrow>
             if bps \<le> 0 then Inr off_limiter
             else if bps > max_int64 then Inl ExceedsBurst
             else Inr \<lparr>lr = Some (bps, bps), bytes = bps, configured = bps, cooldownUntil = 0\<rparr>)"

declare off_spec_def [go_eval] New_Limiter_def [go_eval]

definition Unlimited :: "limiter option \<Rightarrow> bool" where
  "Unlimited l = (case l of None \<Rightarrow> True | Some x \<Rightarrow> lr x = None)"

definition minAdaptiveBps :: int where
  "minAdaptiveBps = 64 * 1024"

definition adaptiveCooldown :: int where
  "adaptiveCooldown = 30 * 10 ^ 9"

definition setBytes :: "int \<Rightarrow> limiter \<Rightarrow> limiter" where
  "setBytes bps l = l\<lparr>bytes := bps, lr := Some (bps, bps)\<rparr>"

definition BackOffSignal :: "int \<Rightarrow> limiter \<Rightarrow> bool \<times> limiter" where
  "BackOffSignal now l =
     (let cur = bytes l
      in if cur \<le> 0 then (False, l)
         else let half = (if cur sdiv 2 < minAdaptiveBps then minAdaptiveBps else cur sdiv 2)
              in if half = cur then (False, l)
                 else (True, (setBytes half l)\<lparr>cooldownUntil := now + adaptiveCooldown\<rparr>))"

definition ResetRate :: "limiter \<Rightarrow> limiter" where
  "ResetRate l = (if configured l > 0 \<and> bytes l \<noteq> configured l then setBytes (configured l) l else l)"

definition ThrottleOK :: "int \<Rightarrow> limiter \<Rightarrow> limiter" where
  "ThrottleOK now l =
     (if cooldownUntil l = 0 \<or> now < cooldownUntil l then l
      else ResetRate (l\<lparr>cooldownUntil := 0\<rparr>))"

definition SetRate :: "string \<Rightarrow> limiter \<Rightarrow> rate_error option \<times> limiter" where
  "SetRate spec0 l =
     (let spec = trim_space spec0;
          off = l\<lparr>lr := None, bytes := 0, cooldownUntil := 0\<rparr>
      in if off_spec spec then (None, off)
         else case ParseRate spec of
           Inl e \<Rightarrow> (Some e, l)
         | Inr bps \<Rightarrow>
             if bps \<le> 0 then (None, off)
             else if bps > max_int64 then (Some ExceedsBurst, l)
             else (None, l\<lparr>bytes := bps, configured := bps, cooldownUntil := 0, lr := Some (bps, bps)\<rparr>))"

text \<open>The number of tokens \<open>Acquire\<close> waits for, None when it returns at once.\<close>

definition Acquire :: "int \<Rightarrow> limiter \<Rightarrow> int option" where
  "Acquire n l =
     (if n \<le> 0 then None
      else case lr l of None \<Rightarrow> None | Some (limit, burst) \<Rightarrow> Some (min n burst))"

text \<open>\<open>RateReader.Read\<close>: the bytes the source returned and the tokens charged for them.\<close>

definition RateReader_Read :: "int \<Rightarrow> limiter \<Rightarrow> int \<times> int option" where
  "RateReader_Read n l = (n, if n > 0 then Acquire n l else None)"

subsection \<open>Integers are read exactly\<close>

lemma bit_length_less: "n < 2 ^ k \<Longrightarrow> bit_length n \<le> k"
proof (induction k arbitrary: n)
  case 0
  then show ?case by (simp add: bit_length.simps)
next
  case (Suc k)
  show ?case
  proof (cases "n = 0")
    case True
    then show ?thesis by (simp add: bit_length.simps)
  next
    case False
    with Suc.IH [of "n div 2"] Suc.prems show ?thesis by (subst bit_length.simps) (simp add: less_mult_imp_div_less mult.commute)
  qed
qed

lemma bit_length_greater: "2 ^ k \<le> n \<Longrightarrow> k < bit_length n"
proof (induction k arbitrary: n)
  case 0
  then show ?case by (subst bit_length.simps) simp
next
  case (Suc k)
  then have "2 ^ k \<le> n div 2" by simp
  moreover have "0 < n" using Suc.prems by (metis less_le_trans pos2 zero_less_power)
  ultimately show ?case using Suc.IH [of "n div 2"] by (subst bit_length.simps) simp
qed

lemma bit_length_1: "bit_length (Suc 0) = 1"
  by (simp add: bit_length.simps [of "Suc 0"] bit_length.simps [of 0])

lemma floor_log2_nat: "n < 2 ^ 53 \<Longrightarrow> floor_log2 (of_nat n) \<le> 52"
proof -
  assume "n < 2 ^ 53"
  then have "bit_length n \<le> 53" by (rule bit_length_less)
  moreover have "quotient_of (of_nat n) = (int n, 1)" using quotient_of_int [unfolded Rat.of_int_def, of "int n"] by simp
  ultimately show ?thesis by (simp add: floor_log2_def Let_def bit_length_1)
qed

lemma pow2_neg: "e \<le> 0 \<Longrightarrow> x / pow2 e = x * 2 ^ nat (- e)"
  by (cases "e = 0") (auto simp: pow2_def)

lemma round_even_of_int: "round_even (of_int i) = i"
  unfolding round_even_def floor_of_int Let_def by simp

lemma f64_nat: "n < 2 ^ 53 \<Longrightarrow> f64 (of_nat n) = of_nat n"
proof (cases "n = 0")
  case False
  assume n: "n < 2 ^ 53"
  define e where "e = max (- 1074) (floor_log2 (of_nat n) - 52)"
  have e: "e \<le> 0" using floor_log2_nat [OF n] by (simp add: e_def)
  have d: "of_nat n / pow2 e = of_int (int (n * 2 ^ nat (- e)))" by (simp add: pow2_neg [OF e])
  have p: "pow2 e \<noteq> 0" by (simp add: pow2_def)
  have "round_even (of_nat n / pow2 e) = int (n * 2 ^ nat (- e))" unfolding d by (rule round_even_of_int)
  then have "of_int (round_even (of_nat n / pow2 e)) * pow2 e = of_nat n"
    using d p by (metis nonzero_eq_divide_eq)
  then show ?thesis using False by (simp add: f64_def e_def Let_def)
qed (simp add: f64_def)

definition digit_string :: "string \<Rightarrow> bool" where
  "digit_string s \<longleftrightarrow> s \<noteq> [] \<and> (\<forall>c \<in> set s. digit_val c \<noteq> None)"

lemma nat_digits_digit_string: "digit_string (nat_digits n)"
proof (induction n rule: nat_digits.induct)
  case (1 n)
  then show ?case by (subst nat_digits.simps) (auto simp: digit_string_def)
qed

lemma digit_val_chars:
  "digit_val c \<noteq> None \<Longrightarrow> \<not> is_space c \<and> to_upper_char c = c \<and> to_lower_char c = c \<and> c \<noteq> CHR ''-'' \<and> c \<noteq> CHR ''+'' \<and>
   c \<noteq> CHR ''e'' \<and> c \<noteq> CHR ''E'' \<and> c \<noteq> CHR ''.'' \<and> c \<notin> set ''BKMGTsSonia''"
  by (auto simp: digit_val_def is_space_def to_upper_char_def to_lower_char_def Let_def split: if_splits)

lemma digit_string_facts:
  assumes "digit_string s"
  shows "trim_space s = s" "to_upper s = s" "to_lower s = s" "parse_decimal s = map_option of_nat (digits_value s)"
    "s \<noteq> []" "hd s \<noteq> CHR ''-''" "hd s \<noteq> CHR ''+''" "last s \<notin> set ''BKMGTsSonia''" "hd s \<notin> set ''BKMGTsSonia''"
proof -
  have c: "c \<in> set s \<Longrightarrow> digit_val c \<noteq> None" for c using assms by (auto simp: digit_string_def)
  show ne: "s \<noteq> []" using assms by (auto simp: digit_string_def)
  note f = digit_val_chars [OF c]
  show "trim_space s = s" using f [OF hd_in_set [OF ne]] f [OF last_in_set [OF ne]] ne by (intro trim_id) auto
  show "to_upper s = s" "to_lower s = s" using f by (auto simp: to_upper_def to_lower_def intro!: map_idI)
  have sp: "split_at p s = (s, None)" if "\<forall>c \<in> set s. \<not> p c" for p
  proof -
    have a: "takeWhile (\<lambda>c. \<not> p c) s = s" and b: "dropWhile (\<lambda>c. \<not> p c) s = []" using that by auto
    show ?thesis unfolding split_at_def a b by simp
  qed
  have "split_at (\<lambda>c. c = CHR ''e'' \<or> c = CHR ''E'') s = (s, None)" "split_at (\<lambda>c. c = CHR ''.'') s = (s, None)"
    using f by (intro sp; auto)+
  then show "parse_decimal s = map_option of_nat (digits_value s)"
    using ne by (simp add: parse_decimal_def parse_exponent_def pow10_def split: option.splits)
  show "hd s \<noteq> CHR ''-''" "hd s \<noteq> CHR ''+''" "hd s \<notin> set ''BKMGTsSonia''" using f [OF hd_in_set [OF ne]] by auto
  show "last s \<notin> set ''BKMGTsSonia''" using f [OF last_in_set [OF ne]] by auto
qed

lemma ParseFloat_nat: "n < 2 ^ 53 \<Longrightarrow> ParseFloat (nat_digits n) = Some (Fin (of_nat n))"
proof -
  assume n: "n < 2 ^ 53"
  note d = digit_string_facts [OF nat_digits_digit_string [of n]]
  obtain c s where c: "nat_digits n = c # s" using d(5) by (cases "nat_digits n") auto
  have low: "to_lower ''inf'' = ''inf''" "to_lower ''infinity'' = ''infinity''" "to_lower ''nan'' = ''nan''"
    by (simp_all add: to_lower_def to_lower_char_def)
  have "parse_decimal (nat_digits n) = Some (of_nat n)"
    by (simp add: d(4) digits_value_def parse_digits_nat_digits)
  moreover have "\<not> equal_fold (nat_digits n) ''inf''" "\<not> equal_fold (nat_digits n) ''infinity''"
      "\<not> equal_fold (nat_digits n) ''nan''"
    unfolding equal_fold_def d(3) low using d(9) by (auto simp: c)
  moreover have "of_nat n \<le> max_float64"
  proof -
    have "(of_nat n :: rat) \<le> of_nat (2 ^ 53 - 1)" using n by (intro of_nat_mono) simp
    also have "\<dots> \<le> max_float64" by (simp add: max_float64_def)
    finally show ?thesis .
  qed
  ultimately show ?thesis using d(6,7) by (simp add: ParseFloat_def c f64_nat [OF n])
qed

subsection \<open>Suffixes\<close>

definition rate_units :: "(string \<times> int) list" where
  "rate_units =
     [([], 1), (''K'', 1024), (''KB'', 1024), (''M'', 1024 ^ 2), (''MB'', 1024 ^ 2), (''G'', 1024 ^ 3),
      (''GB'', 1024 ^ 3), (''T'', 1024 ^ 4), (''TB'', 1024 ^ 4), (''k'', 1024), (''mb'', 1024 ^ 2)]"

lemma to_upper_units:
  "to_upper [] = []" "to_upper ''K'' = ''K''" "to_upper ''KB'' = ''KB''" "to_upper ''M'' = ''M''" "to_upper ''MB'' = ''MB''"
  "to_upper ''G'' = ''G''" "to_upper ''GB'' = ''GB''" "to_upper ''T'' = ''T''" "to_upper ''TB'' = ''TB''"
  "to_upper ''k'' = ''K''" "to_upper ''mb'' = ''MB''"
  by code_simp+

lemma rate_suffix_unit:
  assumes d: "digit_string s" and u: "(u, m) \<in> set rate_units"
  shows "rate_suffix (to_upper (s @ u)) = (m, length u)"
    and "\<not> has_suffix (s @ u) ''/s''" "\<not> has_suffix (s @ u) ''/S''" "trim_space (s @ u) = s @ u"
proof -
  note f = digit_string_facts [OF d]
  have up: "to_upper (s @ u) = s @ to_upper u" using f(2) by (simp add: to_upper_def)
  obtain e r where r: "rev s = e # r" using f(5) by (cases "rev s") auto
  have e: "e \<notin> set ''BKMGTsS''" using f(8) arg_cong [OF r, of hd] by (simp add: hd_rev)
  show "rate_suffix (to_upper (s @ u)) = (m, length u)"
    using u e unfolding rate_units_def list.set insert_iff empty_iff prod.inject up
    by (elim disjE conjE FalseE; simp only: to_upper_units; simp add: rate_suffix_def has_suffix_def r)
  show "\<not> has_suffix (s @ u) ''/s''" "\<not> has_suffix (s @ u) ''/S''"
    using u e unfolding rate_units_def list.set insert_iff empty_iff prod.inject
    by (elim disjE conjE FalseE; simp add: has_suffix_def r)+
  have sp: "\<not> is_space c" if "c \<in> set s" for c using that d digit_val_chars [of c] by (auto simp: digit_string_def)
  have "\<not> is_space (last (s @ u))"
  proof (cases "u = []")
    case True
    then show ?thesis using sp [OF last_in_set [OF f(5)]] by simp
  next
    case False
    then have "last u \<in> set ''KBMGTkb''" using u by (auto simp: rate_units_def)
    then show ?thesis using False by (auto simp: is_space_def)
  qed
  then show "trim_space (s @ u) = s @ u" using f(5) sp [OF hd_in_set [OF f(5)]] by (intro trim_id) auto
qed

lemma f64_max_int64: "f64 (of_int max_int64) = 2 ^ 63"
proof -
  have q: "quotient_of (of_int max_int64) = (max_int64, 1)"
    using quotient_of_int [unfolded Rat.of_int_def, of max_int64] .
  have "bit_length (nat max_int64) = 63"
    using bit_length_less [of "nat max_int64" 63] bit_length_greater [of 62 "nat max_int64"]
    by (simp add: max_int64_def)
  then have l: "floor_log2 (of_int max_int64) = 62"
    by (simp add: floor_log2_def q bit_length_1) (simp add: pow2_def max_int64_def)
  have "(of_int max_int64 :: rat) / pow2 10 = 9007199254740991 + 1023 / 1024"
    by (simp add: max_int64_def pow2_def)
  moreover have "round_even (9007199254740991 + 1023 / 1024) = 9007199254740992"
  proof -
    have "floor (9007199254740991 + 1023 / 1024 :: rat) = 9007199254740991" by linarith
    then show ?thesis by (simp add: round_even_def)
  qed
  ultimately show ?thesis using l by (simp add: f64_def pow2_def) (simp add: max_int64_def)
qed

lemma ParseRate_digits:
  assumes "n < 2 ^ 53" and u: "(u, m) \<in> set rate_units"
  shows "ParseRate (nat_digits n @ u) =
    (if of_nat n > 2 ^ 63 / (of_int m :: rat) then Inl RateOverflow
     else if int64_of_float (f64 (of_nat n * of_int m)) > max_int64 then Inl ExceedsPlatformInt
     else Inr (int64_of_float (f64 (of_nat n * of_int m))))"
proof -
  note d = nat_digits_digit_string [of n]
  note r = rate_suffix_unit [OF d u]
  have t: "(if 0 < length u then take (length (nat_digits n @ u) - length u) (nat_digits n @ u) else nat_digits n @ u)
      = nat_digits n" by simp
  have ne: "(nat_digits n @ u = []) = False" by simp
  have pre: "(if has_suffix (nat_digits n @ u) ''/s'' \<or> has_suffix (nat_digits n @ u) ''/S''
      then trim_space (take (length (nat_digits n @ u) - 2) (nat_digits n @ u)) else nat_digits n @ u) = nat_digits n @ u"
    using r(2,3) by simp
  show ?thesis
    unfolding ParseRate_def Let_def r(4) ne if_False pre r(1) prod.case t digit_string_facts(1) [OF d]
      ParseFloat_nat [OF assms(1)] f64_max_int64 option.case float64.case of_int_of_nat_eq ..
qed

subsection \<open>The limiter's invariant\<close>

text \<open>The bucket is present exactly when the rate is positive, and holds that rate as its limit and
  its burst; a cooldown runs only on a configured limiter.\<close>

definition limiter_ok :: "limiter \<Rightarrow> bool" where
  "limiter_ok l \<longleftrightarrow> 0 \<le> bytes l \<and> 0 \<le> configured l \<and>
     lr l = (if bytes l = 0 then None else Some (bytes l, bytes l)) \<and>
     (0 < bytes l \<longrightarrow> 0 < configured l) \<and> (cooldownUntil l \<noteq> 0 \<longrightarrow> 0 < bytes l)"

inductive limiter_reachable :: "limiter \<Rightarrow> bool" where
  new: "New_Limiter spec = Inr l \<Longrightarrow> limiter_reachable l"
| set_rate: "limiter_reachable l \<Longrightarrow> limiter_reachable (snd (SetRate spec l))"
| back_off: "limiter_reachable l \<Longrightarrow> limiter_reachable (snd (BackOffSignal now l))"
| throttle: "limiter_reachable l \<Longrightarrow> limiter_reachable (ThrottleOK now l)"
| reset: "limiter_reachable l \<Longrightarrow> limiter_reachable (ResetRate l)"

lemma New_Limiter_ok: "New_Limiter spec = Inr l \<Longrightarrow> limiter_ok l"
  by (auto simp: New_Limiter_def Let_def limiter_ok_def off_limiter_def split: if_splits sum.splits)

lemma SetRate_ok: "limiter_ok l \<Longrightarrow> limiter_ok (snd (SetRate spec l))"
  by (cases "ParseRate (trim_space spec)"; cases "off_spec (trim_space spec)")
     (auto simp: SetRate_def Let_def limiter_ok_def)

lemma BackOffSignal_cases:
  "snd (BackOffSignal now l) = l \<or>
   (\<exists>h. minAdaptiveBps \<le> h \<and> 0 < bytes l \<and>
      snd (BackOffSignal now l) = (setBytes h l)\<lparr>cooldownUntil := now + adaptiveCooldown\<rparr>)"
proof -
  define h where "h = (if bytes l sdiv 2 < minAdaptiveBps then minAdaptiveBps else bytes l sdiv 2)"
  have "minAdaptiveBps \<le> h" by (simp add: h_def)
  moreover have "snd (BackOffSignal now l) =
      (if bytes l \<le> 0 \<or> h = bytes l then l else (setBytes h l)\<lparr>cooldownUntil := now + adaptiveCooldown\<rparr>)"
    unfolding BackOffSignal_def Let_def h_def [symmetric] by simp
  ultimately show ?thesis by (metis not_less)
qed

lemma BackOffSignal_ok: "limiter_ok l \<Longrightarrow> limiter_ok (snd (BackOffSignal now l))"
proof -
  assume l: "limiter_ok l"
  consider "snd (BackOffSignal now l) = l" | h where "minAdaptiveBps \<le> h" "0 < bytes l"
    "snd (BackOffSignal now l) = (setBytes h l)\<lparr>cooldownUntil := now + adaptiveCooldown\<rparr>"
    using BackOffSignal_cases by blast
  then show ?thesis
  proof cases
    case 2
    then show ?thesis using l by (simp add: limiter_ok_def setBytes_def minAdaptiveBps_def)
  qed (use l in simp)
qed

lemma ResetRate_ok: "limiter_ok l \<Longrightarrow> limiter_ok (ResetRate l)"
proof (cases "0 < configured l \<and> bytes l \<noteq> configured l")
  case True
  moreover assume "limiter_ok l"
  ultimately show ?thesis unfolding ResetRate_def setBytes_def by (simp add: limiter_ok_def)
next
  case False
  moreover assume "limiter_ok l"
  ultimately show ?thesis unfolding ResetRate_def by (simp only: if_False)
qed

lemma ThrottleOK_ok: "limiter_ok l \<Longrightarrow> limiter_ok (ThrottleOK now l)"
proof -
  assume l: "limiter_ok l"
  then have "limiter_ok (l\<lparr>cooldownUntil := 0\<rparr>)" by (simp add: limiter_ok_def)
  with l show ?thesis unfolding ThrottleOK_def by (simp add: ResetRate_ok)
qed

lemmas limiter_ops_ok = New_Limiter_ok SetRate_ok BackOffSignal_ok ResetRate_ok ThrottleOK_ok

lemma limiter_reachable_ok: "limiter_reachable l \<Longrightarrow> limiter_ok l"
  by (induction rule: limiter_reachable.induct) (auto intro: limiter_ops_ok)

subsection \<open>Properties\<close>

text \<open>a rate written as a whole number with a unit is read exactly: the number times 1024 to
  the unit's power, for K, M, G and T with or without B and in either case, as long as the number
  is below 2^53 and the product fits int64.\<close>

lemma ParseRate_units:
  "n < 2 ^ 53 \<Longrightarrow> (u, m) \<in> set rate_units \<Longrightarrow> int n * m < 2 ^ 53 \<Longrightarrow>
   ParseRate (nat_digits n @ u) = Inr (int n * m)"
proof -
  assume n: "n < 2 ^ 53" and u: "(u, m) \<in> set rate_units" and nm: "int n * m < 2 ^ 53"
  have m: "0 < m" using u by (auto simp: rate_units_def)
  have v: "(of_nat n :: rat) * of_int m = of_nat (nat (int n * m))" using m by simp
  have "f64 (of_nat n * of_int m) = of_nat n * of_int m"
    unfolding v using nm m by (intro f64_nat) (simp add: nat_less_iff)
  moreover have i: "int64_of_float (of_nat n * of_int m) = int n * m"
  proof -
    have "floor ((of_nat n :: rat) * of_int m) = int n * m" unfolding v using m by (simp only: floor_of_nat) simp
    then show ?thesis using nm by (simp add: int64_of_float_def)
  qed
  moreover have "\<not> of_nat n > 2 ^ 63 / (of_int m :: rat)"
  proof -
    have "(of_int (int n * m) :: rat) \<le> of_int (2 ^ 63)" using nm by (intro of_int_le_iff [THEN iffD2]) simp
    then have "(of_nat n :: rat) * of_int m \<le> 2 ^ 63" by simp
    then show ?thesis using m by (simp add: not_less pos_le_divide_eq)
  qed
  moreover have "\<not> int n * m > max_int64" using nm by (simp add: max_int64_def)
  ultimately show ?thesis unfolding ParseRate_digits [OF n u] by simp
qed

lemma ParseRate_units_witness: "ParseRate ''5M'' = Inr 5242880"
proof -
  have "nat_digits 5 @ ''M'' = ''5M''" by code_simp
  then show ?thesis using ParseRate_units [of 5 "''M''" "1024 ^ 2"] by (simp add: rate_units_def)
qed




text \<open>a 429 halves the rate (of at least 128 KiB/s), no success of any worker raises it again
  before the 30 seconds are over, and the first one after that restores the configured rate.\<close>

lemma BackOff_cooldown:
  "lr l = Some (c, c) \<Longrightarrow> bytes l = c \<Longrightarrow> configured l = c \<Longrightarrow> 128 * 1024 \<le> c \<Longrightarrow> 0 < now \<Longrightarrow>
   BackOffSignal now l = (True, l') \<Longrightarrow>
   bytes l' = c div 2 \<and>
   (\<forall>t < now + adaptiveCooldown. ThrottleOK t l' = l') \<and>
   (\<forall>t \<ge> now + adaptiveCooldown. bytes (ThrottleOK t l') = c \<and> lr (ThrottleOK t l') = Some (c, c) \<and>
      cooldownUntil (ThrottleOK t l') = 0)"
proof -
  assume a: "lr l = Some (c, c)" "bytes l = c" "configured l = c" "128 * 1024 \<le> c" "0 < now"
    and b: "BackOffSignal now l = (True, l')"
  define h where "h = c div 2"
  have h: "64 * 1024 \<le> h" "h \<noteq> c" "c sdiv 2 = h" using a(4) by (auto simp: h_def sdiv_nonneg)
  have half: "(if h < minAdaptiveBps then minAdaptiveBps else h) = h" "\<not> c \<le> 0"
    using h(1) a(4) by (auto simp: minAdaptiveBps_def)
  have l': "l' = (setBytes h l)\<lparr>cooldownUntil := now + adaptiveCooldown\<rparr>"
    using b unfolding BackOffSignal_def Let_def a(2) h(3) half(1) using half(2) h(2) by simp
  have "now + adaptiveCooldown \<noteq> 0" using a(5) by (simp add: adaptiveCooldown_def)
  then show ?thesis using a(3) h(2) a(4)
    by (simp add: l' h_def [symmetric] ThrottleOK_def ResetRate_def setBytes_def)
qed

lemma BackOff_cooldown_witness:
  "bytes (snd (BackOffSignal 1 \<lparr>lr = Some (1048576, 1048576), bytes = 1048576, configured = 1048576, cooldownUntil = 0\<rparr>)) = 524288"
proof -
  let ?l = "\<lparr>lr = Some (1048576, 1048576), bytes = 1048576, configured = 1048576, cooldownUntil = 0\<rparr>"
  have "BackOffSignal 1 ?l = (True, snd (BackOffSignal 1 ?l))" by code_simp
  from BackOff_cooldown [OF _ _ _ _ _ this, of 1048576] show ?thesis by simp
qed

text \<open>below 64 KiB/s the same signal raises the rate: the floor of the adaptive backoff lies
  above the configured rate, and the server that asked to slow down is read faster.\<close>

lemma BackOff_raises_slow_rate:
  "0 < bytes l \<Longrightarrow> bytes l < 64 * 1024 \<Longrightarrow>
   fst (BackOffSignal now l) \<and> bytes l < bytes (snd (BackOffSignal now l)) \<and> bytes (snd (BackOffSignal now l)) = 64 * 1024"
proof -
  assume a: "0 < bytes l" "bytes l < 64 * 1024"
  have "bytes l sdiv 2 = bytes l div 2" using a by (simp add: sdiv_nonneg)
  then have "(if bytes l sdiv 2 < minAdaptiveBps then minAdaptiveBps else bytes l sdiv 2) = 64 * 1024"
    using a by (simp add: minAdaptiveBps_def)
  then have "BackOffSignal now l = (True, (setBytes (64 * 1024) l)\<lparr>cooldownUntil := now + adaptiveCooldown\<rparr>)"
    unfolding BackOffSignal_def Let_def using a by simp
  then show ?thesis using a by (simp add: setBytes_def)
qed

lemma BackOff_raises_slow_rate_witness:
  "bytes (snd (BackOffSignal 0 \<lparr>lr = Some (10240, 10240), bytes = 10240, configured = 10240, cooldownUntil = 0\<rparr>)) = 65536"
  using BackOff_raises_slow_rate [of "\<lparr>lr = Some (10240, 10240), bytes = 10240, configured = 10240, cooldownUntil = 0\<rparr>" 0]
  by simp

text \<open>a read larger than the burst is charged only the burst: with a rate of c bytes per second
  below the 64 KiB read buffer, each read costs at most one second however many bytes it returned.\<close>

lemma Read_undercharged:
  "lr l = Some (c, c) \<Longrightarrow> 0 < c \<Longrightarrow> c < n \<Longrightarrow> RateReader_Read n l = (n, Some c)"
  by (simp add: RateReader_Read_def Acquire_def)

lemma Read_undercharged_witness:
  "RateReader_Read 65536 \<lparr>lr = Some (1024, 1024), bytes = 1024, configured = 1024, cooldownUntil = 0\<rparr> = (65536, Some 1024)"
  using Read_undercharged [of "\<lparr>lr = Some (1024, 1024), bytes = 1024, configured = 1024, cooldownUntil = 0\<rparr>" 1024 65536]
  by simp

lemma f64_2_63: "f64 (2 ^ 63) = 2 ^ 63"
proof -
  have q: "quotient_of (2 ^ 63) = (2 ^ 63, 1)"
    using quotient_of_int [unfolded Rat.of_int_def, of "2 ^ 63"] by simp
  have "bit_length (nat (2 ^ 63)) = 64"
    using bit_length_less [of "nat (2 ^ 63)" 64] bit_length_greater [of 63 "nat (2 ^ 63)"] by simp
  then have l: "floor_log2 (2 ^ 63) = 63"
    unfolding floor_log2_def q by (simp add: bit_length_1 Let_def) (simp add: pow2_def)
  have "(2 ^ 63 :: rat) / pow2 11 = of_int (2 ^ 52)" by (simp add: pow2_def)
  then have "round_even ((2 ^ 63 :: rat) / pow2 11) = 2 ^ 52" by (simp only: round_even_of_int)
  then show ?thesis unfolding f64_def l Let_def by (simp add: pow2_def)
qed

text \<open>the overflow guard compares with the float64 nearest to the largest int64, which is 2^63:
  8388608T passes it, the conversion wraps to the least int64 with no error, and a limiter built from
  it is unlimited.\<close>

lemma ParseRate_overflow:
  "ParseRate ''8388608T'' = Inr (- (2 ^ 63)) \<and> New_Limiter ''8388608T'' = Inr off_limiter"
proof -
  have s: "nat_digits 8388608 @ ''T'' = ''8388608T''"
    by (simp add: nat_digits.simps [of 8388608] nat_digits.simps [of 838860] nat_digits.simps [of 83886]
        nat_digits.simps [of 8388] nat_digits.simps [of 838] nat_digits.simps [of 83] nat_digits.simps [of 8])
  have u: "(''T'', 1024 ^ 4) \<in> set rate_units" by (simp add: rate_units_def)
  note r = rate_suffix_unit(4) [OF nat_digits_digit_string [of 8388608] u, unfolded s]
  have a: "(of_nat 8388608 :: rat) = 8388608" "(of_int (1024 ^ 4) :: rat) = 1099511627776"
    by (rule of_nat_numeral, simp)
  have f: "(of_nat 8388608 :: rat) * of_int (1024 ^ 4) = 2 ^ 63" "\<not> (of_nat 8388608 > 2 ^ 63 / (of_int (1024 ^ 4) :: rat))"
    unfolding a by simp_all
  have i: "int64_of_float (2 ^ 63) = - (2 ^ 63)" by (simp add: int64_of_float_def)
  have c: "(- (2 ^ 63) > max_int64) = False" "(of_nat 8388608 > 2 ^ 63 / (of_int (1024 ^ 4) :: rat)) = False"
    using f(2) by (simp add: max_int64_def, blast)
  have n: "(8388608 :: nat) < 2 ^ 53" by simp
  have p: "ParseRate ''8388608T'' = Inr (- (2 ^ 63))"
    using ParseRate_digits [OF n u] unfolding f(1) f64_2_63 i s c if_False .
  moreover have "\<not> off_spec ''8388608T''" by code_simp
  moreover have "(- (2 ^ 63) :: int) \<le> 0" by simp
  ultimately show ?thesis unfolding New_Limiter_def Let_def r by (simp only: if_False sum.case if_True simp_thms)
qed

end
