(* ===== verification/Manager.thy ===== *)
theory Manager imports Task_Layout Rate_Limiter Filename begin

section \<open>Tasks under control, and their registry (internal/download/manager.go, task.go, task_pause.go)\<close>

text \<open>
  What the RPC daemon does to a task (pause, cancel, rate, connections, snapshot), the manager that builds
  tasks and keeps them by id, and the exit code of a run. A controlled task is the task of \<open>Task_Layout\<close> with
  the fields of its control surface; the channel that wakes paused workers is the number of times it was
  replaced, and the workers \<open>AdjustConns\<close> adds are counted. The registry holds ids, and the heap holds every
  task ever built: a task that leaves the registry lives on while the scheduler refers to it. The id counter
  is unbounded here; an \<open>int32\<close> conversion wraps.
\<close>

record ctl_task = task +
  ct_paused :: bool
  ct_pauseCycle :: nat
  ct_hasCancel :: bool
  ct_ctxCancelled :: bool
  ct_baseCtx :: bool
  ct_adjustDone :: bool
  ct_spawned :: int
  ct_taskLim :: "limiter option"

subsection \<open>One task\<close>

definition new_task :: "string \<Rightarrow> string \<Rightarrow> task_opts \<Rightarrow> ctl_task" where
  "new_task id0 url opts0 =
     (let opts1 = (if op_Retry opts0 < 0 then opts0\<lparr>op_Retry := 0\<rparr> else opts0);
          opts = (if op_RetryWait opts1 < 0 then opts1\<lparr>op_RetryWait := 0\<rparr> else opts1)
      in \<lparr>tk_id = id0, tk_url = url, tk_opts = opts, tk_resumeETag = [], tk_probe = None, tk_queue = None, tk_single = NotBuilt, tk_outPath = [],
          tk_ariaSplit = 0, tk_engines = None, tk_regionConns = (0, 0), tk_splitAt = 0, tk_hasH2 = False, tk_bytesDone = 0,
          tk_speed = 0, tk_conns = 0, tk_state = StateQueued, tk_errors = 0, tk_retries = 0, tk_chunksSincePersist = 0,
          tk_lastPersist = None, tk_controlCreatedAt = None, tk_cancelled = False, tk_chunkHashes = (\<lambda>_. None),
          tk_connTarget = 0, ct_paused = False, ct_pauseCycle = 0, ct_hasCancel = False, ct_ctxCancelled = False,
          ct_baseCtx = False, ct_adjustDone = False, ct_spawned = 0,
          ct_taskLim = (case New_Limiter (op_TaskLimitRate opts0) of Inl _ \<Rightarrow> None | Inr l \<Rightarrow> Some l)\<rparr>)"

definition SetConns :: "int \<Rightarrow> ctl_task \<Rightarrow> ctl_task" where
  "SetConns n t = t\<lparr>tk_conns := w32 n, tk_connTarget := w32 n\<rparr>"

definition SetH2Client :: "bool \<Rightarrow> ctl_task \<Rightarrow> ctl_task" where
  "SetH2Client client t = (if client then t\<lparr>tk_hasH2 := True\<rparr> else t)"

definition SetProbe :: "probe_result option \<Rightarrow> ctl_task \<Rightarrow> ctl_task" where
  "SetProbe pr t = (case pr of None \<Rightarrow> t | Some r \<Rightarrow> t\<lparr>tk_probe := Some r\<rparr>)"

definition SetProfile :: "string \<Rightarrow> ctl_task \<Rightarrow> ctl_task" where
  "SetProfile p t = (if p \<noteq> [] then t\<lparr>tk_opts := (tk_opts t)\<lparr>op_Profile := p\<rparr>\<rparr> else t)"

definition SetTaskRate :: "string \<Rightarrow> ctl_task \<Rightarrow> bool \<times> ctl_task" where
  "SetTaskRate spec t =
     (case New_Limiter spec of Inl _ \<Rightarrow> (False, t) | Inr l \<Rightarrow> (True, t\<lparr>ct_taskLim := Some l\<rparr>))"

definition Pause :: "ctl_task \<Rightarrow> ctl_task" where
  "Pause t = t\<lparr>ct_paused := True, tk_state := StatePaused\<rparr>"

definition Unpause :: "ctl_task \<Rightarrow> ctl_task" where
  "Unpause t =
     (if ct_paused t then t\<lparr>ct_paused := False, ct_pauseCycle := ct_pauseCycle t + 1\<rparr> else t)\<lparr>tk_state := StateActive\<rparr>"

definition Cancel :: "ctl_task \<Rightarrow> ctl_task" where
  "Cancel t =
     (let t1 = t\<lparr>tk_cancelled := True\<rparr> in if ct_hasCancel t then t1\<lparr>ct_ctxCancelled := True\<rparr> else t1)"

text \<open>\<open>AdjustConns\<close> as the daemon calls it, with no context of its own: a task that has not started refuses.\<close>

definition Adjust :: "int \<Rightarrow> ctl_task \<Rightarrow> bool \<times> ctl_task" where
  "Adjust target0 t =
     (let target = (if target0 < 1 then 1 else target0)
      in if \<not> ct_baseCtx t then (False, t)
         else let old = tk_connTarget t;
                  t1 = t\<lparr>tk_connTarget := w32 target\<rparr>
              in if target \<le> old then (True, t1)
                 else if ct_adjustDone t then (False, t1)
                 else (True, t1\<lparr>ct_spawned := ct_spawned t + (target - old)\<rparr>))"

record ProgressView =
  pv_ID :: string
  pv_URL :: string
  pv_FinalURL :: string
  pv_Filename :: string
  pv_State :: TaskState
  pv_TotalSize :: int
  pv_BytesDone :: int
  pv_Speed :: int
  pv_Connections :: int
  pv_ETA :: int
  pv_Errors :: int
  pv_Retries :: int
  pv_SingleStream :: bool

definition second :: int where "second = 10 ^ 9"

definition estimateETA :: "ctl_task \<Rightarrow> int" where
  "estimateETA t =
     (case tk_probe t of
        None \<Rightarrow> 0
      | Some pr \<Rightarrow>
          if TotalSize pr \<le> 0 \<or> tk_bytesDone t \<ge> TotalSize pr \<or> tk_speed t \<le> 0 then 0
          else let eta = w64 (((TotalSize pr - tk_bytesDone t) sdiv tk_speed t) * second)
               in if eta < 0 then 0 else eta)"

definition task_filename :: "ctl_task \<Rightarrow> string" where
  "task_filename t = (case tk_probe t of Some pr \<Rightarrow> probe_result.Filename pr | None \<Rightarrow> op_OutputName (tk_opts t))"

definition Snapshot :: "ctl_task \<Rightarrow> ProgressView" where
  "Snapshot t =
     \<lparr>pv_ID = tk_id t, pv_URL = tk_url t,
      pv_FinalURL = (case tk_probe t of Some pr \<Rightarrow> FinalURL pr | None \<Rightarrow> []),
      pv_Filename = task_filename t, pv_State = tk_state t,
      pv_TotalSize = (case tk_probe t of Some pr \<Rightarrow> TotalSize pr | None \<Rightarrow> 0),
      pv_BytesDone = tk_bytesDone t, pv_Speed = tk_speed t, pv_Connections = tk_conns t, pv_ETA = estimateETA t,
      pv_Errors = tk_errors t, pv_Retries = tk_retries t,
      pv_SingleStream = (case tk_probe t of Some pr \<Rightarrow> SingleStream pr | None \<Rightarrow> False)\<rparr>"

subsection \<open>The manager\<close>

record exec_opts =
  eo_Dir :: string
  eo_OutFile :: string
  eo_Connections :: int
  eo_SplitFile :: int
  eo_Retry :: int
  eo_RetryWait :: int
  eo_Continue :: bool
  eo_ChunkSize :: int
  eo_Timeout :: int
  eo_Checksum :: string
  eo_ChecksumURL :: string
  eo_Mirrors :: "string list"
  eo_LimitRate :: string
  eo_TaskLimitRate :: string
  eo_UserAgent :: string
  eo_Headers :: "string list"
  eo_Referer :: string
  eo_Proxy :: string
  eo_CheckCert :: bool
  eo_MaxRedirect :: int
  eo_Profile :: string
  eo_Split :: int
  eo_MinSplitSize :: int
  eo_MaxConnPerServer :: int
  eo_Collision :: string

record manager =
  mg_opts :: exec_opts
  mg_hasH2 :: bool
  mg_lim :: limiter
  mg_nextID :: int
  mg_registry :: "string list"
  mg_heap :: "string \<Rightarrow> ctl_task option"

text \<open>Building the clients is transport.NewClient, once without and once with HTTP/2: a parameter.\<close>

datatype 'e manager_error = ClientFailed 'e | LimitFailed rate_error

definition NewManager :: "(bool \<Rightarrow> 'e option) \<Rightarrow> exec_opts \<Rightarrow> 'e manager_error + manager" where
  "NewManager new_client opts =
     (case new_client False of
        Some e \<Rightarrow> Inl (ClientFailed e)
      | None \<Rightarrow>
          (case New_Limiter (eo_LimitRate opts) of
             Inl e \<Rightarrow> Inl (LimitFailed e)
           | Inr l \<Rightarrow>
               let m = \<lparr>mg_opts = opts, mg_hasH2 = False, mg_lim = l, mg_nextID = 0, mg_registry = [], mg_heap = (\<lambda>_. None)\<rparr>
               in if eo_Profile opts \<noteq> [] \<and> eo_Profile opts \<noteq> ''odm''
                  then (case new_client True of Some e \<Rightarrow> Inl (ClientFailed e) | None \<Rightarrow> Inr (m\<lparr>mg_hasH2 := True\<rparr>))
                  else Inr m))"

declare NewManager_def [go_eval]

definition ClientFor :: "manager \<Rightarrow> string \<Rightarrow> client_kind" where
  "ClientFor m profile =
     (if profile \<in> {''aria2c'', ''both'', ''smart''} \<and> mg_hasH2 m then H2Client else H1Client)"

subsection \<open>The registry\<close>

text \<open>The id of a task: fmt's verb 03d, and reading it back with Sscanf.\<close>

definition pad3 :: "int \<Rightarrow> string" where
  "pad3 n = replicate (3 - length (itoa n)) CHR ''0'' @ itoa n"

definition task_id :: "int \<Rightarrow> string" where
  "task_id n = ''odm-'' @ pad3 n"

definition is_digit :: "char \<Rightarrow> bool" where
  "is_digit c \<longleftrightarrow> digit_val c \<noteq> None"

definition task_num :: "string \<Rightarrow> int" where
  "task_num i =
     (if \<not> has_prefix i ''odm-'' then 2 ^ 62
      else let s = trim_left (drop 4 i);
               sign = (if s \<noteq> [] \<and> (hd s = CHR ''+'' \<or> hd s = CHR ''-'') then take 1 s else []);
               digits = takeWhile is_digit (drop (length sign) s)
           in case parse_int (sign @ digits) of ParsedInt v \<Rightarrow> v | _ \<Rightarrow> 2 ^ 62)"

definition maxTrackedTasks :: nat where "maxTrackedTasks = 1000"

definition terminal :: "TaskState \<Rightarrow> bool" where
  "terminal st \<longleftrightarrow> st = StateCompleted \<or> st = StateError"

definition terminal_in :: "(string \<Rightarrow> ctl_task option) \<Rightarrow> string \<Rightarrow> bool" where
  "terminal_in heap i = (case heap i of Some t \<Rightarrow> terminal (tk_state t) | None \<Rightarrow> False)"

definition dropTerminalTasks :: "(string \<Rightarrow> ctl_task option) \<Rightarrow> string list \<Rightarrow> int \<Rightarrow> string list" where
  "dropTerminalTasks heap reg n =
     (if n \<le> 0 then reg
      else let dead = take (nat n) (sort_key task_num (filter (terminal_in heap) reg))
           in filter (\<lambda>i. i \<notin> set dead) reg)"

definition track :: "string \<Rightarrow> ctl_task \<Rightarrow> manager \<Rightarrow> manager" where
  "track i t m =
     (let heap = (mg_heap m)(i \<mapsto> t);
          reg = (if i \<in> set (mg_registry m) then mg_registry m else mg_registry m @ [i])
      in m\<lparr>mg_heap := heap,
           mg_registry := (if length reg > maxTrackedTasks
             then dropTerminalTasks heap reg (int (length reg) - int maxTrackedTasks) else reg)\<rparr>)"

definition manager_task_opts :: "exec_opts \<Rightarrow> task_opts" where
  "manager_task_opts o1 =
     \<lparr>op_OutputName = eo_OutFile o1, op_Dir = eo_Dir o1, op_Retry = eo_Retry o1, op_RetryWait = eo_RetryWait o1,
      op_Continue = eo_Continue o1, op_ChunkSize = eo_ChunkSize o1, op_Timeout = eo_Timeout o1,
      op_UserAgent = eo_UserAgent o1, op_Checksum = eo_Checksum o1, op_TaskLimitRate = eo_TaskLimitRate o1,
      op_Profile = (if eo_Profile o1 = [] then ''odm'' else eo_Profile o1), op_Split = eo_Split o1,
      op_MinSplitSize = eo_MinSplitSize o1, op_MaxConnPerServer = eo_MaxConnPerServer o1,
      op_Collision = eo_Collision o1, op_ChecksumURL = eo_ChecksumURL o1, op_Mirrors = eo_Mirrors o1\<rparr>"

definition NewTask :: "string \<Rightarrow> manager \<Rightarrow> string \<times> int \<times> manager" where
  "NewTask url m =
     (let n = mg_nextID m + 1;
          i = task_id n;
          t = new_task i url (manager_task_opts (mg_opts m));
          t1 = (if mg_hasH2 m then SetH2Client True t else t)
      in (i, eo_Connections (mg_opts m), track i t1 (m\<lparr>mg_nextID := n\<rparr>)))"

definition Task :: "manager \<Rightarrow> string \<Rightarrow> ctl_task option" where
  "Task m i = (if i \<in> set (mg_registry m) then mg_heap m i else None)"

definition Tasks :: "manager \<Rightarrow> (string \<times> ctl_task) list" where
  "Tasks m = List.map_filter (\<lambda>i. map_option (Pair i) (mg_heap m i)) (mg_registry m)"

subsection \<open>The exit code\<close>

definition ExitOK :: int where "ExitOK = 0"
definition ExitGeneral :: int where "ExitGeneral = 1"
definition ExitNetwork :: int where "ExitNetwork = 2"
definition ExitPartial :: int where "ExitPartial = 3"
definition ExitCancelled :: int where "ExitCancelled = 4"

definition ExitCodeFrom :: "int \<Rightarrow> int \<Rightarrow> int \<Rightarrow> int" where
  "ExitCodeFrom ok bad cancelled0 =
     (if cancelled0 > 0 then ExitCancelled
      else if bad = 0 \<and> ok = 0 then ExitGeneral
      else if bad = 0 then ExitOK
      else if ok = 0 then ExitNetwork
      else ExitPartial)"

subsection \<open>The states in the order of their constants\<close>

definition TaskState_code :: "TaskState \<Rightarrow> nat" where
  "TaskState_code st =
     (case st of StateQueued \<Rightarrow> 0 | StateActive \<Rightarrow> 1 | StatePaused \<Rightarrow> 2 | StateRetrying \<Rightarrow> 3 | StateCompleted \<Rightarrow> 4 | StateError \<Rightarrow> 5)"

instantiation TaskState :: linorder
begin

definition less_eq_TaskState :: "TaskState \<Rightarrow> TaskState \<Rightarrow> bool" where
  "less_eq_TaskState a b \<longleftrightarrow> TaskState_code a \<le> TaskState_code b"

definition less_TaskState :: "TaskState \<Rightarrow> TaskState \<Rightarrow> bool" where
  "less_TaskState a b \<longleftrightarrow> TaskState_code a < TaskState_code b"

instance
proof
  fix a b :: TaskState
  show "a \<le> b \<Longrightarrow> b \<le> a \<Longrightarrow> a = b"
    by (cases a; cases b) (simp_all add: less_eq_TaskState_def TaskState_code_def)
qed (auto simp: less_eq_TaskState_def less_TaskState_def)

end

lemma terminal_last: "terminal st \<longleftrightarrow> StateCompleted \<le> st"
  by (cases st) (simp_all add: terminal_def less_eq_TaskState_def TaskState_code_def)

subsection \<open>Ids\<close>

lemma parse_digits_zeros: "parse_digits 0 (replicate k CHR ''0'' @ s) = parse_digits 0 s"
  by (induction k) (simp_all add: digit_val_def)

lemma nat_digits_drop_sign: "nat_digits n \<noteq> CHR ''-'' # s" "nat_digits n \<noteq> CHR ''+'' # s"
  using nat_digits_are_digits [of "CHR ''-''" n] nat_digits_are_digits [of "CHR ''+''" n] by (auto simp: digit_val_def)

lemma pad3_digits:
  assumes "0 \<le> n"
  shows "parse_digits 0 (pad3 n) = Some (nat n)" and "\<And>c. c \<in> set (pad3 n) \<Longrightarrow> is_digit c" and "pad3 n \<noteq> []"
proof -
  have i: "itoa n = nat_digits (nat n)" using assms by (simp add: itoa_def)
  show "parse_digits 0 (pad3 n) = Some (nat n)" by (simp add: pad3_def i parse_digits_zeros parse_digits_nat_digits)
  show "\<And>c. c \<in> set (pad3 n) \<Longrightarrow> is_digit c"
    using nat_digits_are_digits by (auto simp: pad3_def i is_digit_def digit_val_def split: if_splits)
  show "pad3 n \<noteq> []" by (simp add: pad3_def i)
qed

lemma task_id_inj: "0 \<le> a \<Longrightarrow> 0 \<le> b \<Longrightarrow> task_id a = task_id b \<longleftrightarrow> a = b"
  by (metis append_same_eq nat_0_le option.inject pad3_digits(1) same_append_eq task_id_def)

lemma task_num_id: "0 \<le> n \<Longrightarrow> n < 2 ^ 63 \<Longrightarrow> task_num (task_id n) = n"
proof -
  assume n: "0 \<le> n" "n < 2 ^ 63"
  note d = pad3_digits [OF n(1)]
  obtain c cs where c: "pad3 n = c # cs" using d(3) by (cases "pad3 n") auto
  have dc: "is_digit c" using d(2) c by auto
  then have "c \<noteq> CHR ''+''" "c \<noteq> CHR ''-''" "\<not> is_space c" by (auto simp: is_digit_def digit_val_def is_space_def)
  moreover have "takeWhile is_digit (pad3 n) = pad3 n" using d(2) by (simp add: takeWhile_eq_all_conv)
  moreover have "parse_int (pad3 n) = ParsedInt n"
    using \<open>c \<noteq> CHR ''+''\<close> \<open>c \<noteq> CHR ''-''\<close> d(1) n by (simp add: parse_int_def c)
  moreover have "has_prefix (task_id n) ''odm-''" "drop 4 (task_id n) = pad3 n" by (simp_all add: task_id_def)
  ultimately show ?thesis using dc unfolding task_num_def Let_def
    by (simp add: c trim_left_def takeWhile_eq_all_conv [THEN iffD2])
qed

subsection \<open>Pruning\<close>

lemma dropTerminalTasks_facts:
  assumes "distinct reg"
  shows "set (dropTerminalTasks heap reg n) \<subseteq> set reg" and "distinct (dropTerminalTasks heap reg n)"
    and "i \<in> set reg \<Longrightarrow> i \<notin> set (dropTerminalTasks heap reg n) \<Longrightarrow> terminal_in heap i"
    and "i \<in> set reg \<Longrightarrow> i \<notin> set (dropTerminalTasks heap reg n) \<Longrightarrow> j \<in> set (dropTerminalTasks heap reg n) \<Longrightarrow>
           terminal_in heap j \<Longrightarrow> task_num i \<le> task_num j"
    and "length (dropTerminalTasks heap reg n) = length reg - min (nat n) (length (filter (terminal_in heap) reg))"
proof -
  define ts where "ts = sort_key task_num (filter (terminal_in heap) reg)"
  define dead where "dead = take (nat n) ts"
  have e: "dropTerminalTasks heap reg n = filter (\<lambda>i. i \<notin> set dead) reg"
    by (auto simp: dropTerminalTasks_def Let_def dead_def ts_def filter_id_conv)
  have t: "set ts = set (filter (terminal_in heap) reg)" "distinct ts" using assms by (simp_all add: ts_def)
  have dt: "set dead \<subseteq> set ts" "distinct dead" using t by (auto simp: dead_def dest: in_set_takeD)
  show "set (dropTerminalTasks heap reg n) \<subseteq> set reg" "distinct (dropTerminalTasks heap reg n)" using assms by (auto simp: e)
  show "i \<in> set reg \<Longrightarrow> i \<notin> set (dropTerminalTasks heap reg n) \<Longrightarrow> terminal_in heap i" using dt t by (auto simp: e)
  show "task_num i \<le> task_num j"
    if "i \<in> set reg" "i \<notin> set (dropTerminalTasks heap reg n)" "j \<in> set (dropTerminalTasks heap reg n)" "terminal_in heap j"
  proof -
    have i: "i \<in> set (take (nat n) ts)" using that by (simp add: e dead_def)
    have "j \<in> set ts" "j \<notin> set (take (nat n) ts)" using that t by (auto simp: e dead_def)
    then have j: "j \<in> set (drop (nat n) ts)" by (metis Un_iff append_take_drop_id set_append)
    have "sorted (map task_num (take (nat n) ts) @ map task_num (drop (nat n) ts))"
      by (metis append_take_drop_id map_append sorted_sort_key ts_def)
    then show ?thesis using i j by (auto simp: sorted_append)
  qed
  have "length (filter (\<lambda>i. i \<in> set dead) reg) = length dead"
  proof -
    have "set (filter (\<lambda>i. i \<in> set dead) reg) = set dead" using dt t by auto
    then show ?thesis by (metis assms distinct_card distinct_filter dt(2))
  qed
  moreover have "length reg = length (filter (\<lambda>i. i \<in> set dead) reg) + length (filter (\<lambda>i. i \<notin> set dead) reg)"
    by (rule sum_length_filter_compl [symmetric])
  ultimately show "length (dropTerminalTasks heap reg n) = length reg - min (nat n) (length (filter (terminal_in heap) reg))"
    by (simp add: e dead_def ts_def min.commute)
qed

subsection \<open>The registry invariant\<close>

text \<open>The registry names distinct tasks of the heap, whose ids are those handed out so far.\<close>

definition manager_ok :: "manager \<Rightarrow> bool" where
  "manager_ok m \<longleftrightarrow> 0 \<le> mg_nextID m \<and> distinct (mg_registry m) \<and> set (mg_registry m) \<subseteq> dom (mg_heap m) \<and>
     dom (mg_heap m) \<subseteq> task_id ` {1..mg_nextID m} \<and> (\<forall>i t. mg_heap m i = Some t \<longrightarrow> tk_id t = i)"

lemma fresh_id: "manager_ok m \<Longrightarrow> task_id (mg_nextID m + 1) \<notin> dom (mg_heap m)"
proof
  assume ok: "manager_ok m" and "task_id (mg_nextID m + 1) \<in> dom (mg_heap m)"
  then obtain k where "k \<in> {1..mg_nextID m}" "task_id (mg_nextID m + 1) = task_id k" by (auto simp: manager_ok_def)
  then show False using ok task_id_inj [of "mg_nextID m + 1" k] by (simp add: manager_ok_def)
qed

definition added :: "string \<Rightarrow> manager \<Rightarrow> ctl_task" where
  "added url m = (let t = new_task (task_id (mg_nextID m + 1)) url (manager_task_opts (mg_opts m))
                  in if mg_hasH2 m then SetH2Client True t else t)"

lemma added_sel: "tk_id (added url m) = task_id (mg_nextID m + 1)" "tk_state (added url m) = StateQueued" "tk_url (added url m) = url"
  by (simp_all add: added_def new_task_def SetH2Client_def Let_def)

lemma NewTask_eq:
  assumes "manager_ok m"
  shows "NewTask url m = (task_id (mg_nextID m + 1), eo_Connections (mg_opts m),
     m\<lparr>mg_nextID := mg_nextID m + 1, mg_heap := (mg_heap m)(task_id (mg_nextID m + 1) \<mapsto> added url m),
       mg_registry := dropTerminalTasks ((mg_heap m)(task_id (mg_nextID m + 1) \<mapsto> added url m))
         (mg_registry m @ [task_id (mg_nextID m + 1)]) (int (length (mg_registry m)) + 1 - int maxTrackedTasks)\<rparr>)"
proof -
  have "task_id (mg_nextID m + 1) \<notin> set (mg_registry m)" using fresh_id [OF assms] assms by (auto simp: manager_ok_def)
  moreover have "dropTerminalTasks h r n = r" if "n \<le> 0" for h r n using that by (simp add: dropTerminalTasks_def)
  ultimately show ?thesis by (simp add: NewTask_def track_def Let_def added_def not_less add.commute)
qed

lemma NewTask_ok:
  assumes "manager_ok m" "NewTask url m = (i, c, m')"
  shows "manager_ok m'" "i = task_id (mg_nextID m + 1)" "i \<notin> dom (mg_heap m)" "mg_heap m' = (mg_heap m)(i \<mapsto> added url m)"
    "mg_nextID m' = mg_nextID m + 1" "mg_lim m' = mg_lim m" "i \<in> set (mg_registry m')"
proof -
  let ?i = "task_id (mg_nextID m + 1)"
  let ?heap = "(mg_heap m)(?i \<mapsto> added url m)"
  note e = assms(2) [unfolded NewTask_eq [OF assms(1)]]
  have m': "m' = m\<lparr>mg_nextID := mg_nextID m + 1, mg_heap := ?heap,
       mg_registry := dropTerminalTasks ?heap (mg_registry m @ [?i]) (int (length (mg_registry m)) + 1 - int maxTrackedTasks)\<rparr>"
    using e by blast
  show i: "i = ?i" using e by blast
  show f: "i \<notin> dom (mg_heap m)" using fresh_id [OF assms(1)] i by simp
  show "mg_heap m' = (mg_heap m)(i \<mapsto> added url m)" "mg_nextID m' = mg_nextID m + 1" "mg_lim m' = mg_lim m" by (simp_all add: m' i)
  have d: "distinct (mg_registry m @ [?i])" using assms(1) f i by (auto simp: manager_ok_def)
  note r = dropTerminalTasks_facts [OF d, where heap = ?heap and n = "int (length (mg_registry m)) + 1 - int maxTrackedTasks"]
  show "i \<in> set (mg_registry m')"
  proof (rule ccontr)
    assume "i \<notin> set (mg_registry m')"
    then have "terminal_in ?heap ?i" using r(3) [of ?i] by (simp add: m' i)
    then show False by (simp add: terminal_in_def terminal_def added_sel)
  qed
  have dom: "dom ?heap = insert ?i (dom (mg_heap m))" by auto
  have n: "1 \<le> mg_nextID m + 1" using assms(1) by (simp add: manager_ok_def)
  have "task_id ` {1..mg_nextID m} \<subseteq> task_id ` {1..mg_nextID m + 1}" by auto
  then have s: "dom ?heap \<subseteq> task_id ` {1..mg_nextID m + 1}" unfolding dom using assms(1) n by (auto simp: manager_ok_def)
  have "set (mg_registry m @ [?i]) \<subseteq> dom ?heap" using assms(1) by (auto simp: manager_ok_def)
  then have "set (mg_registry m') \<subseteq> dom ?heap" using r(1) by (auto simp: m')
  moreover have "\<forall>j t. ?heap j = Some t \<longrightarrow> tk_id t = j" using assms(1) added_sel by (auto simp: manager_ok_def)
  ultimately show "manager_ok m'" using r(2) s n unfolding manager_ok_def by (simp add: m')
qed

lemma manager_ok_heap:
  assumes "manager_ok m" "mg_heap m i = Some t" "tk_id t' = tk_id t"
  shows "manager_ok (m\<lparr>mg_heap := (mg_heap m)(i \<mapsto> t')\<rparr>)"
  using assms by (auto simp: manager_ok_def dom_def)

lemma Task_ok: "manager_ok m \<Longrightarrow> Task m i = Some t \<Longrightarrow> tk_id t = i \<and> mg_heap m i = Some t"
  by (auto simp: Task_def manager_ok_def split: if_splits)

text \<open>C28: Building a task keeps the registry bounded without losing live work. The new task is found under a fresh id,
  queued; the entries that went are terminal, each no younger than any terminal entry that stayed; and beyond the cap of
  1000 only tasks that have not ended remain.\<close>

theorem NewTask_registry:
  assumes "manager_ok m" and "mg_nextID m + 1 < 2 ^ 63" and "NewTask url m = (i, c, m')"
  shows "manager_ok m' \<and> i \<notin> dom (mg_heap m) \<and> map_option tk_state (Task m' i) = Some StateQueued
    \<and> (\<forall>j. j \<in> set (mg_registry m) - set (mg_registry m') \<longrightarrow>
           terminal_in (mg_heap m) j \<and> (\<forall>k. k \<in> set (mg_registry m') \<and> terminal_in (mg_heap m') k \<longrightarrow> task_num j \<le> task_num k))
    \<and> (length (mg_registry m') \<le> maxTrackedTasks \<or> filter (terminal_in (mg_heap m')) (mg_registry m') = [])"
proof -
  note n = NewTask_ok [OF assms(1,3)]
  let ?heap = "(mg_heap m)(i \<mapsto> added url m)"
  let ?n = "int (length (mg_registry m)) + 1 - int maxTrackedTasks"
  have m': "mg_registry m' = dropTerminalTasks ?heap (mg_registry m @ [i]) ?n"
    using assms(3) by (auto simp: NewTask_eq [OF assms(1)])
  have d: "distinct (mg_registry m @ [i])" using assms(1) n(3) by (auto simp: manager_ok_def)
  note r = dropTerminalTasks_facts [OF d, where heap = ?heap and n = ?n, folded m']
  have t: "terminal_in (mg_heap m) j" if "terminal_in ?heap j" "j \<noteq> i" for j using that by (simp add: terminal_in_def)
  have dropped: "terminal_in (mg_heap m) j \<and> (\<forall>k. k \<in> set (mg_registry m') \<and> terminal_in (mg_heap m') k \<longrightarrow> task_num j \<le> task_num k)"
    if j: "j \<in> set (mg_registry m) - set (mg_registry m')" for j
  proof
    have "j \<noteq> i" using d j by auto
    then show "terminal_in (mg_heap m) j" using r(3) [of j] t j by simp
    show "\<forall>k. k \<in> set (mg_registry m') \<and> terminal_in (mg_heap m') k \<longrightarrow> task_num j \<le> task_num k"
      using r(4) [of j] j n(4) by simp
  qed
  have bound: "filter (terminal_in ?heap) (mg_registry m') = []" if "maxTrackedTasks < length (mg_registry m')"
  proof (rule ccontr)
    assume "filter (terminal_in ?heap) (mg_registry m') \<noteq> []"
    then obtain k where k: "k \<in> set (mg_registry m')" "terminal_in ?heap k" by (auto simp: filter_empty_conv)
    define ts where "ts = filter (terminal_in ?heap) (mg_registry m @ [i])"
    have len: "length (mg_registry m') = length (mg_registry m) + 1 - min (nat ?n) (length ts)"
      using r(5) by (simp only: ts_def length_append length_Cons list.size One_nat_def add.right_neutral)
    have "set (mg_registry m @ [i]) - set (mg_registry m') \<subseteq> set ts - {k}" using r(3) k by (auto simp: ts_def)
    then have "card (set (mg_registry m @ [i]) - set (mg_registry m')) \<le> card (set ts - {k})" by (intro card_mono) auto
    also have "\<dots> = length ts - 1"
    proof -
      have "k \<in> set ts" "distinct ts" using k r(1) d by (auto simp: ts_def)
      then show ?thesis by (simp add: distinct_card)
    qed
    finally have c: "card (set (mg_registry m @ [i]) - set (mg_registry m')) \<le> length ts - 1" .
    have "card (set (mg_registry m @ [i]) - set (mg_registry m')) = length (mg_registry m) + 1 - length (mg_registry m')"
      using card_Diff_subset [OF finite_set r(1)] distinct_card [OF d] distinct_card [OF r(2)] by simp
    moreover have "0 < length ts"
    proof -
      have "k \<in> set ts" using k r(1) by (auto simp: ts_def)
      then show ?thesis by (cases ts) auto
    qed
    ultimately show False using c len that by linarith
  qed
  have q: "map_option tk_state (Task m' i) = Some StateQueued" using n(4,7) added_sel by (simp add: Task_def)
  show ?thesis using n(1,3) dropped bound q n(4) by (auto simp: not_le)
qed

end
