(* ===== verification/Daemon.thy ===== *)
theory Daemon imports Scheduler Manager begin

section \<open>The daemon (internal/scheduler/daemon.go)\<close>

text \<open>
  The daemon joins the scheduler and the manager for the RPC server. Its methods are functions on the pair of
  states; \<open>dmn_step\<close> interleaves them with the steps of the scheduler's run, with whatever a running task does
  to itself, and with the hooks called when the run has ended. A hook is a number; the hooks registered are
  kept beside those waiting and those fired, as a ghost. Each method is one step: its two critical sections in
  \<open>AddURL\<close> (enqueue, admit) are the two steps \<open>daemon_step\<close> gives them.
\<close>

record daemon =
  dm_sched :: sched
  dm_mgr :: manager
  dm_started :: bool
  dm_done :: bool
  dm_taken :: bool
  dm_ondead :: "nat list"
  dm_fired :: "nat list"
  dm_registered :: "nat list"

definition NewDaemon :: "sched \<Rightarrow> manager \<Rightarrow> daemon" where
  "NewDaemon s m = \<lparr>dm_sched = s, dm_mgr = m, dm_started = False, dm_done = False, dm_taken = False, dm_ondead = [],
     dm_fired = [], dm_registered = []\<rparr>"

subsection \<open>The run in the background\<close>

definition Start :: "daemon \<Rightarrow> daemon" where
  "Start d = (if dm_started d then d else d\<lparr>dm_started := True\<rparr>)"

definition doneClosed :: "daemon \<Rightarrow> bool" where
  "doneClosed d \<longleftrightarrow> dm_started d \<and> dm_done d"

definition Dead :: "daemon \<Rightarrow> bool" where
  "Dead d \<longleftrightarrow> dm_started d \<and> dm_done d"

definition OnDead :: "nat \<Rightarrow> daemon \<Rightarrow> daemon" where
  "OnDead h d =
     (let d1 = d\<lparr>dm_registered := dm_registered d @ [h]\<rparr>
      in if doneClosed d then d1\<lparr>dm_fired := dm_fired d @ [h]\<rparr> else d1\<lparr>dm_ondead := dm_ondead d @ [h]\<rparr>)"

text \<open>After \<open>Run\<close> has returned: close the channel, then take the hooks under the lock and call them.\<close>

definition close_done :: "daemon \<Rightarrow> daemon" where
  "close_done d = d\<lparr>dm_done := True\<rparr>"

definition take_hooks :: "daemon \<Rightarrow> daemon" where
  "take_hooks d = d\<lparr>dm_taken := True, dm_ondead := [], dm_fired := dm_fired d @ dm_ondead d\<rparr>"

text \<open>\<open>Stop\<close> cancels the context; it then waits for the channel, which is left to the steps that follow.\<close>

definition Stop :: "daemon \<Rightarrow> daemon" where
  "Stop d = (if dm_started d then d\<lparr>dm_sched := (dm_sched d)\<lparr>sc_ctxDone := True\<rparr>\<rparr> else d)"

subsection \<open>The methods behind the RPC server\<close>

definition put_task :: "string \<Rightarrow> ctl_task \<Rightarrow> daemon \<Rightarrow> daemon" where
  "put_task i t d = d\<lparr>dm_mgr := (dm_mgr d)\<lparr>mg_heap := (mg_heap (dm_mgr d))(i \<mapsto> t)\<rparr>\<rparr>"

definition lookup :: "string \<Rightarrow> daemon \<Rightarrow> ctl_task option" where
  "lookup i d = Task (dm_mgr d) i"

text \<open>The task \<open>admitNext\<close> is about to admit gets its connections on the way.\<close>

definition admit_conns :: "sched \<Rightarrow> manager \<Rightarrow> manager" where
  "admit_conns s m =
     (case sc_queued s of
        [] \<Rightarrow> m
      | q # _ \<Rightarrow>
          if length (sc_live s) \<ge> sc_slots s then m
          else case mg_heap m (st_id q) of
            None \<Rightarrow> m
          | Some t \<Rightarrow> m\<lparr>mg_heap := (mg_heap m)(st_id q \<mapsto> SetConns (st_conns q) t)\<rparr>)"

definition AddURL :: "string \<Rightarrow> int \<Rightarrow> daemon \<Rightarrow> (enqueue_error + string) \<times> daemon" where
  "AddURL url conns0 d =
     (case NewTask url (dm_mgr d) of (i, defaultConns, m1) \<Rightarrow>
        let n = (if conns0 \<le> 0 then defaultConns else conns0)
        in case Enqueue \<lparr>st_id = i, st_conns = n, st_counted = False\<rparr> (dm_sched d) of
             (Some e, _) \<Rightarrow> (Inl e, d\<lparr>dm_mgr := m1\<rparr>)
           | (None, s1) \<Rightarrow>
               (Inr i, d\<lparr>dm_mgr := admit_conns s1 m1,
                         dm_sched := admitNext (s1\<lparr>sc_pendingAdmits := sc_pendingAdmits s1 - 1\<rparr>)\<rparr>))"

definition Daemon_Pause :: "string \<Rightarrow> daemon \<Rightarrow> bool \<times> daemon" where
  "Daemon_Pause i d = (case lookup i d of None \<Rightarrow> (False, d) | Some t \<Rightarrow> (True, put_task i (Pause t) d))"

definition Daemon_Unpause :: "string \<Rightarrow> daemon \<Rightarrow> bool \<times> daemon" where
  "Daemon_Unpause i d = (case lookup i d of None \<Rightarrow> (False, d) | Some t \<Rightarrow> (True, put_task i (Unpause t) d))"

definition Remove :: "string \<Rightarrow> daemon \<Rightarrow> bool \<times> daemon" where
  "Remove i d = (case lookup i d of None \<Rightarrow> (False, d) | Some t \<Rightarrow> (True, put_task i (Cancel t) d))"

definition ChangeGlobalLimit :: "string \<Rightarrow> daemon \<Rightarrow> rate_error option \<times> daemon" where
  "ChangeGlobalLimit spec d =
     (case SetRate spec (mg_lim (dm_mgr d)) of (e, l) \<Rightarrow> (e, d\<lparr>dm_mgr := (dm_mgr d)\<lparr>mg_lim := l\<rparr>\<rparr>))"

definition ChangeTaskLimit :: "string \<Rightarrow> string \<Rightarrow> daemon \<Rightarrow> bool \<times> daemon" where
  "ChangeTaskLimit i spec d =
     (case lookup i d of
        None \<Rightarrow> (False, d)
      | Some t \<Rightarrow> (case SetTaskRate spec t of (ok, t1) \<Rightarrow> (ok, put_task i t1 d)))"

definition ChangeConns :: "string \<Rightarrow> int \<Rightarrow> daemon \<Rightarrow> bool \<times> daemon" where
  "ChangeConns i n d =
     (case lookup i d of
        None \<Rightarrow> (False, d)
      | Some t \<Rightarrow> (case Adjust n t of (ok, t1) \<Rightarrow> (ok, put_task i t1 d)))"

definition TellStatus :: "string \<Rightarrow> daemon \<Rightarrow> ProgressView option" where
  "TellStatus i d = map_option Snapshot (lookup i d)"

definition snapshots :: "string list \<Rightarrow> daemon \<Rightarrow> ProgressView list" where
  "snapshots is d = List.map_filter (\<lambda>i. map_option Snapshot (mg_heap (dm_mgr d) i)) is"

definition TellActive :: "daemon \<Rightarrow> ProgressView list" where
  "TellActive d = snapshots (LiveViews (dm_sched d)) d"

definition TellWaiting :: "daemon \<Rightarrow> ProgressView list" where
  "TellWaiting d = snapshots (QueuedViews (dm_sched d)) d"

definition TellStopped :: "daemon \<Rightarrow> ProgressView list" where
  "TellStopped d = snapshots (StoppedViews (dm_sched d)) d"

subsection \<open>The steps\<close>

inductive dmn_step :: "daemon \<Rightarrow> daemon \<Rightarrow> bool" where
  run: "dm_started d \<Longrightarrow> sched_step (dm_sched d) s \<Longrightarrow> dmn_step d (d\<lparr>dm_sched := s\<rparr>)"
| task_moves: "mg_heap (dm_mgr d) i = Some t \<Longrightarrow> tk_id t' = tk_id t \<Longrightarrow> dmn_step d (put_task i t' d)"
| start: "dmn_step d (Start d)"
| stop: "dmn_step d (Stop d)"
| on_dead: "dmn_step d (OnDead h d)"
| run_returned: "sc_phase (dm_sched d) = Returned \<Longrightarrow> dm_started d \<Longrightarrow> dmn_step d (close_done d)"
| hooks: "dm_done d \<Longrightarrow> \<not> dm_taken d \<Longrightarrow> dmn_step d (take_hooks d)"
| add: "dmn_step d (snd (AddURL url n d))"
| pause: "dmn_step d (snd (Daemon_Pause i d))"
| unpause: "dmn_step d (snd (Daemon_Unpause i d))"
| remove: "dmn_step d (snd (Remove i d))"
| global_limit: "dmn_step d (snd (ChangeGlobalLimit spec d))"
| task_limit: "dmn_step d (snd (ChangeTaskLimit i spec d))"
| change_conns: "dmn_step d (snd (ChangeConns i n d))"

subsection \<open>What the daemon keeps\<close>

lemma task_ops_id:
  "tk_id (Pause t) = tk_id t" "tk_id (Unpause t) = tk_id t" "tk_id (Cancel t) = tk_id t" "tk_id (SetConns n t) = tk_id t"
  "tk_id (snd (SetTaskRate spec t)) = tk_id t" "tk_id (snd (Adjust n t)) = tk_id t"
  by (simp_all add: Pause_def Unpause_def Cancel_def SetConns_def SetTaskRate_def Adjust_def Let_def split: sum.split)

text \<open>Every method but \<open>AddURL\<close> changes at most one known task, or the limiter.\<close>

definition small_change :: "daemon \<Rightarrow> daemon \<Rightarrow> bool" where
  "small_change d d' \<longleftrightarrow>
     (\<exists>i t t'. mg_heap (dm_mgr d) i = Some t \<and> tk_id t' = tk_id t \<and> d' = put_task i t' d) \<or>
     (\<exists>l. d' = d\<lparr>dm_mgr := (dm_mgr d)\<lparr>mg_lim := l\<rparr>\<rparr>) \<or> d' = d"

lemma put_small: "lookup i d = Some t \<Longrightarrow> tk_id t' = tk_id t \<Longrightarrow> small_change d (put_task i t' d)"
  by (auto simp: small_change_def lookup_def Task_def split: if_splits)

lemma small_refl: "small_change d d"
  by (simp add: small_change_def)

lemma method_small:
  "small_change d (snd (Daemon_Pause i d))" "small_change d (snd (Daemon_Unpause i d))" "small_change d (snd (Remove i d))"
  "small_change d (snd (ChangeTaskLimit i spec d))" "small_change d (snd (ChangeConns i n d))"
  "small_change d (snd (ChangeGlobalLimit spec d))"
proof -
  show "small_change d (snd (Daemon_Pause i d))" "small_change d (snd (Daemon_Unpause i d))" "small_change d (snd (Remove i d))"
    by (auto simp: Daemon_Pause_def Daemon_Unpause_def Remove_def task_ops_id intro: put_small small_refl split: option.split)
  show "small_change d (snd (ChangeTaskLimit i spec d))" "small_change d (snd (ChangeConns i n d))"
    using task_ops_id(5,6)
    by (auto simp: ChangeTaskLimit_def ChangeConns_def split_beta intro: put_small small_refl split: option.split)
  show "small_change d (snd (ChangeGlobalLimit spec d))"
    by (auto simp: ChangeGlobalLimit_def small_change_def split_beta)
qed

text \<open>The scheduler only knows ids of tasks in the heap.\<close>

definition daemon_ok :: "nat \<Rightarrow> daemon \<Rightarrow> bool" where
  "daemon_ok n d \<longleftrightarrow> manager_ok (dm_mgr d) \<and> used_ids (dm_sched d) \<subseteq> dom (mg_heap (dm_mgr d)) \<and>
     daemon_step\<^sup>*\<^sup>* (NewEmptyScheduler n) (dm_sched d)"

lemma small_ok: "small_change d d' \<Longrightarrow> daemon_ok n d \<Longrightarrow> daemon_ok n d'"
proof -
  assume c: "small_change d d'" and ok: "daemon_ok n d"
  from c consider i t t' where "mg_heap (dm_mgr d) i = Some t" "tk_id t' = tk_id t" "d' = put_task i t' d"
    | l where "d' = d\<lparr>dm_mgr := (dm_mgr d)\<lparr>mg_lim := l\<rparr>\<rparr>" | "d' = d"
    unfolding small_change_def by blast
  then show ?thesis
  proof cases
    case 1
    have "manager_ok ((dm_mgr d)\<lparr>mg_heap := (mg_heap (dm_mgr d))(i \<mapsto> t')\<rparr>)"
      using manager_ok_heap [OF _ 1(1,2)] ok by (simp add: daemon_ok_def)
    moreover have "used_ids (dm_sched d) \<subseteq> insert i (dom (mg_heap (dm_mgr d)))" using ok by (auto simp: daemon_ok_def)
    ultimately show ?thesis using ok 1(3) by (simp add: daemon_ok_def put_task_def)
  next
    case 2
    then show ?thesis using ok by (simp add: daemon_ok_def manager_ok_def)
  qed (use ok in simp)
qed

lemma used_ids_sets:
  "used_ids s = set (ids (sc_queued s)) \<union> set (ids (sc_live s)) \<union> (\<lambda>g. st_id (fst g)) ` set (sc_gor s)"
  by (simp add: used_ids_def image_Un image_image)

lemma handleComplete_ids: "used_ids (handleComplete st ok s) \<subseteq> used_ids s"
  by (auto simp: used_ids_def handleComplete_def Let_def live_delete_def)

lemma admitNext_ids: "used_ids (admitNext s) \<subseteq> used_ids s"
  by (auto simp: used_ids_def admitNext_def launch_def AddCounter_def live_put_def live_delete_def Let_def split: list.splits if_splits)

lemma rebalance_used: "used_ids (snd (rebalanceLive single accepts ended s)) = used_ids s"
proof -
  obtain l where l: "snd (rebalanceLive single accepts ended s) = s\<lparr>sc_live := l\<rparr>" "ids l = ids (sc_live s)"
    using rebalance_ids by blast
  then show ?thesis unfolding used_ids_sets l(1) by (simp del: set_map)
qed

lemma sched_step_ids: "sched_step s s' \<Longrightarrow> used_ids s' \<subseteq> used_ids s"
proof (induction rule: sched_step.induct)
  case (task_ends i s st ok)
  have "(st, Running) \<in> set (sc_gor s)" using task_ends by (metis nth_mem)
  then show ?case using set_update_subset_insert [of "sc_gor s" i "(st, Reporting ok)"] by (force simp: used_ids_def)
next
  case (report i s st ok)
  have "(st, Reporting ok) \<in> set (sc_gor s)" using report by (metis nth_mem)
  then show ?case using set_update_subset_insert [of "sc_gor s" i "(st, Reported)"] by (force simp: used_ids_def)
next
  case (receive s st ok rs)
  show ?case by (rule order_trans [OF handleComplete_ids]) (simp add: used_ids_def)
next
  case (drain_done s st ok rs)
  show ?case by (rule order_trans [OF handleComplete_ids]) (simp add: used_ids_def)
next
  case (drain_cancelled s st ok rs)
  show ?case by (rule order_trans [OF handleComplete_ids]) (simp add: used_ids_def)
next
  case (admit s)
  show ?case by (rule order_trans [OF admitNext_ids]) (simp add: used_ids_def)
next
  case (rebalance s single accepts ended)
  show ?case unfolding rebalance_used by (simp add: used_ids_def)
qed (auto simp: used_ids_def wind_down_def releaseIdle_def)

lemma admit_conns_ok:
  "manager_ok m \<Longrightarrow> manager_ok (admit_conns s m) \<and> dom (mg_heap (admit_conns s m)) = dom (mg_heap m)"
proof (cases "sc_queued s")
  case (Cons q qs)
  assume ok: "manager_ok m"
  show ?thesis
  proof (cases "mg_heap m (st_id q)")
    case (Some t)
    then show ?thesis using ok manager_ok_heap [OF ok Some, of "SetConns (st_conns q) t"] Cons task_ops_id(4)
      by (auto simp: admit_conns_def)
  qed (use ok Cons in \<open>simp add: admit_conns_def\<close>)
qed (simp add: admit_conns_def)

lemma AddURL_ok:
  assumes "daemon_ok n d"
  shows "daemon_ok n (snd (AddURL url k d))"
proof -
  obtain i c m1 where nt: "NewTask url (dm_mgr d) = (i, c, m1)" by (metis prod_cases3)
  have mo: "manager_ok (dm_mgr d)" and u: "used_ids (dm_sched d) \<subseteq> dom (mg_heap (dm_mgr d))" using assms by (simp_all add: daemon_ok_def)
  note t = NewTask_ok [OF mo nt]
  have fr: "i \<notin> used_ids (dm_sched d)" using t(3) u by blast
  define st where "st = \<lparr>st_id = i, st_conns = (if k \<le> 0 then c else k), st_counted = False\<rparr>"
  obtain e s1 where en: "Enqueue st (dm_sched d) = (e, s1)" by (cases "Enqueue st (dm_sched d)")
  show ?thesis
  proof (cases e)
    case (Some x)
    have a: "AddURL url k d = (Inl x, d\<lparr>dm_mgr := m1\<rparr>)" using nt en Some by (simp add: AddURL_def Let_def st_def)
    have "used_ids (dm_sched d) \<subseteq> dom (mg_heap m1)" using u t(4) by auto
    then show ?thesis using assms t(1) unfolding a by (simp add: daemon_ok_def)
  next
    case None
    let ?s2 = "admitNext (s1\<lparr>sc_pendingAdmits := sc_pendingAdmits s1 - 1\<rparr>)"
    have a: "AddURL url k d = (Inr i, d\<lparr>dm_mgr := admit_conns s1 m1, dm_sched := ?s2\<rparr>)"
      using nt en None by (simp add: AddURL_def Let_def st_def)
    have "daemon_step (dm_sched d) s1" by (rule enqueue [of st]) (use fr en None in \<open>simp_all add: st_def\<close>)
    moreover have "daemon_step s1 ?s2"
      by (rule rpc_admit) (use en None in \<open>auto simp: Enqueue_def split: if_splits\<close>)
    ultimately have r: "daemon_step\<^sup>*\<^sup>* (NewEmptyScheduler n) ?s2" using assms by (meson daemon_ok_def path2)
    have "used_ids s1 = insert i (used_ids (dm_sched d))"
      using en None by (auto simp: Enqueue_def used_ids_sets st_def split: if_splits)
    then have "used_ids ?s2 \<subseteq> insert i (used_ids (dm_sched d))"
      by (intro order_trans [OF admitNext_ids]) (simp add: used_ids_def)
    then have "used_ids ?s2 \<subseteq> dom (mg_heap (admit_conns s1 m1))" using u t(4) admit_conns_ok [OF t(1)] by auto
    then show ?thesis using admit_conns_ok [OF t(1)] r unfolding a by (simp add: daemon_ok_def)
  qed
qed

lemma dmn_step_ok: "dmn_step d d' \<Longrightarrow> daemon_ok n d \<Longrightarrow> daemon_ok n d'"
proof (induction rule: dmn_step.induct)
  case (run d s)
  have "daemon_step\<^sup>*\<^sup>* (NewEmptyScheduler n) s"
    using run(3) inner [OF run(2)] by (auto simp: daemon_ok_def intro: rtranclp.rtrancl_into_rtrancl)
  moreover have "used_ids s \<subseteq> dom (mg_heap (dm_mgr d))"
    using run(3) by (intro order_trans [OF sched_step_ids [OF run(2)]]) (simp add: daemon_ok_def)
  ultimately show ?case using run(3) by (simp add: daemon_ok_def)
next
  case (task_moves d i t t')
  have "small_change d (put_task i t' d)" unfolding small_change_def using task_moves(1,2) by blast
  then show ?case using task_moves(3) by (rule small_ok)
next
  case (stop d)
  have "daemon_step (dm_sched d) ((dm_sched d)\<lparr>sc_ctxDone := True\<rparr>)" by (rule inner, rule context_done)
  then have "daemon_step\<^sup>*\<^sup>* (NewEmptyScheduler n) ((dm_sched d)\<lparr>sc_ctxDone := True\<rparr>)"
    using stop by (auto simp: daemon_ok_def intro: rtranclp.rtrancl_into_rtrancl)
  then show ?case using stop by (simp add: daemon_ok_def Stop_def used_ids_def)
next
  case (add d url k)
  then show ?case by (rule AddURL_ok)
next
  case (start d)
  then show ?case by (simp add: daemon_ok_def Start_def)
next
  case (on_dead d h)
  then show ?case by (simp add: daemon_ok_def OnDead_def Let_def)
next
  case (run_returned d)
  then show ?case by (simp add: daemon_ok_def close_done_def)
next
  case (hooks d)
  then show ?case by (simp add: daemon_ok_def take_hooks_def)
qed (rule small_ok, rule method_small, assumption)+

lemma dmn_reach_ok:
  assumes "dmn_step\<^sup>*\<^sup>* (NewDaemon (NewEmptyScheduler n) m) d" "manager_ok m"
  shows "daemon_ok n d"
  using assms(1)
proof (induction rule: rtranclp_induct)
  case base
  show ?case using assms(2) by (simp add: daemon_ok_def NewDaemon_def used_ids_def NewEmptyScheduler_def NewScheduler_def)
qed (rule dmn_step_ok)

lemma NewManager_ok: "NewManager new_client opts = Inr m \<Longrightarrow> manager_ok m"
  by (auto simp: NewManager_def manager_ok_def Let_def split: option.splits sum.splits if_splits)

subsection \<open>The hooks\<close>

definition hooks_ok :: "daemon \<Rightarrow> bool" where
  "hooks_ok d \<longleftrightarrow> mset (dm_fired d) + mset (dm_ondead d) = mset (dm_registered d) \<and> (dm_done d \<longrightarrow> dm_started d) \<and>
     (\<not> dm_done d \<longrightarrow> dm_fired d = []) \<and> (dm_taken d \<longrightarrow> dm_ondead d = [] \<and> dm_done d)"

lemma AddURL_admin:
  "dm_fired (snd (AddURL url n d)) = dm_fired d" "dm_ondead (snd (AddURL url n d)) = dm_ondead d"
  "dm_registered (snd (AddURL url n d)) = dm_registered d" "dm_done (snd (AddURL url n d)) = dm_done d"
  "dm_taken (snd (AddURL url n d)) = dm_taken d" "dm_started (snd (AddURL url n d)) = dm_started d"
  by (simp_all add: AddURL_def Let_def split: prod.split option.split)

lemma small_hooks: "small_change d d' \<Longrightarrow> hooks_ok d \<Longrightarrow> hooks_ok d'"
  by (auto simp: small_change_def hooks_ok_def put_task_def)

lemma dmn_step_hooks: "dmn_step d d' \<Longrightarrow> hooks_ok d \<Longrightarrow> hooks_ok d'"
proof (induction rule: dmn_step.induct)
  case (add d url n)
  then show ?case by (simp add: hooks_ok_def AddURL_admin)
next
  case (task_moves d i t t')
  then show ?case by (simp add: hooks_ok_def put_task_def)
next
  case (on_dead d h)
  then show ?case by (auto simp: hooks_ok_def OnDead_def doneClosed_def Let_def)
next
  case (start d)
  then show ?case by (auto simp: hooks_ok_def Start_def)
next
  case (stop d)
  then show ?case by (auto simp: hooks_ok_def Stop_def)
next
  case (run_returned d)
  then show ?case by (auto simp: hooks_ok_def close_done_def)
next
  case (hooks d)
  then show ?case by (auto simp: hooks_ok_def take_hooks_def)
next
  case (run d s)
  then show ?case by (simp add: hooks_ok_def)
qed (rule small_hooks, rule method_small, assumption)+

text \<open>The hooks on the end of the daemon fire exactly once. In every reachable state the hooks fired and those
  waiting are together the hooks registered; none has fired while the run goes on; once the run has ended and its
  goroutine has taken the list, every registered hook has fired, those registered later included.\<close>

theorem OnDead_exactly_once:
  assumes "dmn_step\<^sup>*\<^sup>* (NewDaemon s m) d"
  shows "mset (dm_fired d) + mset (dm_ondead d) = mset (dm_registered d) \<and> (\<not> Dead d \<longrightarrow> dm_fired d = [])
    \<and> (dm_taken d \<longrightarrow> Dead d \<and> mset (dm_fired d) = mset (dm_registered d))"
proof -
  have "hooks_ok d" using assms
  proof (induction rule: rtranclp_induct)
    case base
    show ?case by (simp add: hooks_ok_def NewDaemon_def)
  qed (rule dmn_step_hooks)
  then show ?thesis by (auto simp: hooks_ok_def Dead_def)
qed

subsection \<open>The daemon's scheduler\<close>

text \<open>What the daemon's lists show, in every state its invariant allows.\<close>

lemma dmn_reach_views:
  assumes "daemon_ok n d"
  shows "daemon_step\<^sup>*\<^sup>* (NewEmptyScheduler n) (dm_sched d)"
    and "length (TellActive d) = length (sc_live (dm_sched d))" and "length (TellActive d) \<le> n"
    and "length (TellWaiting d) = length (sc_queued (dm_sched d))" and "length (TellWaiting d) \<le> maxPendingTasks"
    and "distinct (map pv_ID (TellActive d) @ map pv_ID (TellWaiting d))"
    and "set (map pv_ID (TellActive d)) = set (ids (sc_live (dm_sched d)))" and "map pv_ID (TellWaiting d) = ids (sc_queued (dm_sched d))"
proof -
  show r: "daemon_step\<^sup>*\<^sup>* (NewEmptyScheduler n) (dm_sched d)" using assms by (simp add: daemon_ok_def)
  have b: "length (sc_live (dm_sched d)) \<le> n" "length (sc_queued (dm_sched d)) \<le> maxPendingTasks"
    "distinct (ids (sc_live (dm_sched d)) @ ids (sc_queued (dm_sched d)))"
    using daemon_reach [OF r] daemon_reach_bounds [OF r] by (simp_all add: daemon_inv_def sched_inv_def sched_bounds_def)
  have known: "map pv_ID (snapshots is d) = is" if "set is \<subseteq> used_ids (dm_sched d)" for "is"
    using that
  proof (induction "is")
    case (Cons i "is")
    then obtain t where "mg_heap (dm_mgr d) i = Some t" "tk_id t = i" using assms by (fastforce simp: daemon_ok_def manager_ok_def)
    then show ?case using Cons by (simp add: snapshots_def List.map_filter_simps Snapshot_def)
  qed (simp add: snapshots_def List.map_filter_simps)
  have a: "map pv_ID (TellActive d) = sort (ids (sc_live (dm_sched d)))"
    unfolding TellActive_def LiveViews_def by (rule known) (auto simp: used_ids_sets)
  show w: "map pv_ID (TellWaiting d) = ids (sc_queued (dm_sched d))"
    unfolding TellWaiting_def QueuedViews_def by (rule known) (auto simp: used_ids_sets)
  show la: "length (TellActive d) = length (sc_live (dm_sched d))" using arg_cong [OF a, of length] by simp
  show lw: "length (TellWaiting d) = length (sc_queued (dm_sched d))" using arg_cong [OF w, of length] by simp
  show "length (TellActive d) \<le> n" "length (TellWaiting d) \<le> maxPendingTasks" using la lw b by simp_all
  show "distinct (map pv_ID (TellActive d) @ map pv_ID (TellWaiting d))" using b(3) unfolding a w by simp
  show "set (map pv_ID (TellActive d)) = set (ids (sc_live (dm_sched d)))" unfolding a by simp
qed

subsection \<open>A full line\<close>

definition refuses :: "daemon \<Rightarrow> bool" where
  "refuses d \<longleftrightarrow> sc_windingDown (dm_sched d) \<or> maxPendingTasks \<le> length (sc_queued (dm_sched d))"

lemma rejected_add:
  assumes "manager_ok (dm_mgr d)" "refuses d" "filter (terminal_in (mg_heap (dm_mgr d))) (mg_registry (dm_mgr d)) = []"
  shows "\<exists>e m1. AddURL url n d = (Inl e, d\<lparr>dm_mgr := m1\<rparr>) \<and> manager_ok m1 \<and>
    filter (terminal_in (mg_heap m1)) (mg_registry m1) = [] \<and> length (mg_registry m1) = length (mg_registry (dm_mgr d)) + 1"
proof -
  let ?m = "dm_mgr d"
  let ?i = "task_id (mg_nextID ?m + 1)"
  let ?heap = "(mg_heap ?m)(?i \<mapsto> added url ?m)"
  let ?m1 = "?m\<lparr>mg_nextID := mg_nextID ?m + 1, mg_heap := ?heap, mg_registry := mg_registry ?m @ [?i]\<rparr>"
  have f: "filter (terminal_in ?heap) (mg_registry ?m @ [?i]) = []"
    using assms(3) fresh_id [OF assms(1)] assms(1)
    by (auto simp: filter_empty_conv terminal_in_def added_sel terminal_def manager_ok_def)
  have "dropTerminalTasks ?heap (mg_registry ?m @ [?i]) k = mg_registry ?m @ [?i]" for k
    unfolding dropTerminalTasks_def f by simp
  then have nt: "NewTask url ?m = (?i, eo_Connections (mg_opts ?m), ?m1)" unfolding NewTask_eq [OF assms(1)] by simp
  obtain e where "Enqueue st (dm_sched d) = (Some e, dm_sched d)" for st
    using assms(2) by (cases "sc_windingDown (dm_sched d)") (auto simp: refuses_def Enqueue_def)
  then have "AddURL url n d = (Inl e, d\<lparr>dm_mgr := ?m1\<rparr>)" by (simp add: AddURL_def nt Let_def)
  then show ?thesis using NewTask_ok(1) [OF assms(1) nt] f by auto
qed

text \<open>The cap on the waiting line does not bound the memory of the daemon. While the line is full or the scheduler is
  winding down, and no tracked task has ended, every refused \<open>AddURL\<close> still leaves its task in the registry, where nothing
  can ever end it: the registry grows by one with each call, past its cap of 1000.\<close>

theorem refused_adds_grow:
  assumes "manager_ok (dm_mgr d)" and "refuses d"
    and "filter (terminal_in (mg_heap (dm_mgr d))) (mg_registry (dm_mgr d)) = []"
  shows "length (mg_registry (dm_mgr (fold (\<lambda>url d. snd (AddURL url n d)) urls d))) = length (mg_registry (dm_mgr d)) + length urls"
  using assms
proof (induction urls arbitrary: d)
  case (Cons u us)
  obtain e m1 where a: "AddURL u n d = (Inl e, d\<lparr>dm_mgr := m1\<rparr>)" "manager_ok m1"
    "filter (terminal_in (mg_heap m1)) (mg_registry m1) = []" "length (mg_registry m1) = length (mg_registry (dm_mgr d)) + 1"
    using rejected_add [OF Cons.prems] by blast
  have "refuses (d\<lparr>dm_mgr := m1\<rparr>)" using Cons.prems(2) by (simp add: refuses_def)
  then show ?case using Cons.IH [of "d\<lparr>dm_mgr := m1\<rparr>"] a by simp
qed simp

subsection \<open>A daemon in use\<close>

definition demo_opts :: exec_opts where
  "demo_opts = \<lparr>eo_Dir = ''.'', eo_OutFile = [], eo_Connections = 8, eo_SplitFile = 0, eo_Retry = 3, eo_RetryWait = 1, eo_Continue = False,
     eo_ChunkSize = 4194304, eo_Timeout = 30, eo_Checksum = [], eo_ChecksumURL = [], eo_Mirrors = [], eo_LimitRate = [],
     eo_TaskLimitRate = [], eo_UserAgent = [], eo_Headers = [], eo_Referer = [], eo_Proxy = [], eo_CheckCert = True,
     eo_MaxRedirect = 5, eo_Profile = [], eo_Split = 5, eo_MinSplitSize = 20971520, eo_MaxConnPerServer = 1, eo_Collision = []\<rparr>"

definition demo_manager :: manager where
  "demo_manager = \<lparr>mg_opts = demo_opts, mg_hasH2 = False, mg_lim = off_limiter, mg_nextID = 0, mg_registry = [], mg_heap = (\<lambda>_. None)\<rparr>"

lemma demo_manager_new: "NewManager (\<lambda>_. None :: unit option) demo_opts = Inr demo_manager"
  by (simp add: demo_opts_def demo_manager_def go_eval)

lemma demo_manager_ok: "manager_ok demo_manager"
  using NewManager_ok [OF demo_manager_new] .

theorem NewTask_registry_witness:
  "\<exists>i c m'. NewTask ''http://h/f'' demo_manager = (i, c, m') \<and> manager_ok m' \<and> map_option tk_state (Task m' i) = Some StateQueued"
proof -
  obtain i c m' where n: "NewTask ''http://h/f'' demo_manager = (i, c, m')" by (metis prod_cases3)
  have "mg_nextID demo_manager + 1 < 2 ^ 63" by (simp add: demo_manager_def)
  from NewTask_registry [OF demo_manager_ok this n] show ?thesis using n by blast
qed

definition demo_daemon :: daemon where
  "demo_daemon = snd (AddURL ''http://h/f'' 0 (OnDead 7 (NewDaemon (NewEmptyScheduler 1) demo_manager)))"

lemma demo_daemon_reach: "dmn_step\<^sup>*\<^sup>* (NewDaemon (NewEmptyScheduler 1) demo_manager) demo_daemon"
  unfolding demo_daemon_def by (rule path2 [OF rtranclp.rtrancl_refl], rule on_dead, rule add)

lemma demo_daemon_live: "map st_conns (sc_live (dm_sched demo_daemon)) = [8]"
proof -
  obtain i m1 where nt: "NewTask ''http://h/f'' demo_manager = (i, 8, m1)"
    using NewTask_eq [OF demo_manager_ok] by (metis demo_manager_def demo_opts_def exec_opts.select_convs(3) manager.select_convs(1))
  show ?thesis
    by (simp add: demo_daemon_def NewDaemon_def OnDead_def doneClosed_def AddURL_def nt Let_def demo_simps)
qed

theorem OnDead_exactly_once_witness: "dm_registered demo_daemon = [7] \<and> dm_fired demo_daemon = [] \<and> mset (dm_ondead demo_daemon) = {#7#}"
proof -
  have "dm_registered demo_daemon = [7] \<and> \<not> Dead demo_daemon"
    by (simp add: demo_daemon_def AddURL_admin Dead_def OnDead_def NewDaemon_def doneClosed_def Let_def)
  moreover have "mset (dm_fired demo_daemon) + mset (dm_ondead demo_daemon) = mset (dm_registered demo_daemon)
      \<and> (\<not> Dead demo_daemon \<longrightarrow> dm_fired demo_daemon = [])"
    using OnDead_exactly_once [OF demo_daemon_reach] by blast
  ultimately show ?thesis by (metis add.left_neutral mset.simps mset_zero_iff)
qed

theorem refused_adds_grow_witness:
  "\<exists>d. dm_mgr d = demo_manager \<and> refuses d \<and> length (mg_registry (dm_mgr (fold (\<lambda>url d. snd (AddURL url 0 d)) (replicate 2000 ''u'') d))) = 2000"
proof -
  let ?d = "NewDaemon ((NewEmptyScheduler 1)\<lparr>sc_windingDown := True\<rparr>) demo_manager"
  have "manager_ok (dm_mgr ?d)" "refuses ?d" "mg_registry (dm_mgr ?d) = []"
    using demo_manager_ok by (simp_all add: NewDaemon_def refuses_def demo_manager_def)
  with refused_adds_grow [of ?d 0 "replicate 2000 ''u''"] show ?thesis
    by (intro exI [of _ ?d]) (simp add: NewDaemon_def)
qed

end
