(* ===== verification/Json.thy ===== *)
theory Json imports Complex_Main Utf8 begin

section \<open>JSON documents as encoding/json sees them\<close>

text \<open>
  The control file of a download and the RPC requests are JSON. A document is its tree; an object is
  the list of its members in document order, and a number is an integer literal or the rational it denotes.
  The readers below are the cases of \<open>json.Unmarshal\<close> into the Go types the repository uses: null
  leaves the target as it is, an unfitting value is an error, and a string that is not valid UTF-8 is coerced
  (the encoder does the same when it writes one).
\<close>

datatype json =
  JNull
| JBool bool
| JNum int
| JFrac rat
| JStr string
| JArr "json list"
| JObj "(string \<times> json) list"

definition in_int64 :: "int \<Rightarrow> bool" where
  "in_int64 i \<longleftrightarrow> - (2 ^ 63) \<le> i \<and> i < 2 ^ 63"

fun set_str :: "json \<Rightarrow> string \<Rightarrow> string option" where
  "set_str JNull old = Some old"
| "set_str (JStr s) old = Some (coerce s)"
| "set_str _ old = None"

fun set_int64 :: "json \<Rightarrow> int \<Rightarrow> int option" where
  "set_int64 JNull old = Some old"
| "set_int64 (JNum i) old = (if in_int64 i then Some i else None)"
| "set_int64 _ old = None"

fun set_elems :: "json list \<Rightarrow> int list option" where
  "set_elems [] = Some []"
| "set_elems (j # js) =
     (case (set_int64 j 0, set_elems js) of (Some i, Some is) \<Rightarrow> Some (i # is) | _ \<Rightarrow> None)"

fun set_int_list :: "json \<Rightarrow> int list \<Rightarrow> int list option" where
  "set_int_list JNull old = Some []"
| "set_int_list (JArr js) old = set_elems js"
| "set_int_list _ old = None"

text \<open>A map from int64: the keys are decimal strings, a repeated key takes the last value.\<close>

fun set_entry :: "int \<Rightarrow> string \<Rightarrow> (int \<times> string) list \<Rightarrow> (int \<times> string) list" where
  "set_entry k v [] = [(k, v)]"
| "set_entry k v ((k', v') # m) = (if k = k' then (k, v) # m else (k', v') # set_entry k v m)"

fun set_entries :: "(string \<times> json) list \<Rightarrow> (int \<times> string) list \<Rightarrow> (int \<times> string) list option" where
  "set_entries [] m = Some m"
| "set_entries ((k, j) # ps) m =
     (case (parse_int k, set_str j []) of
        (ParsedInt i, Some s) \<Rightarrow> set_entries ps (set_entry i s m)
      | _ \<Rightarrow> None)"

fun set_int_map :: "json \<Rightarrow> (int \<times> string) list \<Rightarrow> (int \<times> string) list option" where
  "set_int_map JNull old = Some []"
| "set_int_map (JObj ps) old = set_entries ps old"
| "set_int_map _ old = None"

text \<open>A member with the omitempty option is left out when its value is empty.\<close>

definition omit :: "bool \<Rightarrow> string \<Rightarrow> json \<Rightarrow> (string \<times> json) list" where
  "omit is_empty name j = (if is_empty then [] else [(name, j)])"

lemma set_elems_JNum: "\<forall>i \<in> set is. in_int64 i \<Longrightarrow> set_elems (map JNum is) = Some is"
  by (induction "is") auto

lemma set_entry_fresh: "k \<notin> fst ` set m \<Longrightarrow> set_entry k v m = m @ [(k, v)]"
  by (induction k v m rule: set_entry.induct) auto

text \<open>Writing a map with distinct non-negative keys and reading it back.\<close>

lemma set_entries_itoa:
  "\<forall>k \<in> fst ` set ps. 0 \<le> k \<and> k < 2 ^ 63 \<Longrightarrow> distinct (map fst (m @ ps)) \<Longrightarrow>
   set_entries (map (\<lambda>(k, v). (itoa k, JStr v)) ps) m = Some (m @ map (map_prod id coerce) ps)"
proof (induction ps arbitrary: m)
  case (Cons p ps)
  then have "set_entry (fst p) (coerce (snd p)) m = m @ [map_prod id coerce p]"
    using set_entry_fresh [of "fst p" m "coerce (snd p)"] by (cases p) auto
  moreover have "parse_int (itoa (fst p)) = ParsedInt (fst p)" using Cons.prems(1) by (intro parse_int_itoa) auto
  ultimately show ?case using Cons.IH [of "m @ [map_prod id coerce p]"] Cons.prems by (cases p) simp
qed simp

end
