(* ===== verification/Broadcaster.thy ===== *)
theory Broadcaster imports Json "HOL-Library.Sublist" begin

section \<open>Event fan-out (internal/rpc/ws.go, throttler.go, types.go)\<close>

text \<open>
  The WebSocket side of the RPC server: a set of subscribers, each with a channel of 64 events that a writer
  goroutine empties. An event that finds the channel full is dropped for that subscriber, so that a slow client
  never holds the engine up. A subscriber is an id, its channel, and two ghosts: the events sent while it was
  subscribed and the ones its writer took. A connection is its writer and reader goroutines and how each ends; the
  upgrade, the deadlines, the pings and the bytes on the wire are the library's. The throttler forwards the
  snapshots of the live tasks at most every 250 ms.
\<close>

record event =
  ev_Method :: string
  ev_Params :: json

record subscriber =
  sb_id :: nat
  sb_ch :: "event list"
  sb_sent :: "event list"
  sb_taken :: "event list"

definition channel_capacity :: nat where "channel_capacity = 64"

definition NewBroadcaster :: "subscriber list" where "NewBroadcaster = []"

definition offer :: "event \<Rightarrow> subscriber \<Rightarrow> subscriber" where
  "offer e s =
     (let s1 = s\<lparr>sb_sent := sb_sent s @ [e]\<rparr>
      in if length (sb_ch s) < channel_capacity then s1\<lparr>sb_ch := sb_ch s @ [e]\<rparr> else s1)"

definition Broadcast :: "event \<Rightarrow> subscriber list \<Rightarrow> subscriber list" where
  "Broadcast e subs = map (offer e) subs"

definition addWS :: "nat \<Rightarrow> subscriber list \<Rightarrow> subscriber list" where
  "addWS i subs = subs @ [\<lparr>sb_id = i, sb_ch = [], sb_sent = [], sb_taken = []\<rparr>]"

definition writer_take :: "subscriber \<Rightarrow> subscriber" where
  "writer_take s = (case sb_ch s of [] \<Rightarrow> s | e # es \<Rightarrow> s\<lparr>sb_ch := es, sb_taken := sb_taken s @ [e]\<rparr>)"

definition unsubscribe :: "nat \<Rightarrow> subscriber list \<Rightarrow> subscriber list" where
  "unsubscribe i subs = filter (\<lambda>s. sb_id s \<noteq> i) subs"

definition SubscriberCount :: "subscriber list \<Rightarrow> nat" where
  "SubscriberCount subs = length subs"

inductive bc_step :: "subscriber list \<Rightarrow> subscriber list \<Rightarrow> bool" where
  broadcast: "bc_step subs (Broadcast e subs)"
| subscribe: "i \<notin> sb_id ` set subs \<Longrightarrow> bc_step subs (addWS i subs)"
| writer: "subs = xs @ s # ys \<Longrightarrow> bc_step subs (xs @ writer_take s # ys)"
| leave: "bc_step subs (unsubscribe i subs)"

subsection \<open>The life of one connection\<close>

text \<open>The two goroutines \<open>addWS\<close> starts for a connection: the writer, which empties the channel and pings, and the
  reader, which only notices the end; the drop channel that tells the writer to stop, whether the connection is open, and
  whether the subscriber is in the set. A failing write ends the writer; a read fails when the peer leaves, sends too
  much, stops answering pings, or the connection is closed.\<close>

record ws_conn =
  wc_writer :: bool
  wc_reader :: bool
  wc_dropped :: bool
  wc_open :: bool
  wc_member :: bool

definition attach :: ws_conn where
  "attach = \<lparr>wc_writer = True, wc_reader = True, wc_dropped = False, wc_open = True, wc_member = True\<rparr>"

definition writer_ends :: "ws_conn \<Rightarrow> ws_conn" where
  "writer_ends c = c\<lparr>wc_writer := False, wc_member := False, wc_open := False, wc_dropped := True\<rparr>"

definition reader_ends :: "ws_conn \<Rightarrow> ws_conn" where
  "reader_ends c = c\<lparr>wc_reader := False, wc_dropped := True\<rparr>"

inductive ws_step :: "ws_conn \<Rightarrow> ws_conn \<Rightarrow> bool" where
  write_works: "wc_writer c \<Longrightarrow> wc_open c \<Longrightarrow> ws_step c c"
| write_fails: "wc_writer c \<Longrightarrow> ws_step c (writer_ends c)"
| told_to_stop: "wc_writer c \<Longrightarrow> wc_dropped c \<Longrightarrow> ws_step c (writer_ends c)"
| read_works: "wc_reader c \<Longrightarrow> wc_open c \<Longrightarrow> ws_step c c"
| read_fails: "wc_reader c \<Longrightarrow> ws_step c (reader_ends c)"

inductive_cases ws_stepE: "ws_step c c'"

definition ws_ok :: "ws_conn \<Rightarrow> bool" where
  "ws_ok c \<longleftrightarrow> (wc_member c \<longleftrightarrow> wc_writer c) \<and> (wc_open c \<longleftrightarrow> wc_writer c) \<and> (wc_dropped c \<longleftrightarrow> \<not> (wc_writer c \<and> wc_reader c))"

lemma ws_reach_ok: "ws_step\<^sup>*\<^sup>* attach c \<Longrightarrow> ws_ok c"
proof (induction rule: rtranclp_induct)
  case (step c c')
  from step(2,3) show ?case by (elim ws_stepE) (auto simp: ws_ok_def writer_ends_def reader_ends_def)
qed (simp add: ws_ok_def attach_def)

text \<open>a connection leaves nothing behind: the subscriber is in the set exactly as long as its writer runs; when the reader
  has ended the writer finds the drop channel closed; when the writer has ended the only step left ends the reader too,
  with the connection closed; and nothing stops before both have ended.\<close>

lemma no_goroutine_left:
  assumes "ws_step\<^sup>*\<^sup>* attach c"
  shows "wc_member c \<longleftrightarrow> wc_writer c"
    and "wc_writer c \<Longrightarrow> \<not> wc_reader c \<Longrightarrow> wc_dropped c \<and> ws_step c (writer_ends c)"
    and "\<not> wc_writer c \<Longrightarrow> ws_step c c' \<Longrightarrow> \<not> wc_writer c' \<and> \<not> wc_reader c' \<and> \<not> wc_member c' \<and> \<not> wc_open c'"
    and "(\<forall>c'. \<not> ws_step c c') \<Longrightarrow> \<not> wc_writer c \<and> \<not> wc_reader c"
proof -
  have ok: "ws_ok c" by (rule ws_reach_ok [OF assms])
  then show "wc_member c \<longleftrightarrow> wc_writer c" by (simp add: ws_ok_def)
  show "wc_dropped c \<and> ws_step c (writer_ends c)" if "wc_writer c" "\<not> wc_reader c"
    using that ok told_to_stop by (simp add: ws_ok_def)
  show "\<not> wc_writer c' \<and> \<not> wc_reader c' \<and> \<not> wc_member c' \<and> \<not> wc_open c'" if "\<not> wc_writer c" "ws_step c c'"
    using that(2,1) ok by (elim ws_stepE) (auto simp: ws_ok_def reader_ends_def)
  show "\<not> wc_writer c \<and> \<not> wc_reader c" if "\<forall>c'. \<not> ws_step c c'"
    using that write_fails [of c] read_fails [of c] by blast
qed

subsection \<open>The throttler\<close>

text \<open>The clock is passed in; \<open>last\<close> is the time of the last emission, None for the zero time.\<close>

definition throttle_interval :: int where "throttle_interval = 250 * 10 ^ 6"

definition Forward :: "('v \<Rightarrow> json) \<Rightarrow> int \<Rightarrow> 'v list \<Rightarrow> int option \<times> subscriber list \<Rightarrow> int option \<times> subscriber list" where
  "Forward snapshot_params now live_views st =
     (case st of (last_at, subs) \<Rightarrow>
        if (case last_at of None \<Rightarrow> False | Some t \<Rightarrow> now - t < throttle_interval) then (last_at, subs)
        else (Some now,
              fold (\<lambda>v. Broadcast \<lparr>ev_Method = ''onDownloadProgress'', ev_Params = snapshot_params v\<rparr>) live_views subs))"

subsection \<open>What a subscriber gets\<close>

definition sub_ok :: "subscriber \<Rightarrow> bool" where
  "sub_ok s \<longleftrightarrow> subseq (sb_taken s @ sb_ch s) (sb_sent s) \<and> length (sb_ch s) \<le> channel_capacity \<and>
     (length (sb_sent s) \<le> channel_capacity \<longrightarrow> sb_taken s @ sb_ch s = sb_sent s)"

lemma offer_ok:
  assumes "sub_ok s"
  shows "sub_ok (offer e s)"
proof -
  have d: "length (sb_sent s) = length (sb_taken s) + length (sb_ch s)" if "length (sb_sent s) \<le> channel_capacity"
    using assms that unfolding sub_ok_def by (metis length_append)
  have "subseq ((sb_taken s @ sb_ch s) @ [e]) (sb_sent s @ [e])"
    using assms by (intro list_emb_append_mono) (simp_all add: sub_ok_def)
  moreover have "subseq (sb_taken s @ sb_ch s) (sb_sent s @ [e])"
    using assms by (auto simp: sub_ok_def intro: subseq_rev_drop_many)
  ultimately show ?thesis using assms d by (auto simp: sub_ok_def offer_def Let_def)
qed

lemma writer_take_ok: "sub_ok s \<Longrightarrow> sub_ok (writer_take s)"
  by (auto simp: sub_ok_def writer_take_def split: list.split)

lemma bc_step_ok: "bc_step subs subs' \<Longrightarrow> list_all sub_ok subs \<Longrightarrow> list_all sub_ok subs'"
proof (induction rule: bc_step.induct)
  case (broadcast subs e)
  then show ?case by (simp add: Broadcast_def list_all_iff offer_ok)
next
  case (subscribe i subs)
  then show ?case by (simp add: addWS_def sub_ok_def)
next
  case (writer subs xs s ys)
  then show ?case by (simp add: writer_take_ok)
next
  case (leave subs i)
  then show ?case by (auto simp: unsubscribe_def list_all_iff)
qed

text \<open>C33: A subscriber sees the events in order and never a foreign one: what its writer took, followed by what waits in
  its channel, is a subsequence of the events broadcast while it was subscribed; the channel holds at most 64; and while
  no more than 64 events have been broadcast to it, nothing is missing.\<close>

theorem subscriber_in_order:
  assumes "bc_step\<^sup>*\<^sup>* NewBroadcaster subs" and "s \<in> set subs"
  shows "subseq (sb_taken s @ sb_ch s) (sb_sent s) \<and> length (sb_ch s) \<le> channel_capacity
    \<and> (length (sb_sent s) \<le> channel_capacity \<longrightarrow> sb_taken s @ sb_ch s = sb_sent s)"
proof -
  have "list_all sub_ok subs" using assms(1)
  proof (induction rule: rtranclp_induct)
    case base
    show ?case by (simp add: NewBroadcaster_def)
  qed (rule bc_step_ok)
  then show ?thesis using assms(2) by (auto simp: list_all_iff sub_ok_def)
qed

definition demo_event :: event where "demo_event = \<lparr>ev_Method = ''onDownloadStart'', ev_Params = JNull\<rparr>"

theorem subscriber_in_order_witness:
  "bc_step\<^sup>*\<^sup>* NewBroadcaster (Broadcast demo_event (addWS 1 NewBroadcaster)) \<and>
   sb_ch (hd (Broadcast demo_event (addWS 1 NewBroadcaster))) = [demo_event]"
proof -
  let ?subs = "Broadcast demo_event (addWS 1 NewBroadcaster)"
  have "bc_step NewBroadcaster (addWS 1 NewBroadcaster)" by (rule subscribe) (simp add: NewBroadcaster_def)
  then have r: "bc_step\<^sup>*\<^sup>* NewBroadcaster ?subs" using broadcast by (meson converse_rtranclp_into_rtranclp r_into_rtranclp)
  have e: "?subs = [offer demo_event \<lparr>sb_id = 1, sb_ch = [], sb_sent = [], sb_taken = []\<rparr>]"
    by (simp add: Broadcast_def addWS_def NewBroadcaster_def)
  have "hd ?subs \<in> set ?subs" unfolding e by simp
  with subscriber_in_order [OF r this] have "sb_taken (hd ?subs) @ sb_ch (hd ?subs) = sb_sent (hd ?subs)"
    unfolding e by (simp add: offer_def channel_capacity_def)
  then show ?thesis using r unfolding e by (simp add: offer_def channel_capacity_def)
qed

end
