(* ===== verification/Chunk_Download.thy ===== *)
theory Chunk_Download imports Worker_Pool Rate_Limiter Transport begin

section \<open>Downloading one chunk (internal/download/task_io.go)\<close>

text \<open>
  \<open>downloadChunk\<close> with its retries, \<open>fetchAndWrite\<close>, \<open>fetchWhole\<close> and \<open>copyChunkFrom\<close>. The
  destination is a partial function from offsets to bytes. What an attempt meets is its environment:
  the answer of the server, the reads of its body (data, then an error or the end), the offsets where
  a write fails, and whether the context is cancelled. Reads need not be as long as the buffer; an
  exhausted body reads as the end of file. Hashing is a function on the bytes fed to the hasher.
\<close>

type_synonym byte = nat
type_synonym disk = "int \<Rightarrow> byte option"

definition write_at :: "disk \<Rightarrow> int \<Rightarrow> byte list \<Rightarrow> disk" where
  "write_at d off bs = (\<lambda>i. if off \<le> i \<and> i < off + int (length bs) then Some (bs ! nat (i - off)) else d i)"

datatype read_end = More | Eof | ReadFails

type_synonym read_event = "byte list \<times> read_end"

record copy_state =
  cs_disk :: disk
  cs_off :: int
  cs_hash :: "byte list"
  cs_progress :: int

fun copyChunkFrom ::
  "(int \<Rightarrow> bool) \<Rightarrow> int \<Rightarrow> read_event list \<Rightarrow> copy_state \<Rightarrow> err_kind option \<times> copy_state" where
  "copyChunkFrom wfails base [] s = (None, s)"
| "copyChunkFrom wfails base ((bs, e) # evs) s =
     (if bs \<noteq> [] \<and> wfails (base + cs_off s) then (Some WriteError, s)
      else
        let s' = (if bs \<noteq> []
                  then s\<lparr>cs_disk := write_at (cs_disk s) (base + cs_off s) bs,
                         cs_hash := cs_hash s @ bs,
                         cs_off := cs_off s + int (length bs),
                         cs_progress := cs_progress s + int (length bs)\<rparr>
                  else s)
        in case e of Eof \<Rightarrow> (None, s') | ReadFails \<Rightarrow> (Some ReadError, s')
           | More \<Rightarrow> copyChunkFrom wfails base evs s')"

record attempt_env =
  at_answer :: "response option"
  at_body :: "read_event list"
  at_wfails :: "int \<Rightarrow> bool"
  at_cancelled :: bool
  at_cancelled_waiting :: bool
  at_now :: int

record chunk_task =
  ct_disk :: disk
  ct_bytesDone :: int
  ct_retries :: int
  ct_state :: TaskState
  ct_hashes :: "int \<Rightarrow> string option"
  ct_lim :: limiter

text \<open>The parts of the probe and of the options a chunk download reads.\<close>

record chunk_cfg =
  cc_TotalSize :: int
  cc_SingleStream :: bool
  cc_resumeETag :: string
  cc_Retry :: int
  cc_RetryWait :: int

text \<open>Mirror rotation: the index in the mirror list (0 is the primary URL) a request takes, from the
  counter after its increment.\<close>

definition pick_mirror :: "string list \<Rightarrow> string \<Rightarrow> string \<Rightarrow> nat \<Rightarrow> string \<times> string" where
  "pick_mirror mirrors finalURL resumeETag counter =
     (if mirrors = [] then (finalURL, resumeETag)
      else let i = counter mod (length mirrors + 1)
           in if i > 0 then (mirrors ! (i - 1), []) else (finalURL, resumeETag))"

definition chunk_abs :: "engine \<Rightarrow> chunk \<Rightarrow> int \<times> int" where
  "chunk_abs eng c =
     (let absEnd = (if End c \<ge> 0 then AbsStart eng (End c) else End c)
      in (AbsStart eng (Start c), if absEnd < 0 then - 1 else absEnd))"

definition start_copy :: "disk \<Rightarrow> copy_state" where
  "start_copy d = \<lparr>cs_disk = d, cs_off = 0, cs_hash = [], cs_progress = 0\<rparr>"

definition fetchWhole :: "chunk_cfg \<Rightarrow> attempt_env \<Rightarrow> disk \<Rightarrow> io_error option \<times> copy_state" where
  "fetchWhole cfg env d =
     (case at_answer env of
        None \<Rightarrow> (Some (plain_error TransportError), start_copy d)
      | Some r \<Rightarrow>
          if rsp_status r < 200 \<or> rsp_status r \<ge> 300 then (Some (statusErr (rsp_status r)), start_copy d)
          else (case copyChunkFrom (at_wfails env) 0 (at_body env) (start_copy d) of
            (Some e, s) \<Rightarrow> (Some (plain_error e), s)
          | (None, s) \<Rightarrow>
              if cc_TotalSize cfg > 0 \<and> cs_off s \<noteq> cc_TotalSize cfg
              then (Some (PermanentWrap ShortRead 417), s) else (None, s)))"

definition fetchAndWrite ::
  "chunk_cfg \<Rightarrow> engine \<Rightarrow> chunk \<Rightarrow> attempt_env \<Rightarrow> disk \<Rightarrow> io_error option \<times> copy_state" where
  "fetchAndWrite cfg eng c env d =
     (if cc_TotalSize cfg < 0 \<or> (cc_SingleStream cfg \<and> Start c = 0 \<and> Index c = 0)
      then fetchWhole cfg env d
      else
        let absStart = fst (chunk_abs eng c)
        in case GetRange_result (at_answer env) of
             Inl e \<Rightarrow> (Some e, start_copy d)
           | Inr r \<Rightarrow>
               if rsp_status r \<noteq> 206 then
                 (Some \<lparr>ie_kind = (if cc_resumeETag cfg \<noteq> [] then ResumeDrift else IgnoredRange),
                        ie_status = Some (rsp_status r), ie_permanent = True\<rparr>, start_copy d)
               else if \<not> contentRangeStartsWith (rsp_header r ''Content-Range'') absStart then
                 (Some \<lparr>ie_kind = WrongRange, ie_status = Some 417, ie_permanent = True\<rparr>, start_copy d)
               else (case copyChunkFrom (at_wfails env) absStart (at_body env) (start_copy d) of
                 (Some e, s) \<Rightarrow> (Some (plain_error e), s)
               | (None, s) \<Rightarrow>
                   if End c \<ge> 0 \<and> cc_TotalSize cfg > 0 \<and> cs_off s \<noteq> End c - Start c + 1
                   then (Some (PermanentWrap ShortRead 417), s) else (None, s)))"

text \<open>The wait before attempt k: RetryWait shifted left by k, capped at 30 seconds.\<close>

definition retry_wait :: "int \<Rightarrow> nat \<Rightarrow> int" where
  "retry_wait base attempt =
     (let wait = w64 (base * 2 ^ min attempt 30)
      in if base > 0 \<and> (wait > 30 * 10 ^ 9 \<or> wait \<le> 0) then 30 * 10 ^ 9 else wait)"

datatype chunk_result = ChunkDone | ChunkFailed io_error | ChunkCancelled

text \<open>One attempt after the wait: Inl is the value \<open>downloadChunk\<close> returns, Inr the error it keeps
  before the next attempt.\<close>

definition attempt ::
  "(byte list \<Rightarrow> string) \<Rightarrow> chunk_cfg \<Rightarrow> engine \<Rightarrow> chunk \<Rightarrow> attempt_env \<Rightarrow> chunk_task \<Rightarrow>
   (chunk_result + io_error) \<times> chunk_task" where
  "attempt sha cfg eng c env t0 =
     (let t = t0\<lparr>ct_state := StateActive\<rparr>;
          (err, s) = fetchAndWrite cfg eng c env (ct_disk t);
          t1 = t\<lparr>ct_disk := cs_disk s, ct_bytesDone := ct_bytesDone t + cs_progress s\<rparr>
      in case err of
           None \<Rightarrow>
             (Inl ChunkDone,
              t1\<lparr>ct_hashes := (ct_hashes t1)(AbsStart eng (Start c) \<mapsto> sha (cs_hash s)),
                 ct_lim := ThrottleOK (at_now env) (ct_lim t1)\<rparr>)
         | Some e \<Rightarrow>
             if at_cancelled env then (Inl ChunkCancelled, t1)
             else
               let t2 = (if cs_progress s > 0
                         then t1\<lparr>ct_bytesDone := ct_bytesDone t1 - cs_progress s\<rparr> else t1);
                   t3 = (if ie_status e = Some 429
                         then t2\<lparr>ct_lim := snd (BackOffSignal (at_now env) (ct_lim t2))\<rparr> else t2)
               in if isPermanent e then (Inl (ChunkFailed e), t3) else (Inr e, t3))"

text \<open>The attempts from number k on, one environment each; with none left the last error is returned
  (\<open>downloadChunk\<close> with zero attempts returns nil: the model's ChunkDone with nothing done).\<close>

fun attempts ::
  "(byte list \<Rightarrow> string) \<Rightarrow> chunk_cfg \<Rightarrow> engine \<Rightarrow> chunk \<Rightarrow> nat \<Rightarrow> io_error option \<Rightarrow> attempt_env list \<Rightarrow> chunk_task \<Rightarrow>
   chunk_result \<times> chunk_task" where
  "attempts sha cfg eng c k lastErr [] t =
     ((case lastErr of None \<Rightarrow> ChunkDone | Some e \<Rightarrow> ChunkFailed e), t)"
| "attempts sha cfg eng c k lastErr (env # envs) t =
     (let t0 = (if k > 0 then t\<lparr>ct_state := StateRetrying, ct_retries := ct_retries t + 1\<rparr> else t)
      in if k > 0 \<and> at_cancelled_waiting env then (ChunkCancelled, t0)
         else case attempt sha cfg eng c env t0 of
           (Inl r, t1) \<Rightarrow> (r, t1)
         | (Inr e, t1) \<Rightarrow> attempts sha cfg eng c (Suc k) (Some e) envs t1)"

text \<open>\<open>envs\<close> gives the environment of each attempt; there are Retry + 1 of them.\<close>

definition downloadChunk ::
  "(byte list \<Rightarrow> string) \<Rightarrow> chunk_cfg \<Rightarrow> engine \<Rightarrow> chunk \<Rightarrow> (nat \<Rightarrow> attempt_env) \<Rightarrow> chunk_task \<Rightarrow>
   chunk_result \<times> chunk_task" where
  "downloadChunk sha cfg eng c envs t =
     attempts sha cfg eng c 0 None (map envs [0..<nat (cc_Retry cfg + 1)]) t"

subsection \<open>What the copy loop writes\<close>

text \<open>The bytes the reads deliver up to the first end, error or failing write.\<close>

fun delivered :: "(int \<Rightarrow> bool) \<Rightarrow> int \<Rightarrow> read_event list \<Rightarrow> byte list" where
  "delivered wfails pos [] = []"
| "delivered wfails pos ((bs, e) # evs) =
     (if bs \<noteq> [] \<and> wfails pos then []
      else bs @ (case e of More \<Rightarrow> delivered wfails (pos + int (length bs)) evs | _ \<Rightarrow> []))"

lemma write_at_append:
  "write_at (write_at d off bs) (off + int (length bs)) cs = write_at d off (bs @ cs)"
proof
  fix i
  show "write_at (write_at d off bs) (off + int (length bs)) cs i = write_at d off (bs @ cs) i"
    by (auto simp: write_at_def nth_append nat_less_iff nat_diff_distrib algebra_simps
        intro!: arg_cong [of _ _ "(!) cs"])
qed

lemma write_at_Nil [simp]: "write_at d off [] = d"
  by (rule ext) (auto simp: write_at_def)

lemma copyChunkFrom_delivered:
  "copyChunkFrom wfails base evs s = (err, s') \<Longrightarrow>
   s' = s\<lparr>cs_disk := write_at (cs_disk s) (base + cs_off s) (delivered wfails (base + cs_off s) evs),
          cs_hash := cs_hash s @ delivered wfails (base + cs_off s) evs,
          cs_off := cs_off s + int (length (delivered wfails (base + cs_off s) evs)),
          cs_progress := cs_progress s + int (length (delivered wfails (base + cs_off s) evs))\<rparr>"
proof (induction wfails base evs s arbitrary: err s' rule: copyChunkFrom.induct)
  case (2 wfails base bs e evs s)
  show ?case
  proof (cases "bs \<noteq> [] \<and> wfails (base + cs_off s)")
    case True
    with "2.prems" show ?thesis by auto
  next
    case F: False
    define s1 where "s1 = (if bs \<noteq> []
        then s\<lparr>cs_disk := write_at (cs_disk s) (base + cs_off s) bs, cs_hash := cs_hash s @ bs,
               cs_off := cs_off s + int (length bs), cs_progress := cs_progress s + int (length bs)\<rparr> else s)"
    have s1: "s1 = s\<lparr>cs_disk := write_at (cs_disk s) (base + cs_off s) bs, cs_hash := cs_hash s @ bs,
               cs_off := cs_off s + int (length bs), cs_progress := cs_progress s + int (length bs)\<rparr>"
      by (cases "bs = []") (simp_all add: s1_def)
    have eq: "copyChunkFrom wfails base ((bs, e) # evs) s = (case e of Eof \<Rightarrow> (None, s1)
        | ReadFails \<Rightarrow> (Some ReadError, s1) | More \<Rightarrow> copyChunkFrom wfails base evs s1)"
    proof -
      have F': "(bs \<noteq> [] \<and> wfails (base + cs_off s)) = False" using F by blast
      show ?thesis unfolding copyChunkFrom.simps Let_def s1_def [symmetric] F' if_False
        by (cases e) simp_all
    qed
    show ?thesis
    proof (cases "e = More")
      case True
      with eq "2.prems" have c: "copyChunkFrom wfails base evs s1 = (err, s')" by simp
      have ih: "s' = s1\<lparr>cs_disk := write_at (cs_disk s1) (base + cs_off s1) (delivered wfails (base + cs_off s1) evs),
          cs_hash := cs_hash s1 @ delivered wfails (base + cs_off s1) evs,
          cs_off := cs_off s1 + int (length (delivered wfails (base + cs_off s1) evs)),
          cs_progress := cs_progress s1 + int (length (delivered wfails (base + cs_off s1) evs))\<rparr>"
        using "2.IH" [OF F s1_def True c] .
      show ?thesis using F True
        by (cases "bs = []") (simp_all add: ih s1 write_at_append add.assoc [symmetric])
    next
      case False
      with eq "2.prems" have "s' = s1" by (cases e) auto
      then show ?thesis using F False by (cases "bs = []"; cases e) (simp_all add: s1)
    qed
  qed
qed simp

lemma start_copy_delivered:
  "copyChunkFrom wfails base evs (start_copy d) = (err, s) \<Longrightarrow>
   s = \<lparr>cs_disk = write_at d base (delivered wfails base evs), cs_off = int (length (delivered wfails base evs)),
        cs_hash = delivered wfails base evs, cs_progress = int (length (delivered wfails base evs))\<rparr>"
  using copyChunkFrom_delivered [of wfails base evs "start_copy d" err s] by (simp add: start_copy_def)

lemma copied_progress:
  "copyChunkFrom wfails base evs (start_copy d) = (err, s) \<Longrightarrow>
   cs_progress s = cs_off s \<and> int (length (cs_hash s)) = cs_off s \<and> 0 \<le> cs_off s"
  by (drule start_copy_delivered) simp

lemma start_copy_progress:
  "cs_progress (start_copy d) = cs_off (start_copy d) \<and> int (length (cs_hash (start_copy d))) = cs_off (start_copy d) \<and>
   0 \<le> cs_off (start_copy d)"
  by (simp add: start_copy_def)

lemma fetchWhole_progress:
  "fetchWhole cfg env d = (err, s) \<Longrightarrow> cs_progress s = cs_off s \<and> int (length (cs_hash s)) = cs_off s \<and> 0 \<le> cs_off s"
  unfolding fetchWhole_def
  by (auto split: if_splits option.splits prod.splits dest: copied_progress simp: start_copy_progress [THEN conjunct1])
     (simp_all add: start_copy_def)

lemma fetchAndWrite_progress:
  "fetchAndWrite cfg eng c env d = (err, s) \<Longrightarrow> cs_progress s = cs_off s \<and> int (length (cs_hash s)) = cs_off s \<and> 0 \<le> cs_off s"
proof -
  assume f: "fetchAndWrite cfg eng c env d = (err, s)"
  show ?thesis
  proof (cases "cc_TotalSize cfg < 0 \<or> (cc_SingleStream cfg \<and> Start c = 0 \<and> Index c = 0)")
    case True
    with f show ?thesis by (intro fetchWhole_progress) (simp only: fetchAndWrite_def if_True)
  next
    case False
    show ?thesis
    proof (cases "copyChunkFrom (at_wfails env) (fst (chunk_abs eng c)) (at_body env) (start_copy d)")
      case (Pair e s')
      have "s = start_copy d \<or> s = s'"
        using f False Pair by (auto simp: fetchAndWrite_def Let_def split: sum.splits if_split_asm option.splits)
      then show ?thesis using copied_progress [OF Pair] start_copy_progress by blast
    qed
  qed
qed

text \<open>The chunks of a known-size ranged download: what success of \<open>fetchAndWrite\<close> means.\<close>

lemma fetchAndWrite_success:
  assumes f: "fetchAndWrite cfg eng c env d = (None, s)"
    and r: "0 < cc_TotalSize cfg" "\<not> (cc_SingleStream cfg \<and> Start c = 0 \<and> Index c = 0)" "0 \<le> End c"
  shows "\<exists>bs. int (length bs) = End c - Start c + 1 \<and> cs_hash s = bs \<and>
      cs_disk s = write_at d (AbsStart eng (Start c)) bs \<and>
      (\<exists>a. at_answer env = Some a \<and> rsp_status a = 206 \<and>
         contentRangeStartsWith (rsp_header a ''Content-Range'') (AbsStart eng (Start c)))"
proof -
  have pos: "\<not> (cc_TotalSize cfg < 0 \<or> (cc_SingleStream cfg \<and> Start c = 0 \<and> Index c = 0))" using r by auto
  have a: "fst (chunk_abs eng c) = AbsStart eng (Start c)" by (simp add: chunk_abs_def Let_def)
  from f pos obtain ans where ans: "GetRange_result (at_answer env) = Inr ans" "rsp_status ans = 206"
      "contentRangeStartsWith (rsp_header ans ''Content-Range'') (AbsStart eng (Start c))"
    and cp: "copyChunkFrom (at_wfails env) (AbsStart eng (Start c)) (at_body env) (start_copy d) = (None, s)"
    and len: "cs_off s = End c - Start c + 1"
    using r by (auto simp: fetchAndWrite_def a Let_def split: if_splits sum.splits prod.splits option.splits)
  from ans(1) have "at_answer env = Some ans" by (auto simp: GetRange_result_def split: option.splits if_splits)
  with start_copy_delivered [OF cp] ans len show ?thesis by auto
qed

lemma attempt_bytes:
  "attempt sha cfg eng c env t = (r, t') \<Longrightarrow> r \<noteq> Inl ChunkCancelled \<Longrightarrow>
   ct_bytesDone t' = ct_bytesDone t + (if r = Inl ChunkDone then cs_off (snd (fetchAndWrite cfg eng c env (ct_disk t))) else 0)"
  using fetchAndWrite_progress [of cfg eng c env "ct_disk t"]
  by (auto simp: attempt_def Let_def split: prod.splits option.splits if_splits)

lemma attempt_done:
  "attempt sha cfg eng c env t = (Inl ChunkDone, t') \<Longrightarrow>
   \<exists>s. fetchAndWrite cfg eng c env (ct_disk t) = (None, s) \<and> ct_disk t' = cs_disk s \<and>
     ct_bytesDone t' = ct_bytesDone t + cs_off s \<and>
     ct_hashes t' = (ct_hashes t)(AbsStart eng (Start c) \<mapsto> sha (cs_hash s))"
  using fetchAndWrite_progress [of cfg eng c env "ct_disk t"]
  by (auto simp: attempt_def Let_def split: prod.splits option.splits if_splits)

lemma attempt_not_done:
  "attempt sha cfg eng c env t = (r, t') \<Longrightarrow> r \<noteq> Inl ChunkDone \<Longrightarrow> ct_hashes t' = ct_hashes t"
  by (auto simp: attempt_def Let_def split: prod.splits option.splits if_splits)

lemma attempts_result:
  assumes r: "0 < cc_TotalSize cfg" "\<not> (cc_SingleStream cfg \<and> Start c = 0 \<and> Index c = 0)" "0 \<le> End c"
    and a: "attempts sha cfg eng c k le envs t = (res, t')" and ne: "envs \<noteq> [] \<or> le \<noteq> None"
  shows "(res = ChunkDone \<longrightarrow> (\<exists>d bs. int (length bs) = End c - Start c + 1 \<and>
        ct_disk t' = write_at d (AbsStart eng (Start c)) bs \<and>
        ct_hashes t' = (ct_hashes t)(AbsStart eng (Start c) \<mapsto> sha bs) \<and>
        ct_bytesDone t' = ct_bytesDone t + (End c - Start c + 1))) \<and>
     (\<forall>e. res = ChunkFailed e \<longrightarrow> ct_hashes t' = ct_hashes t \<and> ct_bytesDone t' = ct_bytesDone t)"
  using a ne
proof (induction envs arbitrary: k le t)
  case Nil
  then show ?case by (auto split: option.splits)
next
  case (Cons env envs)
  define t0 where "t0 = (if k > 0 then t\<lparr>ct_state := StateRetrying, ct_retries := ct_retries t + 1\<rparr> else t)"
  have t0: "ct_disk t0 = ct_disk t" "ct_hashes t0 = ct_hashes t" "ct_bytesDone t0 = ct_bytesDone t"
    by (simp_all add: t0_def)
  note eq = Cons.prems(1) [unfolded attempts.simps Let_def t0_def [symmetric]]
  show ?case
  proof (cases "k > 0 \<and> at_cancelled_waiting env")
    case True
    with eq show ?thesis by auto
  next
    case False
    obtain r t1 where at: "attempt sha cfg eng c env t0 = (r, t1)" by (cases "attempt sha cfg eng c env t0")
    have eq': "(case r of Inl x \<Rightarrow> (x, t1) | Inr e \<Rightarrow> attempts sha cfg eng c (Suc k) (Some e) envs t1) = (res, t')"
      using eq at False by (auto split: sum.splits)
    show ?thesis
    proof (cases r)
      case (Inl x)
      with eq' have x: "res = x" "t' = t1" by auto
      show ?thesis
      proof (cases "x = ChunkDone")
        case True
        with attempt_done [OF at [unfolded Inl True]] obtain s where
          s: "fetchAndWrite cfg eng c env (ct_disk t0) = (None, s)" "ct_disk t1 = cs_disk s"
          "ct_bytesDone t1 = ct_bytesDone t0 + cs_off s"
          "ct_hashes t1 = (ct_hashes t0)(AbsStart eng (Start c) \<mapsto> sha (cs_hash s))" by blast
        from fetchAndWrite_success [OF s(1) r] fetchAndWrite_progress [OF s(1)] s x True t0
        show ?thesis by auto
      next
        case F: False
        show ?thesis
        proof (cases "x = ChunkCancelled")
          case False
          then show ?thesis using F Inl x attempt_bytes [OF at] attempt_not_done [OF at] t0 by auto
        qed (use x in auto)
      qed
    next
      case (Inr e)
      have t1: "ct_hashes t1 = ct_hashes t" "ct_bytesDone t1 = ct_bytesDone t"
        using Inr attempt_bytes [OF at] attempt_not_done [OF at] t0 by auto
      show ?thesis using Cons.IH [of "Suc k" "Some e" t1] eq' Inr t1 by simp
    qed
  qed
qed

subsection \<open>Properties\<close>

text \<open>C11: a ranged chunk counts as downloaded only when a 206 for its own offset delivered exactly its
  bytes: the file then holds those bytes at the chunk's place and is unchanged everywhere else.\<close>

lemma fetchAndWrite_exact:
  "fetchAndWrite cfg eng c env d = (None, s) \<Longrightarrow> 0 < cc_TotalSize cfg \<Longrightarrow>
   \<not> (cc_SingleStream cfg \<and> Start c = 0 \<and> Index c = 0) \<Longrightarrow> 0 \<le> End c \<Longrightarrow>
   (\<exists>a. at_answer env = Some a \<and> rsp_status a = 206 \<and>
      contentRangeStartsWith (rsp_header a ''Content-Range'') (AbsStart eng (Start c))) \<and>
   int (length (cs_hash s)) = chunk_len c \<and>
   (\<forall>i. cs_disk s i =
      (if AbsStart eng (Start c) \<le> i \<and> i \<le> AbsStart eng (End c)
       then Some (cs_hash s ! nat (i - AbsStart eng (Start c))) else d i))"
proof -
  assume a: "fetchAndWrite cfg eng c env d = (None, s)" "0 < cc_TotalSize cfg"
    "\<not> (cc_SingleStream cfg \<and> Start c = 0 \<and> Index c = 0)" "0 \<le> End c"
  from fetchAndWrite_success [OF a] have
    "int (length (cs_hash s)) = End c - Start c + 1" "cs_disk s = write_at d (AbsStart eng (Start c)) (cs_hash s)"
    "\<exists>a. at_answer env = Some a \<and> rsp_status a = 206 \<and>
      contentRangeStartsWith (rsp_header a ''Content-Range'') (AbsStart eng (Start c))" by auto
  then show ?thesis by (auto simp: chunk_len_def write_at_def AbsStart_def)
qed

lemma fetchAndWrite_exact_witness:
  "\<exists>s. fetchAndWrite \<lparr>cc_TotalSize = 6, cc_SingleStream = False, cc_resumeETag = [], cc_Retry = 1, cc_RetryWait = 0\<rparr>
     \<lparr>eng_q = CQ \<lparr>chunks = [], completed = {}, failed = (\<lambda>_. 0)\<rparr>, eng_client = H1Client, eng_base = 0\<rparr>
     \<lparr>Index = 1, Start = 4, End = 5\<rparr>
     \<lparr>at_answer = Some \<lparr>rsp_status = 206, rsp_url = [], rsp_header = (\<lambda>k. if k = ''Content-Range'' then ''bytes 4-5/6'' else []),
        rsp_proto = 1\<rparr>, at_body = [([7], More), ([8], Eof)], at_wfails = (\<lambda>_. False), at_cancelled = False,
      at_cancelled_waiting = False, at_now = 0\<rparr> (\<lambda>_. None) = (None, s) \<and> cs_disk s 5 = Some 8 \<and> cs_disk s 6 = None"
proof -
  let ?cfg = "\<lparr>cc_TotalSize = 6, cc_SingleStream = False, cc_resumeETag = [], cc_Retry = 1, cc_RetryWait = 0\<rparr>"
  let ?eng = "\<lparr>eng_q = CQ \<lparr>chunks = [], completed = {}, failed = (\<lambda>_. 0)\<rparr>, eng_client = H1Client, eng_base = 0\<rparr>"
  let ?c = "\<lparr>Index = 1, Start = 4, End = 5\<rparr>"
  let ?env = "\<lparr>at_answer = Some \<lparr>rsp_status = 206, rsp_url = [], rsp_header = (\<lambda>k. if k = ''Content-Range'' then ''bytes 4-5/6'' else []),
        rsp_proto = 1\<rparr>, at_body = [([7], More), ([8], Eof)], at_wfails = (\<lambda>_. False), at_cancelled = False,
      at_cancelled_waiting = False, at_now = 0\<rparr>"
  have cr: "contentRangeStartsWith ''bytes 4-5/6'' 4" by code_simp
  obtain s where s: "fetchAndWrite ?cfg ?eng ?c ?env (\<lambda>_. None) = (None, s)" "cs_hash s = [7, 8]"
    by (simp add: fetchAndWrite_def GetRange_result_def chunk_abs_def AbsStart_def start_copy_def cr)
  from fetchAndWrite_exact [OF s(1)] have "cs_disk s 5 = Some 8" "cs_disk s 6 = None"
    by (simp_all add: AbsStart_def s(2))
  with s(1) show ?thesis by blast
qed

text \<open>C14: retries neither lose nor double count. A chunk that ends in success adds exactly its length to
  the progress and records the hash of the bytes it wrote; one that ends in failure leaves progress
  and recorded hashes as they were, however many attempts it took and whatever they read.\<close>

lemma downloadChunk_accounts:
  "downloadChunk sha cfg eng c envs t = (res, t') \<Longrightarrow> 0 < cc_TotalSize cfg \<Longrightarrow>
   \<not> (cc_SingleStream cfg \<and> Start c = 0 \<and> Index c = 0) \<Longrightarrow> 0 \<le> End c \<Longrightarrow> 0 \<le> cc_Retry cfg \<Longrightarrow>
   (res = ChunkDone \<longrightarrow> (\<exists>d bs. int (length bs) = chunk_len c \<and>
        ct_disk t' = write_at d (AbsStart eng (Start c)) bs \<and>
        ct_hashes t' = (ct_hashes t)(AbsStart eng (Start c) \<mapsto> sha bs) \<and>
        ct_bytesDone t' = ct_bytesDone t + chunk_len c)) \<and>
   (\<forall>e. res = ChunkFailed e \<longrightarrow> ct_hashes t' = ct_hashes t \<and> ct_bytesDone t' = ct_bytesDone t)"
proof -
  assume a: "downloadChunk sha cfg eng c envs t = (res, t')" "0 < cc_TotalSize cfg"
    "\<not> (cc_SingleStream cfg \<and> Start c = 0 \<and> Index c = 0)" "0 \<le> End c" "0 \<le> cc_Retry cfg"
  have "map envs [0..<nat (cc_Retry cfg + 1)] \<noteq> [] \<or> (None :: io_error option) \<noteq> None" using a(5) by simp
  from attempts_result [OF a(2-4) a(1) [unfolded downloadChunk_def] this] show ?thesis
    unfolding chunk_len_def .
qed

definition good_env :: "string \<Rightarrow> read_event list \<Rightarrow> attempt_env" where
  "good_env contentRange body =
     \<lparr>at_answer = Some \<lparr>rsp_status = 206, rsp_url = [], rsp_header = (\<lambda>k. if k = ''Content-Range'' then contentRange else []),
        rsp_proto = 1\<rparr>, at_body = body, at_wfails = (\<lambda>_. False), at_cancelled = False,
      at_cancelled_waiting = False, at_now = 0\<rparr>"

lemma downloadChunk_accounts_witness:
  "\<exists>t'. downloadChunk (\<lambda>_. ''h'')
     \<lparr>cc_TotalSize = 6, cc_SingleStream = False, cc_resumeETag = [], cc_Retry = 1, cc_RetryWait = 0\<rparr>
     \<lparr>eng_q = CQ \<lparr>chunks = [], completed = {}, failed = (\<lambda>_. 0)\<rparr>, eng_client = H1Client, eng_base = 0\<rparr>
     \<lparr>Index = 1, Start = 4, End = 5\<rparr>
     (\<lambda>k. if k = 0 then good_env ''bytes 4-5/6'' [([7], ReadFails)] else good_env ''bytes 4-5/6'' [([7, 8], Eof)])
     \<lparr>ct_disk = (\<lambda>_. None), ct_bytesDone = 4, ct_retries = 0, ct_state = StateActive, ct_hashes = (\<lambda>_. None), ct_lim = off_limiter\<rparr>
     = (ChunkDone, t') \<and> ct_bytesDone t' = 6"
proof -
  let ?cfg = "\<lparr>cc_TotalSize = 6, cc_SingleStream = False, cc_resumeETag = [], cc_Retry = 1, cc_RetryWait = 0\<rparr>"
  let ?eng = "\<lparr>eng_q = CQ \<lparr>chunks = [], completed = {}, failed = (\<lambda>_. 0)\<rparr>, eng_client = H1Client, eng_base = 0\<rparr>"
  let ?c = "\<lparr>Index = 1, Start = 4, End = 5\<rparr>"
  let ?envs = "\<lambda>k :: nat. if k = 0 then good_env ''bytes 4-5/6'' [([7], ReadFails)] else good_env ''bytes 4-5/6'' [([7, 8], Eof)]"
  let ?t = "\<lparr>ct_disk = (\<lambda>_. None), ct_bytesDone = 4, ct_retries = 0, ct_state = StateActive, ct_hashes = (\<lambda>_. None), ct_lim = off_limiter\<rparr>"
  have cr: "contentRangeStartsWith ''bytes 4-5/6'' 4" by code_simp
  have n: "nat (cc_Retry ?cfg + 1) = Suc (Suc 0)" by simp
  have "fst (downloadChunk (\<lambda>_. ''h'') ?cfg ?eng ?c ?envs ?t) = ChunkDone"
    unfolding downloadChunk_def n
    by (simp add: attempt_def fetchAndWrite_def GetRange_result_def chunk_abs_def AbsStart_def start_copy_def cr
        good_env_def isPermanent_def plain_error_def upt_rec)
  then obtain t' where t': "downloadChunk (\<lambda>_. ''h'') ?cfg ?eng ?c ?envs ?t = (ChunkDone, t')"
    by (metis prod.collapse)
  from downloadChunk_accounts [OF t'] have "ct_bytesDone t' = 6" by (auto simp: chunk_len_def)
  with t' show ?thesis by blast
qed

end
