(* ===== verification/Control_File.thy ===== *)
theory Control_File imports Json begin

section \<open>The control file (internal/storage/resume.go)\<close>

text \<open>
  The \<open>.odm\<close> file beside a destination: its fields, its JSON form, and the file operations that load,
  save and remove it. A time is its RFC 3339 text. A nil slice and an empty one are not told apart,
  nor a nil map and an empty one; the members of the hash map are written in the order of the
  association list. Paths name JSON documents or bytes that are no document. What the tasks of a batch
  need of these files together is the locale \<open>control_store\<close>.
\<close>

record ControlFile =
  cf_URL :: string
  cf_FinalURL :: string
  cf_TotalSize :: int
  cf_ChunkSize :: int
  cf_ETag :: string
  cf_Completed :: "int list"
  cf_CreatedAt :: string
  cf_UpdatedAt :: string
  cf_Connections :: int
  cf_UserAgent :: string
  cf_ODMVersion :: string
  cf_Checksum :: string
  cf_ChunkHashes :: "(int \<times> string) list"
  cf_Profile :: string
  cf_SplitAt :: int
  cf_Region2ChunkSize :: int

definition zero_time :: string where
  "zero_time = ''0001-01-01T00:00:00Z''"

definition zero_control :: ControlFile where
  "zero_control = \<lparr>cf_URL = [], cf_FinalURL = [], cf_TotalSize = 0, cf_ChunkSize = 0, cf_ETag = [], cf_Completed = [],
     cf_CreatedAt = zero_time, cf_UpdatedAt = zero_time, cf_Connections = 0, cf_UserAgent = [], cf_ODMVersion = [],
     cf_Checksum = [], cf_ChunkHashes = [], cf_Profile = [], cf_SplitAt = 0, cf_Region2ChunkSize = 0\<rparr>"

text \<open>The JSON members, in the order of the struct. The encoder replaces what is not valid UTF-8 in a string. The two
  times are never left out (omitempty has no effect on a struct value) and write their own text.\<close>

definition marshal :: "ControlFile \<Rightarrow> json" where
  "marshal cf = JObj
     ([(''url'', JStr (coerce (cf_URL cf))), (''final_url'', JStr (coerce (cf_FinalURL cf))),
       (''total_size'', JNum (cf_TotalSize cf)), (''chunk_size'', JNum (cf_ChunkSize cf))]
      @ omit (cf_ETag cf = []) ''etag'' (JStr (coerce (cf_ETag cf)))
      @ [(''completed'', JArr (map JNum (cf_Completed cf))),
         (''created_at'', JStr (cf_CreatedAt cf)), (''updated_at'', JStr (cf_UpdatedAt cf))]
      @ omit (cf_Connections cf = 0) ''connections'' (JNum (cf_Connections cf))
      @ omit (cf_UserAgent cf = []) ''user_agent'' (JStr (coerce (cf_UserAgent cf)))
      @ omit (cf_ODMVersion cf = []) ''odm_version'' (JStr (coerce (cf_ODMVersion cf)))
      @ omit (cf_Checksum cf = []) ''checksum'' (JStr (coerce (cf_Checksum cf)))
      @ omit (cf_ChunkHashes cf = []) ''chunk_hashes'' (JObj (map (\<lambda>(k, v). (itoa k, JStr (coerce v))) (cf_ChunkHashes cf)))
      @ omit (cf_Profile cf = []) ''profile'' (JStr (coerce (cf_Profile cf)))
      @ omit (cf_SplitAt cf = 0) ''split_at'' (JNum (cf_SplitAt cf))
      @ omit (cf_Region2ChunkSize cf = 0) ''region2_chunk_size'' (JNum (cf_Region2ChunkSize cf)))"

text \<open>Reading: a member sets the field its name matches without regard to case, unknown members are
  skipped. The time texts must have the layout of RFC 3339 (the day is not checked against the month).\<close>

datatype cf_field = FURL | FFinalURL | FTotalSize | FChunkSize | FETag | FCompleted | FCreatedAt | FUpdatedAt
  | FConnections | FUserAgent | FODMVersion | FChecksum | FChunkHashes | FProfile | FSplitAt | FRegion2ChunkSize

definition cf_names :: "(string \<times> cf_field) list" where
  "cf_names = [(''url'', FURL), (''final_url'', FFinalURL), (''total_size'', FTotalSize), (''chunk_size'', FChunkSize),
     (''etag'', FETag), (''completed'', FCompleted), (''created_at'', FCreatedAt), (''updated_at'', FUpdatedAt),
     (''connections'', FConnections), (''user_agent'', FUserAgent), (''odm_version'', FODMVersion),
     (''checksum'', FChecksum), (''chunk_hashes'', FChunkHashes), (''profile'', FProfile), (''split_at'', FSplitAt),
     (''region2_chunk_size'', FRegion2ChunkSize)]"

definition field_of :: "string \<Rightarrow> cf_field option" where
  "field_of name = map_of cf_names (to_lower name)"

definition all_digits :: "string \<Rightarrow> bool" where
  "all_digits s \<longleftrightarrow> list_all (\<lambda>c. digit_val c \<noteq> None) s"

definition num_in :: "string \<Rightarrow> nat \<Rightarrow> nat \<Rightarrow> bool" where
  "num_in s lo hi \<longleftrightarrow> (case parse_digits 0 s of None \<Rightarrow> False | Some n \<Rightarrow> lo \<le> n \<and> n \<le> hi)"

definition rfc_zone :: "string \<Rightarrow> bool" where
  "rfc_zone s \<longleftrightarrow> s = ''Z'' \<or>
     (length s = 6 \<and> (s ! 0 = CHR ''+'' \<or> s ! 0 = CHR ''-'') \<and> s ! 3 = CHR '':'' \<and>
      num_in (take 2 (drop 1 s)) 0 23 \<and> num_in (drop 4 s) 0 59)"

definition rfc3339 :: "string \<Rightarrow> bool" where
  "rfc3339 s \<longleftrightarrow> length s \<ge> 20 \<and> all_digits (take 4 s) \<and> s ! 4 = CHR ''-'' \<and> num_in (take 2 (drop 5 s)) 1 12 \<and>
     s ! 7 = CHR ''-'' \<and> num_in (take 2 (drop 8 s)) 1 31 \<and> s ! 10 = CHR ''T'' \<and> num_in (take 2 (drop 11 s)) 0 23 \<and>
     s ! 13 = CHR '':'' \<and> num_in (take 2 (drop 14 s)) 0 59 \<and> s ! 16 = CHR '':'' \<and> num_in (take 2 (drop 17 s)) 0 59 \<and>
     (let rest = drop 19 s
      in if hd rest = CHR ''.''
         then let frac = takeWhile (\<lambda>c. digit_val c \<noteq> None) (tl rest)
              in frac \<noteq> [] \<and> rfc_zone (drop (length frac) (tl rest))
         else rfc_zone rest)"

fun set_time :: "json \<Rightarrow> string \<Rightarrow> string option" where
  "set_time JNull old = Some old"
| "set_time (JStr s) old = (if rfc3339 s then Some s else None)"
| "set_time _ old = None"

fun set_field :: "cf_field \<Rightarrow> json \<Rightarrow> ControlFile \<Rightarrow> ControlFile option" where
  "set_field FURL j cf = map_option (\<lambda>v. cf\<lparr>cf_URL := v\<rparr>) (set_str j (cf_URL cf))"
| "set_field FFinalURL j cf = map_option (\<lambda>v. cf\<lparr>cf_FinalURL := v\<rparr>) (set_str j (cf_FinalURL cf))"
| "set_field FTotalSize j cf = map_option (\<lambda>v. cf\<lparr>cf_TotalSize := v\<rparr>) (set_int64 j (cf_TotalSize cf))"
| "set_field FChunkSize j cf = map_option (\<lambda>v. cf\<lparr>cf_ChunkSize := v\<rparr>) (set_int64 j (cf_ChunkSize cf))"
| "set_field FETag j cf = map_option (\<lambda>v. cf\<lparr>cf_ETag := v\<rparr>) (set_str j (cf_ETag cf))"
| "set_field FCompleted j cf = map_option (\<lambda>v. cf\<lparr>cf_Completed := v\<rparr>) (set_int_list j (cf_Completed cf))"
| "set_field FCreatedAt j cf = map_option (\<lambda>v. cf\<lparr>cf_CreatedAt := v\<rparr>) (set_time j (cf_CreatedAt cf))"
| "set_field FUpdatedAt j cf = map_option (\<lambda>v. cf\<lparr>cf_UpdatedAt := v\<rparr>) (set_time j (cf_UpdatedAt cf))"
| "set_field FConnections j cf = map_option (\<lambda>v. cf\<lparr>cf_Connections := v\<rparr>) (set_int64 j (cf_Connections cf))"
| "set_field FUserAgent j cf = map_option (\<lambda>v. cf\<lparr>cf_UserAgent := v\<rparr>) (set_str j (cf_UserAgent cf))"
| "set_field FODMVersion j cf = map_option (\<lambda>v. cf\<lparr>cf_ODMVersion := v\<rparr>) (set_str j (cf_ODMVersion cf))"
| "set_field FChecksum j cf = map_option (\<lambda>v. cf\<lparr>cf_Checksum := v\<rparr>) (set_str j (cf_Checksum cf))"
| "set_field FChunkHashes j cf = map_option (\<lambda>v. cf\<lparr>cf_ChunkHashes := v\<rparr>) (set_int_map j (cf_ChunkHashes cf))"
| "set_field FProfile j cf = map_option (\<lambda>v. cf\<lparr>cf_Profile := v\<rparr>) (set_str j (cf_Profile cf))"
| "set_field FSplitAt j cf = map_option (\<lambda>v. cf\<lparr>cf_SplitAt := v\<rparr>) (set_int64 j (cf_SplitAt cf))"
| "set_field FRegion2ChunkSize j cf = map_option (\<lambda>v. cf\<lparr>cf_Region2ChunkSize := v\<rparr>) (set_int64 j (cf_Region2ChunkSize cf))"

fun decode :: "(string \<times> json) list \<Rightarrow> ControlFile \<Rightarrow> ControlFile option" where
  "decode [] cf = Some cf"
| "decode ((k, j) # ps) cf =
     (case field_of k of
        None \<Rightarrow> decode ps cf
      | Some f \<Rightarrow> (case set_field f j cf of None \<Rightarrow> None | Some cf' \<Rightarrow> decode ps cf'))"

fun unmarshal :: "json \<Rightarrow> ControlFile option" where
  "unmarshal (JObj ps) = decode ps zero_control"
| "unmarshal JNull = Some zero_control"
| "unmarshal _ = None"

subsection \<open>The file operations\<close>

datatype file_content = Document json | NoDocument

type_synonym files = "string \<Rightarrow> file_content option"

definition ControlPath :: "string \<Rightarrow> string" where
  "ControlPath destPath = destPath @ ''.odm''"

datatype control_error = NoControlFile | ReadControl | ParseControl

definition LoadControl :: "bool \<Rightarrow> string \<Rightarrow> files \<Rightarrow> control_error + ControlFile" where
  "LoadControl readable destPath fs =
     (case fs (ControlPath destPath) of
        None \<Rightarrow> Inl NoControlFile
      | Some c \<Rightarrow>
          if \<not> readable then Inl ReadControl
          else (case c of
            NoDocument \<Rightarrow> Inl ParseControl
          | Document j \<Rightarrow> (case unmarshal j of None \<Rightarrow> Inl ParseControl | Some cf \<Rightarrow> Inr cf)))"

text \<open>\<open>SaveControl\<close> as the system calls it makes. A crash, or an error of the next call, leaves the first
  n of them done; a write that did not finish leaves bytes that are no document.\<close>

datatype file_op = Truncate string | Fill string json | Rename string string | Unlink string

fun do_op :: "file_op \<Rightarrow> files \<Rightarrow> files" where
  "do_op (Truncate p) fs = fs(p \<mapsto> NoDocument)"
| "do_op (Fill p j) fs = fs(p \<mapsto> Document j)"
| "do_op (Rename p p') fs = (case fs p of None \<Rightarrow> fs | Some c \<Rightarrow> fs(p := None, p' \<mapsto> c))"
| "do_op (Unlink p) fs = fs(p := None)"

definition control_tmp :: "string \<Rightarrow> string" where
  "control_tmp destPath = ControlPath destPath @ ''.tmp''"

definition save_ops :: "string \<Rightarrow> ControlFile \<Rightarrow> file_op list" where
  "save_ops destPath cf =
     [Truncate (control_tmp destPath), Fill (control_tmp destPath) (marshal cf),
      Rename (control_tmp destPath) (ControlPath destPath)]"

datatype save_error = WriteControlTmp | RenameControl

definition SaveControl :: "nat \<Rightarrow> string \<Rightarrow> ControlFile \<Rightarrow> files \<Rightarrow> save_error option \<times> files" where
  "SaveControl n destPath cf fs =
     (if n < 2 then Some WriteControlTmp else if n = 2 then Some RenameControl else None,
      fold do_op (take n (save_ops destPath cf)) fs)"

definition RemoveControl :: "bool \<Rightarrow> string \<Rightarrow> files \<Rightarrow> bool \<times> files" where
  "RemoveControl removable destPath fs =
     (if fs (ControlPath destPath) \<noteq> None \<and> \<not> removable then (False, fs)
      else (True, do_op (Unlink (control_tmp destPath)) (do_op (Unlink (ControlPath destPath)) fs)))"

definition cf_CompletedOffsets :: "ControlFile \<Rightarrow> int set" where
  "cf_CompletedOffsets cf = set (cf_Completed cf)"

definition ChunkHash :: "ControlFile \<Rightarrow> int \<Rightarrow> string option" where
  "ChunkHash cf start = map_of (cf_ChunkHashes cf) start"

subsection \<open>Reading back what was written\<close>

definition wf_control :: "ControlFile \<Rightarrow> bool" where
  "wf_control cf \<longleftrightarrow>
     list_all in_int64 [cf_TotalSize cf, cf_ChunkSize cf, cf_Connections cf, cf_SplitAt cf, cf_Region2ChunkSize cf] \<and>
     (\<forall>i \<in> set (cf_Completed cf). in_int64 i) \<and> rfc3339 (cf_CreatedAt cf) \<and> rfc3339 (cf_UpdatedAt cf) \<and>
     (\<forall>k \<in> fst ` set (cf_ChunkHashes cf). 0 \<le> k \<and> k < 2 ^ 63) \<and> distinct (map fst (cf_ChunkHashes cf))"

text \<open>What a control file is once stored: its strings made valid UTF-8.\<close>

definition stored :: "ControlFile \<Rightarrow> ControlFile" where
  "stored cf = cf\<lparr>cf_URL := coerce (cf_URL cf), cf_FinalURL := coerce (cf_FinalURL cf), cf_ETag := coerce (cf_ETag cf),
     cf_UserAgent := coerce (cf_UserAgent cf), cf_ODMVersion := coerce (cf_ODMVersion cf), cf_Checksum := coerce (cf_Checksum cf),
     cf_ChunkHashes := map (map_prod id coerce) (cf_ChunkHashes cf), cf_Profile := coerce (cf_Profile cf)\<rparr>"

definition utf8_control :: "ControlFile \<Rightarrow> bool" where
  "utf8_control cf \<longleftrightarrow> list_all valid_utf8 [cf_URL cf, cf_FinalURL cf, cf_ETag cf, cf_UserAgent cf, cf_ODMVersion cf, cf_Checksum cf,
     cf_Profile cf] \<and> list_all (valid_utf8 \<circ> snd) (cf_ChunkHashes cf)"

lemma stored_utf8: "utf8_control cf \<Longrightarrow> stored cf = cf"
proof -
  assume u: "utf8_control cf"
  then have "map (map_prod id coerce) (cf_ChunkHashes cf) = cf_ChunkHashes cf"
    by (intro map_idI) (auto simp: utf8_control_def valid_utf8_def list_all_iff)
  then show ?thesis using u by (simp add: stored_def utf8_control_def valid_utf8_def)
qed

lemma field_of_names:
  "field_of ''url'' = Some FURL" "field_of ''final_url'' = Some FFinalURL" "field_of ''total_size'' = Some FTotalSize"
  "field_of ''chunk_size'' = Some FChunkSize" "field_of ''etag'' = Some FETag" "field_of ''completed'' = Some FCompleted"
  "field_of ''created_at'' = Some FCreatedAt" "field_of ''updated_at'' = Some FUpdatedAt"
  "field_of ''connections'' = Some FConnections" "field_of ''user_agent'' = Some FUserAgent"
  "field_of ''odm_version'' = Some FODMVersion" "field_of ''checksum'' = Some FChecksum"
  "field_of ''chunk_hashes'' = Some FChunkHashes" "field_of ''profile'' = Some FProfile"
  "field_of ''split_at'' = Some FSplitAt" "field_of ''region2_chunk_size'' = Some FRegion2ChunkSize"
  by code_simp+

text \<open>A member that may be left out, read into a target whose field is still empty.\<close>

lemma decode_omit_str:
  "cf_ETag cf = [] \<Longrightarrow> decode (omit (v = []) ''etag'' (JStr (coerce v)) @ ps) cf = decode ps (cf\<lparr>cf_ETag := coerce v\<rparr>)"
  "cf_UserAgent cf = [] \<Longrightarrow> decode (omit (v = []) ''user_agent'' (JStr (coerce v)) @ ps) cf = decode ps (cf\<lparr>cf_UserAgent := coerce v\<rparr>)"
  "cf_ODMVersion cf = [] \<Longrightarrow> decode (omit (v = []) ''odm_version'' (JStr (coerce v)) @ ps) cf = decode ps (cf\<lparr>cf_ODMVersion := coerce v\<rparr>)"
  "cf_Checksum cf = [] \<Longrightarrow> decode (omit (v = []) ''checksum'' (JStr (coerce v)) @ ps) cf = decode ps (cf\<lparr>cf_Checksum := coerce v\<rparr>)"
  "cf_Profile cf = [] \<Longrightarrow> decode (omit (v = []) ''profile'' (JStr (coerce v)) @ ps) cf = decode ps (cf\<lparr>cf_Profile := coerce v\<rparr>)"
  by (cases cf, simp add: omit_def field_of_names)+

lemma decode_omit_int:
  "in_int64 v \<Longrightarrow> cf_Connections cf = 0 \<Longrightarrow> decode (omit (v = 0) ''connections'' (JNum v) @ ps) cf = decode ps (cf\<lparr>cf_Connections := v\<rparr>)"
  "in_int64 v \<Longrightarrow> cf_SplitAt cf = 0 \<Longrightarrow> decode (omit (v = 0) ''split_at'' (JNum v) @ ps) cf = decode ps (cf\<lparr>cf_SplitAt := v\<rparr>)"
  "in_int64 v \<Longrightarrow> cf_Region2ChunkSize cf = 0 \<Longrightarrow> decode (omit (v = 0) ''region2_chunk_size'' (JNum v) @ ps) cf = decode ps (cf\<lparr>cf_Region2ChunkSize := v\<rparr>)"
  by (cases cf, simp add: omit_def field_of_names)+

lemma decode_omit_hashes:
  "\<forall>k \<in> fst ` set v. 0 \<le> k \<and> k < 2 ^ 63 \<Longrightarrow> distinct (map fst v) \<Longrightarrow> cf_ChunkHashes cf = [] \<Longrightarrow>
   decode (omit (v = []) ''chunk_hashes'' (JObj (map (\<lambda>(k, v). (itoa k, JStr (coerce v))) v)) @ ps) cf
   = decode ps (cf\<lparr>cf_ChunkHashes := map (map_prod id coerce) v\<rparr>)"
  using set_entries_itoa [of "map (map_prod id coerce) v" "[]"]
  by (cases cf) (simp add: omit_def field_of_names comp_def case_prod_beta' map_prod_def)

lemma rfc3339_zero [simp]: "rfc3339 zero_time"
  by code_simp

lemma unmarshal_marshal:
  assumes "wf_control cf"
  shows "unmarshal (marshal cf) = Some (stored cf)"
proof -
  have h: "in_int64 (cf_TotalSize cf)" "in_int64 (cf_ChunkSize cf)" "in_int64 (cf_Connections cf)" "in_int64 (cf_SplitAt cf)"
    "in_int64 (cf_Region2ChunkSize cf)" "rfc3339 (cf_CreatedAt cf)" "rfc3339 (cf_UpdatedAt cf)"
    "set_elems (map JNum (cf_Completed cf)) = Some (cf_Completed cf)"
    "\<forall>k \<in> fst ` set (cf_ChunkHashes cf). 0 \<le> k \<and> k < 2 ^ 63" "distinct (map fst (cf_ChunkHashes cf))"
    using assms set_elems_JNum by (auto simp: wf_control_def)
  note hashes = decode_omit_hashes [OF h(9,10)]
  note last = decode_omit_int(3) [where ps = "[]", simplified append_Nil2]
  show ?thesis
    by (simp add: stored_def marshal_def zero_control_def field_of_names decode_omit_str decode_omit_int(1,2) last hashes h(1-8)
        del: append_assoc)
qed

lemma SaveControl_load:
  "wf_control cf \<Longrightarrow> LoadControl True destPath (snd (SaveControl 3 destPath cf fs)) = Inr (stored cf)"
  using unmarshal_marshal [of cf] by (simp add: SaveControl_def save_ops_def LoadControl_def control_tmp_def eval_nat_numeral)

subsection \<open>The control files of a batch\<close>

text \<open>What the tasks of a batch need of the store of control files, whatever keeps it: what a save that reported
  success was given is what the next load of that destination finds, in the form the store keeps it, a removal leaves nothing, a failure changes nothing, and other
  destinations are untouched.\<close>

datatype 'c store_op = SaveOp nat string 'c | RemoveOp bool string

fun store_run ::
  "(nat \<Rightarrow> string \<Rightarrow> 'c \<Rightarrow> 's \<Rightarrow> bool \<times> 's) \<Rightarrow> (bool \<Rightarrow> string \<Rightarrow> 's \<Rightarrow> bool \<times> 's) \<Rightarrow> 'c store_op list \<Rightarrow> 's \<Rightarrow> bool list \<times> 's" where
  "store_run save remove [] s = ([], s)"
| "store_run save remove (x # xs) s =
     (let (ok, s1) = (case x of SaveOp n p c \<Rightarrow> save n p c s | RemoveOp b p \<Rightarrow> remove b p s);
          (oks, s2) = store_run save remove xs s1
      in (ok # oks, s2))"

fun expected :: "('c \<Rightarrow> 'c) \<Rightarrow> ('c store_op \<times> bool) list \<Rightarrow> (string \<Rightarrow> 'c option) \<Rightarrow> string \<Rightarrow> 'c option" where
  "expected form [] m = m"
| "expected form ((SaveOp n p c, ok) # xs) m = expected form xs (if ok then m(p \<mapsto> form c) else m)"
| "expected form ((RemoveOp b p, ok) # xs) m = expected form xs (if ok then m(p := None) else m)"

fun saves_valid :: "('c \<Rightarrow> bool) \<Rightarrow> 'c store_op \<Rightarrow> bool" where
  "saves_valid valid (SaveOp n p c) = valid c"
| "saves_valid valid (RemoveOp b p) = True"

locale control_store =
  fixes load :: "string \<Rightarrow> 's \<Rightarrow> 'c option"
    and save :: "nat \<Rightarrow> string \<Rightarrow> 'c \<Rightarrow> 's \<Rightarrow> bool \<times> 's"
    and remove :: "bool \<Rightarrow> string \<Rightarrow> 's \<Rightarrow> bool \<times> 's"
    and valid :: "'c \<Rightarrow> bool"
    and form :: "'c \<Rightarrow> 'c"
  assumes save_ok: "valid c \<Longrightarrow> save n p c s = (True, s') \<Longrightarrow> load p s' = Some (form c)"
    and save_failed: "valid c \<Longrightarrow> save n p c s = (False, s') \<Longrightarrow> load p s' = load p s"
    and save_other: "q \<noteq> p \<Longrightarrow> save n p c s = (ok, s') \<Longrightarrow> load q s' = load q s"
    and remove_ok: "remove b p s = (True, s') \<Longrightarrow> load p s' = None"
    and remove_failed: "remove b p s = (False, s') \<Longrightarrow> load p s' = load p s"
    and remove_other: "q \<noteq> p \<Longrightarrow> remove b p s = (ok, s') \<Longrightarrow> load q s' = load q s"
begin

definition contents :: "'s \<Rightarrow> string \<Rightarrow> 'c option" where
  "contents s p = load p s"

lemma contents_save:
  assumes "valid c" "save n p c s = (ok, s')"
  shows "contents s' = (if ok then (contents s)(p \<mapsto> form c) else contents s)"
proof
  fix q
  show "contents s' q = (if ok then (contents s)(p \<mapsto> form c) else contents s) q"
  proof (cases "q = p")
    case True
    show ?thesis
    proof (cases ok)
      case True
      with save_ok [OF assms(1)] assms(2) \<open>q = p\<close> show ?thesis by (simp add: contents_def)
    next
      case False
      with save_failed [OF assms(1)] assms(2) \<open>q = p\<close> show ?thesis by (simp add: contents_def)
    qed
  next
    case False
    from save_other [OF False assms(2)] False show ?thesis by (simp add: contents_def)
  qed
qed

lemma contents_remove:
  assumes "remove b p s = (ok, s')"
  shows "contents s' = (if ok then (contents s)(p := None) else contents s)"
proof
  fix q
  show "contents s' q = (if ok then (contents s)(p := None) else contents s) q"
  proof (cases "q = p")
    case True
    then show ?thesis
      using remove_ok [of b p s s'] remove_failed [of b p s s'] assms by (cases ok) (simp_all add: contents_def)
  next
    case False
    from remove_other [OF False assms] False show ?thesis by (simp add: contents_def)
  qed
qed

lemma store_refines:
  "list_all (saves_valid valid) xs \<Longrightarrow> store_run save remove xs s = (oks, s') \<Longrightarrow>
   length oks = length xs \<and> contents s' = expected form (zip xs oks) (contents s)"
proof (induction xs arbitrary: s oks)
  case (Cons x xs)
  obtain ok s1 oks1 where r: "(case x of SaveOp n p c \<Rightarrow> save n p c s | RemoveOp b p \<Rightarrow> remove b p s) = (ok, s1)"
    "store_run save remove xs s1 = (oks1, s')" "oks = ok # oks1"
    using Cons.prems(2) by (auto simp: Let_def split: prod.splits)
  note ih = Cons.IH [OF _ r(2)]
  show ?case
  proof (cases x)
    case (SaveOp n p c)
    with r(1) Cons.prems(1) contents_save [of c n p s ok s1] show ?thesis using ih by (simp add: r(3))
  next
    case (RemoveOp b p)
    with r(1) Cons.prems(1) contents_remove [of b p s ok s1] show ?thesis using ih by (simp add: r(3))
  qed
qed simp

end

definition load_ok :: "string \<Rightarrow> files \<Rightarrow> ControlFile option" where
  "load_ok destPath fs = (case LoadControl True destPath fs of Inl _ \<Rightarrow> None | Inr cf \<Rightarrow> Some cf)"

definition save_ok :: "nat \<Rightarrow> string \<Rightarrow> ControlFile \<Rightarrow> files \<Rightarrow> bool \<times> files" where
  "save_ok n destPath cf fs = (case SaveControl n destPath cf fs of (e, fs') \<Rightarrow> (e = None, fs'))"

lemma load_ok_cong: "fs (ControlPath p) = fs' (ControlPath p) \<Longrightarrow> load_ok p fs = load_ok p fs'"
  by (simp add: load_ok_def LoadControl_def)

lemma ControlPath_apart: "ControlPath q \<noteq> control_tmp p" "ControlPath q = ControlPath p \<longleftrightarrow> q = p"
proof -
  have "last (ControlPath q) = CHR ''m''" "last (control_tmp p) = CHR ''p''" by (simp_all add: ControlPath_def control_tmp_def)
  then show "ControlPath q \<noteq> control_tmp p" by auto
qed (simp add: ControlPath_def)

text \<open>A save, by where it stops: the temporary file is all that changes before the rename.\<close>

lemma SaveControl_cases:
  assumes "SaveControl n destPath cf fs = (err, fs')"
  shows "err = None \<Longrightarrow> fs' (ControlPath destPath) = Some (Document (marshal cf))"
    and "err \<noteq> None \<Longrightarrow> fs' (ControlPath destPath) = fs (ControlPath destPath)"
    and "p \<noteq> ControlPath destPath \<Longrightarrow> p \<noteq> control_tmp destPath \<Longrightarrow> fs' p = fs p"
proof -
  have ne: "ControlPath destPath \<noteq> control_tmp destPath" by (rule ControlPath_apart)
  consider "n = 0" | "n = 1" | "n = 2" | m where "n = Suc (Suc (Suc m))"
    by (metis One_nat_def Suc_1 not0_implies_Suc)
  then have "(err = None \<longrightarrow> fs' (ControlPath destPath) = Some (Document (marshal cf))) \<and>
    (err \<noteq> None \<longrightarrow> fs' (ControlPath destPath) = fs (ControlPath destPath)) \<and>
    (p \<noteq> ControlPath destPath \<longrightarrow> p \<noteq> control_tmp destPath \<longrightarrow> fs' p = fs p)"
    using assms ne by cases (auto simp: SaveControl_def save_ops_def)
  then show "err = None \<Longrightarrow> fs' (ControlPath destPath) = Some (Document (marshal cf))"
    and "err \<noteq> None \<Longrightarrow> fs' (ControlPath destPath) = fs (ControlPath destPath)"
    and "p \<noteq> ControlPath destPath \<Longrightarrow> p \<noteq> control_tmp destPath \<Longrightarrow> fs' p = fs p" by blast+
qed

lemma RemoveControl_cases:
  assumes "RemoveControl removable destPath fs = (ok, fs')"
  shows "fs' (ControlPath destPath) = (if ok then None else fs (ControlPath destPath))"
    and "p \<noteq> ControlPath destPath \<Longrightarrow> p \<noteq> control_tmp destPath \<Longrightarrow> fs' p = fs p"
  using assms ControlPath_apart(1) [of destPath destPath] by (auto simp: RemoveControl_def split: if_splits)

interpretation cs: control_store load_ok save_ok RemoveControl wf_control stored
proof unfold_locales
  fix c n p s s' assume "wf_control c" "save_ok n p c s = (True, s')"
  then show "load_ok p s' = Some (stored c)"
    using SaveControl_cases(1) [of n p c s None s'] unmarshal_marshal [of c]
    by (auto simp: save_ok_def load_ok_def LoadControl_def split: prod.splits)
next
  fix c n p s s' assume "wf_control c" "save_ok n p c s = (False, s')"
  then show "load_ok p s' = load_ok p s"
    by (intro load_ok_cong) (auto simp: save_ok_def split: prod.splits dest: SaveControl_cases(2))
next
  fix q p n c s ok s' assume "q \<noteq> p" "save_ok n p c s = (ok, s')"
  then show "load_ok q s' = load_ok q s"
    using SaveControl_cases(3) [of n p c s _ s' "ControlPath q"] ControlPath_apart [of q p]
    by (intro load_ok_cong) (auto simp: save_ok_def split: prod.splits)
next
  fix b p s s' assume "RemoveControl b p s = (True, s')"
  from RemoveControl_cases(1) [OF this] show "load_ok p s' = None" by (simp add: load_ok_def LoadControl_def)
next
  fix b p s s' assume "RemoveControl b p s = (False, s')"
  from RemoveControl_cases(1) [OF this] show "load_ok p s' = load_ok p s" by (intro load_ok_cong) simp
next
  fix q p b s ok s' assume "q \<noteq> p" "RemoveControl b p s = (ok, s')"
  then show "load_ok q s' = load_ok q s"
    using RemoveControl_cases(2) [of b p s ok s' "ControlPath q"] ControlPath_apart [of q p] by (intro load_ok_cong) auto
qed

subsection \<open>Properties\<close>

text \<open>C34: the control files of a batch are a map from destinations to control files: after any sequence of saves and
  removals of any tasks, each of which may fail or stop after any of its system calls, loading a destination gives
  exactly what the last successful operation on that destination left (with each string made valid UTF-8), and what was there before when there was none.
  No task can lose or see the checkpoint of another.\<close>

lemma checkpoints_refine_map:
  assumes "list_all (saves_valid wf_control) xs" "store_run save_ok RemoveControl xs fs = (oks, fs')"
  shows "length oks = length xs \<and> (\<lambda>p. load_ok p fs') = expected stored (zip xs oks) (\<lambda>p. load_ok p fs)"
  using cs.store_refines [OF assms] by (simp add: cs.contents_def [abs_def])

definition sample_control :: ControlFile where
  "sample_control = zero_control\<lparr>cf_URL := ''u'', cf_TotalSize := 12, cf_ChunkSize := 4, cf_Completed := [0, 8],
     cf_ChunkHashes := [(0, ''aa''), (8, ''bb'')], cf_Profile := ''odm''\<rparr>"

lemma sample_control_wf: "wf_control sample_control" "stored sample_control = sample_control"
proof -
  show "wf_control sample_control" by (simp add: wf_control_def sample_control_def zero_control_def in_int64_def)
  show "stored sample_control = sample_control" by code_simp
qed

lemma checkpoints_refine_map_witness:
  "load_ok ''f'' (snd (store_run save_ok RemoveControl [SaveOp 3 ''f'' sample_control, SaveOp 2 ''f'' zero_control, RemoveOp True ''g''] (\<lambda>_. None)))
   = Some sample_control"
proof -
  let ?xs = "[SaveOp 3 ''f'' sample_control, SaveOp 2 ''f'' zero_control, RemoveOp True ''g'']"
  have v: "list_all (saves_valid wf_control) ?xs"
    using sample_control_wf(1) by (simp add: wf_control_def zero_control_def in_int64_def)
  obtain oks fs' where r: "store_run save_ok RemoveControl ?xs (\<lambda>_. None) = (oks, fs')" by (meson surj_pair)
  have "oks = [True, False, True]"
    using r by (auto simp: save_ok_def SaveControl_def RemoveControl_def Let_def split: prod.splits)
  with checkpoints_refine_map [OF v r] have "(\<lambda>p. load_ok p fs') = (\<lambda>p. load_ok p (\<lambda>_. None))(''f'' \<mapsto> sample_control, ''g'' := None)"
    by (simp add: sample_control_wf(2))
  then have "load_ok ''f'' fs' = Some sample_control" by (simp add: fun_eq_iff split: if_splits)
  then show ?thesis by (simp only: r snd_conv)
qed

text \<open>C16: saving is atomic: wherever the save stops (after any number of its system calls, by a crash or
  by an error), a later load finds either what was there before or the whole new control file (with each
  string made valid UTF-8, as encoding/json does); it finds the new one exactly when the save reported success. No other file but the temporary one is
  touched.\<close>

lemma SaveControl_atomic:
  assumes "wf_control cf" "SaveControl n destPath cf fs = (err, fs')"
  shows "(if err = None then LoadControl True destPath fs' = Inr (stored cf)
          else LoadControl True destPath fs' = LoadControl True destPath fs)
       \<and> (\<forall>p. p \<noteq> ControlPath destPath \<longrightarrow> p \<noteq> control_tmp destPath \<longrightarrow> fs' p = fs p)"
proof -
  note c = SaveControl_cases [OF assms(2)]
  show ?thesis using c unmarshal_marshal [OF assms(1)] by (auto simp: LoadControl_def)
qed

lemma SaveControl_atomic_witness:
  "LoadControl True ''f'' (snd (SaveControl 2 ''f'' sample_control (\<lambda>_. None))) = Inl NoControlFile
   \<and> LoadControl True ''f'' (snd (SaveControl 3 ''f'' sample_control (\<lambda>_. None))) = Inr sample_control"
proof -
  note w = sample_control_wf(1)
  show ?thesis
    using SaveControl_atomic [OF w, of 2 "''f''" "\<lambda>_. None"] SaveControl_atomic [OF w, of 3 "''f''" "\<lambda>_. None"]
    by (auto simp: SaveControl_def LoadControl_def sample_control_wf(2))
qed

end
