(* ===== verification/Resume.thy ===== *)
theory Resume imports Task_Layout Chunk_Download Control_File begin

section \<open>Checkpoints and resume (internal/download/task_persist.go, resume_impl.go, task_start.go, internal/storage/file.go)\<close>

text \<open>
  What a task writes into its control file, what a later run takes back from it, and the integrity
  checks that run before the completed chunks are trusted. Offsets in the control file are absolute;
  the queue of region 2 counts from the region boundary. Additions on offsets are those of int: all of
  them lie within a file. The destination is a partial function from offsets to bytes that is None from
  the end of the file on; a server sample is the answer to the ranged GET and the bytes of its body.
\<close>

subsection \<open>The destination file\<close>

datatype open_error = NoOutputFilename | MkdirFails | OpenFails | TruncateFails

definition set_length :: "int \<Rightarrow> disk \<Rightarrow> disk" where
  "set_length size0 d = (\<lambda>i. if 0 \<le> i \<and> i < size0 then Some (case d i of None \<Rightarrow> 0 | Some b \<Rightarrow> b) else None)"

definition OpenForWrite :: "open_error option \<Rightarrow> string \<Rightarrow> int \<Rightarrow> disk \<Rightarrow> open_error + disk" where
  "OpenForWrite os_error name size0 d =
     (if name = [] then Inl NoOutputFilename
      else case os_error of
        Some TruncateFails \<Rightarrow> if size0 > 0 then Inl TruncateFails else Inr d
      | Some e \<Rightarrow> Inl e
      | None \<Rightarrow> Inr (if size0 > 0 then set_length size0 d else d))"

definition ReadAt :: "disk \<Rightarrow> int \<Rightarrow> int \<Rightarrow> byte list option" where
  "ReadAt d n pos = those (map (\<lambda>i. d (pos + int i)) [0..<nat n])"

subsection \<open>Chunk hashes\<close>

definition storeChunkHash :: "int \<Rightarrow> string \<Rightarrow> task \<Rightarrow> task" where
  "storeChunkHash start sum0 t = t\<lparr>tk_chunkHashes := (tk_chunkHashes t)(start \<mapsto> sum0)\<rparr>"

definition clearChunkHashes :: "task \<Rightarrow> task" where
  "clearChunkHashes t = t\<lparr>tk_chunkHashes := (\<lambda>_. None)\<rparr>"

definition restore_offsets :: "ControlFile \<Rightarrow> int list \<Rightarrow> (int \<Rightarrow> string option) \<Rightarrow> int \<Rightarrow> string option" where
  "restore_offsets cf offs h =
     fold (\<lambda>off h. case ChunkHash cf off of None \<Rightarrow> h | Some s \<Rightarrow> h(off \<mapsto> s)) offs h"

definition restoreChunkHashes :: "ControlFile \<Rightarrow> task \<Rightarrow> task" where
  "restoreChunkHashes cf t =
     (if cf_ChunkHashes cf = [] \<or> tk_queue t = None then t
      else case tk_engines t of
        None \<Rightarrow> t\<lparr>tk_chunkHashes := restore_offsets cf (wq_CompletedOffsets (the (tk_queue t))) (tk_chunkHashes t)\<rparr>
      | Some (e1, e2) \<Rightarrow>
          t\<lparr>tk_chunkHashes :=
              restore_offsets cf (map (\<lambda>off. off + eng_base e2) (wq_CompletedOffsets (eng_q e2)))
                (restore_offsets cf (wq_CompletedOffsets (eng_q e1)) (tk_chunkHashes t))\<rparr>)"

definition snapshotChunkHashes :: "task \<Rightarrow> int list \<Rightarrow> (int \<times> string) list" where
  "snapshotChunkHashes t offs =
     List.map_filter (\<lambda>off. map_option (Pair off) (tk_chunkHashes t off)) (remdups offs)"

subsection \<open>Writing the control file\<close>

definition completed_abs :: "task \<Rightarrow> int list" where
  "completed_abs t =
     (case tk_engines t of
        Some (e1, e2) \<Rightarrow>
          wq_CompletedOffsets (eng_q e1) @ map (\<lambda>off. off + eng_base e2) (wq_CompletedOffsets (eng_q e2))
      | None \<Rightarrow> (case tk_queue t of None \<Rightarrow> [] | Some q \<Rightarrow> wq_CompletedOffsets q))"

definition Version :: string where
  "Version = ''odm/1.9.2''"

definition control_of :: "string \<Rightarrow> string \<Rightarrow> task \<Rightarrow> probe_result \<Rightarrow> ControlFile" where
  "control_of createdAt now t pr =
     \<lparr>cf_URL = tk_url t, cf_FinalURL = FinalURL pr, cf_TotalSize = TotalSize pr, cf_ChunkSize = effectiveChunkSize t,
      cf_ETag = ETag pr, cf_Completed = completed_abs t, cf_CreatedAt = createdAt, cf_UpdatedAt = now,
      cf_Connections = tk_conns t, cf_UserAgent = op_UserAgent (tk_opts t), cf_ODMVersion = Version,
      cf_Checksum = op_Checksum (tk_opts t), cf_ChunkHashes = snapshotChunkHashes t (completed_abs t),
      cf_Profile = op_Profile (tk_opts t), cf_SplitAt = tk_splitAt t, cf_Region2ChunkSize = region2ChunkSize t\<rparr>"

text \<open>\<open>now\<close> is the clock in nanoseconds, \<open>text_of\<close> its RFC 3339 text, \<open>n\<close> the system calls the save gets
  through. A save that fails is only logged.\<close>

definition persistControl ::
  "(int \<Rightarrow> string) \<Rightarrow> int \<Rightarrow> nat \<Rightarrow> task \<times> files \<Rightarrow> task \<times> files" where
  "persistControl text_of now n s =
     (case s of (t, fs) \<Rightarrow>
        case tk_probe t of
          None \<Rightarrow> (t, fs)
        | Some pr \<Rightarrow>
            if tk_queue t = None then (t, fs)
            else
              let created = (case tk_controlCreatedAt t of None \<Rightarrow> now | Some c \<Rightarrow> c);
                  t1 = t\<lparr>tk_controlCreatedAt := Some created, tk_lastPersist := Some now\<rparr>
              in (t1, snd (SaveControl n (tk_outPath t1) (control_of (text_of created) (text_of now) t1 pr) fs)))"

definition persistCheckpointInterval :: int where "persistCheckpointInterval = 16"
definition persistMinInterval :: int where "persistMinInterval = 2 * 10 ^ 9"

definition checkpoint :: "int \<Rightarrow> task \<Rightarrow> bool \<times> task" where
  "checkpoint now t0 =
     (let t = t0\<lparr>tk_chunksSincePersist := tk_chunksSincePersist t0 + 1\<rparr>
      in if tk_chunksSincePersist t \<ge> persistCheckpointInterval then (True, t\<lparr>tk_chunksSincePersist := 0\<rparr>)
         else (case tk_lastPersist t of None \<Rightarrow> (False, t) | Some l \<Rightarrow> (now - l \<ge> persistMinInterval, t)))"

definition finish :: "(int \<Rightarrow> string) \<Rightarrow> int \<Rightarrow> nat \<Rightarrow> bool \<Rightarrow> task \<times> files \<Rightarrow> task \<times> files" where
  "finish text_of now n removable s =
     (if tk_state (fst s) = StateCompleted
      then (fst s, snd (RemoveControl removable (tk_outPath (fst s)) (snd s)))
      else persistControl text_of now n s)"

subsection \<open>Taking a control file back (the resume step of Start)\<close>

definition layout_matches :: "ControlFile \<Rightarrow> task \<Rightarrow> probe_result \<Rightarrow> int \<Rightarrow> bool" where
  "layout_matches cf t pr effective \<longleftrightarrow>
     cf_TotalSize cf = TotalSize pr \<and> cf_ChunkSize cf = effective \<and>
     (cf_Profile cf = [] \<or> cf_Profile cf = op_Profile (tk_opts t)) \<and>
     cf_SplitAt cf = tk_splitAt t \<and> cf_Region2ChunkSize cf = region2ChunkSize t"

text \<open>The absolute offsets per region: region 1 keeps them, region 2 subtracts the boundary.\<close>

definition region1_offsets :: "int \<Rightarrow> int set \<Rightarrow> int set" where
  "region1_offsets splitAt offs = {off \<in> offs. off < splitAt}"

definition region2_offsets :: "int \<Rightarrow> int set \<Rightarrow> int set" where
  "region2_offsets splitAt offs = (\<lambda>off. off - splitAt) ` {off \<in> offs. off \<ge> splitAt}"

definition reset_queues :: "ControlFile \<Rightarrow> task \<Rightarrow> probe_result \<Rightarrow> (int \<times> bool) \<times> task" where
  "reset_queues cf t pr =
     (let offs = cf_CompletedOffsets cf
      in case tk_engines t of
           Some (e1, e2) \<Rightarrow>
             (case (wq_ResetCompletedOffsets (region1_offsets (tk_splitAt t) offs) (tk_splitAt t) (eng_q e1),
                    wq_ResetCompletedOffsets (region2_offsets (tk_splitAt t) offs) (eng_base e2) (eng_q e2)) of
                (((a1, ok), q1), ((a2, ok2), q2)) \<Rightarrow>
                  ((a1 + a2, ok), t\<lparr>tk_engines := Some (e1\<lparr>eng_q := q1\<rparr>, e2\<lparr>eng_q := q2\<rparr>), tk_queue := Some q1\<rparr>))
         | None \<Rightarrow>
             (case tk_queue t of
                None \<Rightarrow> ((0, False), t)
              | Some q \<Rightarrow>
                  (case wq_ResetCompletedOffsets offs (TotalSize pr) q of
                     (r, q') \<Rightarrow> (r, t\<lparr>tk_queue := Some q'\<rparr>))))"

definition resume_step :: "ControlFile \<Rightarrow> probe_result \<Rightarrow> int \<Rightarrow> task \<Rightarrow> int \<times> task" where
  "resume_step cf pr effective t =
     (if cf_ETag cf \<noteq> [] \<and> ETag pr \<noteq> [] \<and> cf_ETag cf \<noteq> ETag pr then (0, t)
      else if layout_matches cf t pr effective then
        (case reset_queues cf t pr of
           ((already, ok), t1) \<Rightarrow>
             if \<not> ok then (0, t1)
             else (already, restoreChunkHashes cf (t1\<lparr>tk_resumeETag := cf_ETag cf, tk_bytesDone := already\<rparr>)))
      else (0, t))"

subsection \<open>Integrity checks\<close>

definition hasFullHashCoverage :: "ControlFile \<Rightarrow> bool" where
  "hasFullHashCoverage cf \<longleftrightarrow>
     cf_ChunkHashes cf \<noteq> [] \<and> (\<forall>off \<in> set (cf_Completed cf). ChunkHash cf off \<noteq> None)"

text \<open>The bytes fed to the hasher, read in pieces of 64 KiB.\<close>

function hash_loop :: "disk \<Rightarrow> int \<Rightarrow> int \<Rightarrow> byte list \<Rightarrow> byte list option" where
  "hash_loop d pos end0 acc =
     (if pos \<le> end0 then
        let n = (if pos + 65536 - 1 > end0 then end0 - pos + 1 else 65536)
        in case ReadAt d n pos of None \<Rightarrow> None | Some bs \<Rightarrow> hash_loop d (pos + n) end0 (acc @ bs)
      else Some acc)"
  by pat_completeness auto
termination by (relation "measure (\<lambda>(d, pos, end0, acc). nat (end0 - pos + 1))") auto

declare hash_loop.simps [simp del]

datatype resume_error = NoRecordedHash int | InvalidSpan int | HashReadFails int | HashDiffers int
  | SampleFails int | SampleDiskFails int | SampleDiffers int

definition verify_span :: "(byte list \<Rightarrow> string) \<Rightarrow> task \<Rightarrow> probe_result \<Rightarrow> ControlFile \<Rightarrow> disk \<Rightarrow> int \<Rightarrow> resume_error option" where
  "verify_span sha t pr cf d off =
     (case ChunkHash cf off of
        None \<Rightarrow> Some (NoRecordedHash off)
      | Some want \<Rightarrow>
          (case chunkSpan t pr off of (start, end0) \<Rightarrow>
             if end0 < start then Some (InvalidSpan off)
             else (case hash_loop d start end0 [] of
                 None \<Rightarrow> Some (HashReadFails off)
               | Some bs \<Rightarrow> if sha bs \<noteq> want then Some (HashDiffers off) else None)))"

fun first_error :: "('a \<Rightarrow> resume_error option) \<Rightarrow> 'a list \<Rightarrow> resume_error option" where
  "first_error f [] = None"
| "first_error f (x # xs) = (case f x of Some e \<Rightarrow> Some e | None \<Rightarrow> first_error f xs)"

definition verifyResumedHashes :: "(byte list \<Rightarrow> string) \<Rightarrow> task \<Rightarrow> ControlFile \<Rightarrow> disk \<Rightarrow> resume_error option" where
  "verifyResumedHashes sha t cf d =
     (case tk_probe t of
        None \<Rightarrow> None
      | Some pr \<Rightarrow>
          if TotalSize pr \<le> 0 then None
          else first_error (verify_span sha t pr cf d) (sorted_list_of_set (cf_CompletedOffsets cf)))"

definition resumeSampleSpans :: "task \<Rightarrow> probe_result \<Rightarrow> int \<Rightarrow> chunk list" where
  "resumeSampleSpans t pr n =
     (case tk_engines t of
        None \<Rightarrow>
          (let cs0 = layoutChunkSize t 0; cs = (if cs0 < 1 then op_ChunkSize (tk_opts t) else cs0)
           in case tk_queue t of None \<Rightarrow> [] | Some q \<Rightarrow> wq_CompletedSpans cs (TotalSize pr) n q)
      | Some (e1, e2) \<Rightarrow>
          (let seg = (if region2ChunkSize t < 1 then op_ChunkSize (tk_opts t) else region2ChunkSize t)
           in wq_CompletedSpans (op_ChunkSize (tk_opts t)) (tk_splitAt t) n (eng_q e1)
              @ map (\<lambda>s. \<lparr>Index = 0, Start = tk_splitAt t + Start s, End = tk_splitAt t + End s\<rparr>)
                  (wq_CompletedSpans seg (TotalSize pr - tk_splitAt t) n (eng_q e2))))"

definition resumeVerifyChunks :: int where "resumeVerifyChunks = 4"
definition resumeProbeLen :: int where "resumeProbeLen = 1024"

text \<open>The server: for a client and a byte range, the answer and the bytes of its body.\<close>

type_synonym sample_server = "client_kind \<Rightarrow> int \<Rightarrow> int \<Rightarrow> response option \<times> byte list"

definition sample_client :: "task \<Rightarrow> int \<Rightarrow> client_kind" where
  "sample_client t start =
     (case tk_engines t of Some (e1, e2) \<Rightarrow> if start \<ge> tk_splitAt t then eng_client e2 else H1Client | None \<Rightarrow> H1Client)"

definition verify_sample :: "sample_server \<Rightarrow> task \<Rightarrow> disk \<Rightarrow> chunk \<Rightarrow> resume_error option" where
  "verify_sample srv t d s =
     (let end0 = (if Start s + resumeProbeLen - 1 > End s then End s else Start s + resumeProbeLen - 1);
          want = nat (end0 - Start s + 1)
      in case srv (sample_client t (Start s)) (Start s) end0 of (answer, body) \<Rightarrow>
           case GetRange_result answer of
             Inl e \<Rightarrow> Some (SampleFails (Start s))
           | Inr r \<Rightarrow>
               if length body < want then Some (SampleFails (Start s))
               else (case ReadAt d (int want) (Start s) of
                   None \<Rightarrow> Some (SampleDiskFails (Start s))
                 | Some bs \<Rightarrow> if take want body \<noteq> bs then Some (SampleDiffers (Start s)) else None))"

definition verifyResumedChunks :: "sample_server \<Rightarrow> task \<Rightarrow> disk \<Rightarrow> resume_error option" where
  "verifyResumedChunks srv t d =
     (case tk_probe t of
        None \<Rightarrow> None
      | Some pr \<Rightarrow>
          if SingleStream pr \<or> TotalSize pr \<le> 0 then None
          else first_error (verify_sample srv t d) (resumeSampleSpans t pr resumeVerifyChunks))"

definition verifyResumedData ::
  "(byte list \<Rightarrow> string) \<Rightarrow> sample_server \<Rightarrow> task \<Rightarrow> ControlFile \<Rightarrow> disk \<Rightarrow> resume_error option" where
  "verifyResumedData sha srv t cf d =
     (case (if hasFullHashCoverage cf then verifyResumedHashes sha t cf d else None) of
        Some e \<Rightarrow> Some e
      | None \<Rightarrow> verifyResumedChunks srv t d)"

subsection \<open>Resetting a fresh queue\<close>

lemma reset_fresh_CQ:
  assumes "tiles (chunks q) 0 sz" "0 \<le> sz" "D \<subseteq> Start ` set (chunks q)"
  shows "\<exists>q'. ResetCompletedOffsets D sz q = ((sum_list (map chunk_len (filter (\<lambda>c. Start c \<in> D) (chunks q))), True), q')
     \<and> completed q' = D \<and> chunks q' = filter (\<lambda>c. Start c \<notin> D) (chunks q)"
proof -
  have "card D \<le> card (Start ` set (chunks q))" using assms(3) by (intro card_mono) auto
  also have "\<dots> \<le> length (chunks q)" using card_image_le [of "set (chunks q)" Start] card_length [of "chunks q"] by simp
  finally have "snd (fst (ResetCompletedOffsets D sz q))"
    by (auto simp: ResetCompletedOffsets_def Let_def split: prod.splits)
  then obtain a q' where r: "ResetCompletedOffsets D sz q = ((a, True), q')"
    by (cases "ResetCompletedOffsets D sz q") auto
  note c = reset_conserves [OF assms(1,2) r]
  have "a = sum_list (map chunk_len (filter (\<lambda>c. Start c \<in> D) (chunks q)))"
    using c(1,2) tiles_sum [OF assms(1)] sum_list_filter_split [of chunk_len "\<lambda>c. Start c \<in> D" "chunks q"] by simp
  then show ?thesis using r c(2,3) assms(3) by auto
qed

lemma reset_fresh_SQ:
  assumes "sq_done q = {}" "D \<subseteq> Start ` set (sq_chunks q)"
  shows "\<exists>q'. static_ResetCompletedOffsets D sz q = ((sum_list (map chunk_len (filter (\<lambda>c. Start c \<in> D) (sq_chunks q))), True), q')
     \<and> sq_done q' = D \<and> static_pending q' = filter (\<lambda>c. Start c \<notin> D) (sq_chunks q)"
proof -
  have "Start ` {c \<in> set (sq_chunks q). Start c \<in> D} = D" using assms(2) by auto
  then show ?thesis using assms(1) filter_drop_takeWhile [of "\<lambda>c. Start c \<in> D" "\<lambda>c. Start c \<notin> D" "sq_chunks q"]
    by (simp add: static_ResetCompletedOffsets_def Let_def static_pending_def skip_done_def chunk_len_def [abs_def])
qed

definition fresh_queue :: "workQueue \<Rightarrow> int \<Rightarrow> bool" where
  "fresh_queue q len \<longleftrightarrow> wq_finished q = {} \<and> wq_pending q = wq_chunks q \<and> tiles (wq_chunks q) 0 len \<and> 0 \<le> len"

lemma reset_fresh:
  assumes "fresh_queue q len" "D \<subseteq> Start ` set (wq_chunks q)" "isStaticQueue q \<or> sz = len"
  shows "\<exists>q'. wq_ResetCompletedOffsets D sz q = ((sum_list (map chunk_len (filter (\<lambda>c. Start c \<in> D) (wq_chunks q))), True), q')
     \<and> wq_finished q' = D \<and> wq_pending q' = filter (\<lambda>c. Start c \<notin> D) (wq_chunks q)"
proof (cases q)
  case (CQ c)
  then show ?thesis using assms reset_fresh_CQ [of c len D] by (fastforce simp: fresh_queue_def)
next
  case (SQ c)
  then show ?thesis using assms reset_fresh_SQ [of c D sz] by (fastforce simp: fresh_queue_def)
qed

subsection \<open>The shape of a fresh layout\<close>

definition one_region :: "task \<Rightarrow> int \<Rightarrow> workQueue \<Rightarrow> bool" where
  "one_region t sz q \<longleftrightarrow> tk_engines t = None \<and> tk_queue t = Some q \<and> tk_splitAt t = 0 \<and> fresh_queue q sz"

definition two_regions :: "task \<Rightarrow> int \<Rightarrow> engine \<Rightarrow> engine \<Rightarrow> bool" where
  "two_regions t sz e1 e2 \<longleftrightarrow> tk_engines t = Some (e1, e2) \<and> tk_queue t = Some (eng_q e1) \<and>
     fresh_queue (eng_q e1) (tk_splitAt t) \<and> fresh_queue (eng_q e2) (sz - tk_splitAt t) \<and> isStaticQueue (eng_q e2) \<and>
     eng_base e1 = 0 \<and> eng_base e2 = tk_splitAt t \<and> 0 \<le> tk_splitAt t \<and> tk_splitAt t \<le> sz"

lemma build_layout_shape:
  assumes "layout_in_range (tk_opts t) (TotalSize pr)" "\<not> SingleStream pr" "tk_probe t = Some pr"
    and b: "build_layout t pr budget = Some (t1, eff)"
  shows "tk_opts t1 = tk_opts t" "tk_probe t1 = Some pr" "eff = effectiveChunkSize t1"
    and "(\<exists>q. one_region t1 (TotalSize pr) q) \<or> (\<exists>e1 e2. two_regions t1 (TotalSize pr) e1 e2)"
proof -
  have pos: "0 < TotalSize pr" using assms(1) by (simp add: layout_in_range_def)
  have "tk_opts t1 = tk_opts t \<and> tk_probe t1 = Some pr \<and> eff = effectiveChunkSize t1 \<and>
    ((\<exists>q. one_region t1 (TotalSize pr) q) \<or> (\<exists>e1 e2. two_regions t1 (TotalSize pr) e1 e2))"
  proof (cases "uses_both t (TotalSize pr) budget")
    case True
    obtain n seg where s: "AriaSplit (TotalSize pr - both_mid (TotalSize pr)) (op_Split (tk_opts t)) (op_MinSplitSize (tk_opts t)) = (n, seg)"
      by (cases "AriaSplit (TotalSize pr - both_mid (TotalSize pr)) (op_Split (tk_opts t)) (op_MinSplitSize (tk_opts t))") auto
    have m: "1 \<le> both_mid (TotalSize pr)" "both_mid (TotalSize pr) < TotalSize pr"
      using both_mid_bounds [of "TotalSize pr"] True by (auto simp: uses_both_def)
    have p: "op_Profile (tk_opts t) \<noteq> ''aria2c''" using True by (simp add: uses_both_def)
    have q: "tk_queue t1 = map_option (\<lambda>es. eng_q (fst es)) (tk_engines t1)"
      using b True assms(2) by (auto simp: build_layout_def layout_size_def Let_def uses_both_def split: if_splits)
    show ?thesis using build_both [OF assms(1,2) True s] b m p q assms(3)
      by (auto simp: two_regions_def fresh_queue_def static_pending_def layout_tiles effectiveChunkSize_def)
  next
    case False
    show ?thesis
    proof (cases "op_Profile (tk_opts t) = ''aria2c''")
      case True
      obtain n seg where s: "AriaSplit (TotalSize pr) (op_Split (tk_opts t)) (op_MinSplitSize (tk_opts t)) = (n, seg)"
        by (cases "AriaSplit (TotalSize pr) (op_Split (tk_opts t)) (op_MinSplitSize (tk_opts t))") auto
      show ?thesis using build_aria [OF assms(1,2) True s] b True s pos assms(3)
        by (auto simp: one_region_def fresh_queue_def static_pending_def layout_tiles effectiveChunkSize_def probed_size_def)
    next
      case f: False
      show ?thesis using build_single [OF assms(1,2) f False] b f pos assms(3)
        by (auto simp: one_region_def fresh_queue_def static_pending_def layout_tiles effectiveChunkSize_def)
    qed
  qed
  then show "tk_opts t1 = tk_opts t" "tk_probe t1 = Some pr" "eff = effectiveChunkSize t1"
    and "(\<exists>q. one_region t1 (TotalSize pr) q) \<or> (\<exists>e1 e2. two_regions t1 (TotalSize pr) e1 e2)" by auto
qed

subsection \<open>A run of a task, and what a resume restores\<close>

text \<open>\<open>tr\<close> is \<open>t1\<close> after some of its chunks were completed.\<close>

definition ran_from :: "task \<Rightarrow> task \<Rightarrow> bool" where
  "ran_from t1 tr \<longleftrightarrow>
     tk_opts tr = tk_opts t1 \<and> tk_probe tr = tk_probe t1 \<and> tk_splitAt tr = tk_splitAt t1 \<and> tk_ariaSplit tr = tk_ariaSplit t1 \<and>
     (case (tk_engines t1, tk_engines tr) of
        (None, None) \<Rightarrow>
          (case (tk_queue t1, tk_queue tr) of (Some q, Some q') \<Rightarrow> wq_finished q' \<subseteq> Start ` set (wq_chunks q) | _ \<Rightarrow> False)
      | (Some (e1, e2), Some (f1, f2)) \<Rightarrow>
          tk_queue tr = Some (eng_q f1) \<and> eng_base f2 = eng_base e2 \<and>
          wq_finished (eng_q f1) \<subseteq> Start ` set (wq_chunks (eng_q e1)) \<and>
          wq_finished (eng_q f2) \<subseteq> Start ` set (wq_chunks (eng_q e2))
      | _ \<Rightarrow> False)"

definition task_pending :: "task \<Rightarrow> chunk list" where
  "task_pending t =
     (case tk_engines t of
        Some (e1, e2) \<Rightarrow> wq_pending (eng_q e1) @ map (shift_chunk (eng_base e2)) (wq_pending (eng_q e2))
      | None \<Rightarrow> (case tk_queue t of None \<Rightarrow> [] | Some q \<Rightarrow> wq_pending q))"

lemma offsets_set: "finite (wq_finished q) \<Longrightarrow> set (wq_CompletedOffsets q) = wq_finished q"
  by (simp add: wq.offsets_sorted)

lemma reset_one_region:
  assumes "one_region t1 (TotalSize pr) q" "cf_CompletedOffsets cf \<subseteq> Start ` set (wq_chunks q)"
  shows "\<exists>t2. reset_queues cf t1 pr =
      ((sum_list (map chunk_len (filter (\<lambda>c. Start c \<in> cf_CompletedOffsets cf) (task_spans t1))), True), t2) \<and>
      task_pending t2 = filter (\<lambda>c. Start c \<notin> cf_CompletedOffsets cf) (task_spans t1) \<and>
      set (completed_abs t2) = cf_CompletedOffsets cf \<and> t2 = t1\<lparr>tk_queue := tk_queue t2\<rparr> \<and> tk_queue t2 \<noteq> None"
proof -
  have f: "finite (cf_CompletedOffsets cf)" by (simp add: cf_CompletedOffsets_def)
  obtain q' where "wq_ResetCompletedOffsets (cf_CompletedOffsets cf) (TotalSize pr) q =
      ((sum_list (map chunk_len (filter (\<lambda>c. Start c \<in> cf_CompletedOffsets cf) (wq_chunks q))), True), q')"
    "wq_finished q' = cf_CompletedOffsets cf" "wq_pending q' = filter (\<lambda>c. Start c \<notin> cf_CompletedOffsets cf) (wq_chunks q)"
    using reset_fresh [OF _ assms(2), of "TotalSize pr" "TotalSize pr"] assms(1) by (auto simp: one_region_def)
  then show ?thesis using assms(1) f
    by (simp add: reset_queues_def one_region_def task_spans_def task_pending_def completed_abs_def offsets_set)
qed

lemma filter_shift: "filter P (map (shift_chunk b) cs) = map (shift_chunk b) (filter (\<lambda>c. P (shift_chunk b c)) cs)"
  by (induction cs) auto

lemma len_shift [simp]: "chunk_len (shift_chunk b c) = chunk_len c"
  by (simp add: chunk_len_def shift_chunk_def)

lemma Start_shift [simp]: "Start (shift_chunk b c) = b + Start c"
  by (simp add: shift_chunk_def)

text \<open>With \<open>D1\<close> below the boundary and \<open>D2\<close> relative to it, the two regions take their parts back.\<close>

lemma region_offsets:
  assumes "cf_CompletedOffsets cf = D1 \<union> (\<lambda>off. off + m) ` D2" "\<forall>x \<in> D1. x < m" "\<forall>x \<in> D2. 0 \<le> x"
  shows "region1_offsets m (cf_CompletedOffsets cf) = D1" "region2_offsets m (cf_CompletedOffsets cf) = D2"
proof -
  show "region1_offsets m (cf_CompletedOffsets cf) = D1" using assms by (auto simp: region1_offsets_def)
  have "{off \<in> cf_CompletedOffsets cf. off \<ge> m} = (\<lambda>off. off + m) ` D2" using assms by force
  then show "region2_offsets m (cf_CompletedOffsets cf) = D2" by (simp add: region2_offsets_def image_image)
qed

lemma reset_two_regions:
  assumes "two_regions t1 (TotalSize pr) e1 e2"
    and D: "D1 \<subseteq> Start ` set (wq_chunks (eng_q e1))" "D2 \<subseteq> Start ` set (wq_chunks (eng_q e2))"
    and cf: "cf_CompletedOffsets cf = D1 \<union> (\<lambda>off. off + tk_splitAt t1) ` D2"
  shows "\<exists>t2. reset_queues cf t1 pr =
      ((sum_list (map chunk_len (filter (\<lambda>c. Start c \<in> cf_CompletedOffsets cf) (task_spans t1))), True), t2) \<and>
      task_pending t2 = filter (\<lambda>c. Start c \<notin> cf_CompletedOffsets cf) (task_spans t1) \<and>
      set (completed_abs t2) = cf_CompletedOffsets cf \<and>
      t2 = t1\<lparr>tk_engines := tk_engines t2, tk_queue := tk_queue t2\<rparr> \<and> tk_queue t2 \<noteq> None \<and> tk_engines t2 \<noteq> None"
proof -
  let ?m = "tk_splitAt t1" let ?C = "cf_CompletedOffsets cf"
  have fr: "fresh_queue (eng_q e1) ?m" "fresh_queue (eng_q e2) (TotalSize pr - ?m)" "isStaticQueue (eng_q e2)" "eng_base e2 = ?m"
    using assms(1) by (auto simp: two_regions_def)
  have s1: "0 \<le> Start c \<and> Start c < ?m" if "c \<in> set (wq_chunks (eng_q e1))" for c
    using tiles_bounds [of "wq_chunks (eng_q e1)" 0 ?m c] fr(1) that by (auto simp: fresh_queue_def)
  have s2: "0 \<le> Start c" if "c \<in> set (wq_chunks (eng_q e2))" for c
    using tiles_bounds [of "wq_chunks (eng_q e2)" 0 _ c] fr(2) that by (auto simp: fresh_queue_def)
  have b: "\<forall>x \<in> D1. x < ?m" "\<forall>x \<in> D2. 0 \<le> x" using D s1 s2 by blast+
  have C1: "Start c \<in> ?C \<longleftrightarrow> Start c \<in> D1" if "c \<in> set (wq_chunks (eng_q e1))" for c
    using cf b s1 [OF that] by auto
  have C2: "?m + Start c \<in> ?C \<longleftrightarrow> Start c \<in> D2" if "c \<in> set (wq_chunks (eng_q e2))" for c
    using cf b s2 [OF that] by force
  obtain q1 where q1: "wq_ResetCompletedOffsets D1 ?m (eng_q e1) =
      ((sum_list (map chunk_len (filter (\<lambda>c. Start c \<in> D1) (wq_chunks (eng_q e1)))), True), q1)"
    "wq_finished q1 = D1" "wq_pending q1 = filter (\<lambda>c. Start c \<notin> D1) (wq_chunks (eng_q e1))"
    using reset_fresh [OF fr(1) D(1), of ?m] by auto
  obtain q2 where q2: "wq_ResetCompletedOffsets D2 ?m (eng_q e2) =
      ((sum_list (map chunk_len (filter (\<lambda>c. Start c \<in> D2) (wq_chunks (eng_q e2)))), True), q2)"
    "wq_finished q2 = D2" "wq_pending q2 = filter (\<lambda>c. Start c \<notin> D2) (wq_chunks (eng_q e2))"
    using reset_fresh [OF fr(2) D(2), of ?m] fr(3) by auto
  have fin: "finite D1" "finite D2" using D finite_surj by blast+
  have F: "filter (\<lambda>c. Start c \<in> ?C) (wq_chunks (eng_q e1)) = filter (\<lambda>c. Start c \<in> D1) (wq_chunks (eng_q e1))"
    "filter (\<lambda>c. Start c \<notin> ?C) (wq_chunks (eng_q e1)) = filter (\<lambda>c. Start c \<notin> D1) (wq_chunks (eng_q e1))"
    "filter (\<lambda>c. ?m + Start c \<in> ?C) (wq_chunks (eng_q e2)) = filter (\<lambda>c. Start c \<in> D2) (wq_chunks (eng_q e2))"
    "filter (\<lambda>c. ?m + Start c \<notin> ?C) (wq_chunks (eng_q e2)) = filter (\<lambda>c. Start c \<notin> D2) (wq_chunks (eng_q e2))"
    using C1 C2 by (auto cong: filter_cong)
  show ?thesis using assms(1) fr(4) q1 q2 fin
    by (intro exI [of _ "t1\<lparr>tk_engines := Some (e1\<lparr>eng_q := q1\<rparr>, e2\<lparr>eng_q := q2\<rparr>), tk_queue := Some q1\<rparr>"])
      (simp add: reset_queues_def two_regions_def region_offsets [OF cf b] task_spans_def task_pending_def
        completed_abs_def offsets_set F filter_shift o_def cf [symmetric])
qed

subsection \<open>Hashes in and out of the control file\<close>

lemma restore_offsets_at:
  "restore_offsets cf offs h off = (if off \<in> set offs \<and> ChunkHash cf off \<noteq> None then ChunkHash cf off else h off)"
  unfolding restore_offsets_def
  by (induction offs arbitrary: h) (auto split: option.splits)

lemma map_of_map_filter: "distinct xs \<Longrightarrow>
   map_of (List.map_filter (\<lambda>x. map_option (Pair x) (f x)) xs) y = (if y \<in> set xs then f y else None)"
  by (induction xs) (auto simp: List.map_filter_simps split: option.splits)

lemma ChunkHash_control_of:
  "ChunkHash (control_of ca now t pr) off = (if off \<in> set (completed_abs t) then tk_chunkHashes t off else None)"
  by (simp add: ChunkHash_def control_of_def snapshotChunkHashes_def map_of_map_filter)

lemma snapshot_keys:
  "fst ` set (snapshotChunkHashes t offs) \<subseteq> set offs" "distinct (map fst (snapshotChunkHashes t offs))"
proof -
  have "fst ` set (List.map_filter (\<lambda>off. map_option (Pair off) (tk_chunkHashes t off)) xs) \<subseteq> set xs
     \<and> (distinct xs \<longrightarrow> distinct (map fst (List.map_filter (\<lambda>off. map_option (Pair off) (tk_chunkHashes t off)) xs)))" for xs
    by (induction xs) (auto simp: List.map_filter_simps split: option.splits)
  from this [of "remdups offs"]
  show "fst ` set (snapshotChunkHashes t offs) \<subseteq> set offs" "distinct (map fst (snapshotChunkHashes t offs))"
    by (auto simp: snapshotChunkHashes_def)
qed

lemma restoreChunkHashes_at:
  assumes "tk_queue t \<noteq> None"
  shows "tk_chunkHashes (restoreChunkHashes cf t) off =
    (if off \<in> set (completed_abs t) \<and> ChunkHash cf off \<noteq> None then ChunkHash cf off else tk_chunkHashes t off)"
    and "completed_abs (restoreChunkHashes cf t) = completed_abs t"
    and "task_pending (restoreChunkHashes cf t) = task_pending t"
    and "tk_bytesDone (restoreChunkHashes cf t) = tk_bytesDone t"
  using assms by (auto simp: restoreChunkHashes_def restore_offsets_at completed_abs_def task_pending_def ChunkHash_def
      split: option.splits)

subsection \<open>The control file of a run\<close>

lemma ran_facts:
  assumes "ran_from t1 tr"
  shows "effectiveChunkSize tr = effectiveChunkSize t1" "region2ChunkSize tr = region2ChunkSize t1"
    "tk_splitAt tr = tk_splitAt t1" "op_Profile (tk_opts tr) = op_Profile (tk_opts t1)" "tk_probe tr = tk_probe t1"
  using assms by (auto simp: ran_from_def effectiveChunkSize_def region2ChunkSize_def probed_size_def split: option.splits)

lemma layout_matches_ran:
  "ran_from t1 tr \<Longrightarrow> layout_matches (control_of ca now tr pr) t1 pr (effectiveChunkSize t1)"
  by (simp add: layout_matches_def control_of_def ran_facts)

text \<open>Resetting the fresh layout with the control file of the run.\<close>

lemma reset_ran:
  assumes s: "(\<exists>q. one_region t1 (TotalSize pr) q) \<or> (\<exists>e1 e2. two_regions t1 (TotalSize pr) e1 e2)" and r: "ran_from t1 tr"
    and cfd: "cf = control_of ca now tr pr"
  defines "C \<equiv> set (completed_abs tr)"
  shows "\<exists>t2. reset_queues cf t1 pr =
      ((sum_list (map chunk_len (filter (\<lambda>c. Start c \<in> C) (task_spans t1))), True), t2) \<and>
      task_pending t2 = filter (\<lambda>c. Start c \<notin> C) (task_spans t1) \<and> set (completed_abs t2) = C \<and>
      tk_chunkHashes t2 = tk_chunkHashes t1 \<and> tk_queue t2 \<noteq> None"
    and "C \<subseteq> Start ` set (task_spans t1)"
proof -
  have cf: "cf_CompletedOffsets cf = C" by (simp add: cfd C_def control_of_def cf_CompletedOffsets_def)
  have "(\<exists>t2. reset_queues cf t1 pr =
      ((sum_list (map chunk_len (filter (\<lambda>c. Start c \<in> C) (task_spans t1))), True), t2) \<and>
      task_pending t2 = filter (\<lambda>c. Start c \<notin> C) (task_spans t1) \<and> set (completed_abs t2) = C \<and>
      tk_chunkHashes t2 = tk_chunkHashes t1 \<and> tk_queue t2 \<noteq> None) \<and> C \<subseteq> Start ` set (task_spans t1)"
    using s
  proof (elim disjE exE)
    fix q assume o: "one_region t1 (TotalSize pr) q"
    obtain q' where q': "tk_engines tr = None" "tk_queue tr = Some q'" "wq_finished q' \<subseteq> Start ` set (wq_chunks q)"
      using r o by (auto simp: ran_from_def one_region_def split: option.splits)
    have "C = wq_finished q'" using q' finite_surj [OF _ q'(3)] by (simp add: C_def completed_abs_def offsets_set)
    then obtain t2 where t2: "reset_queues cf t1 pr =
      ((sum_list (map chunk_len (filter (\<lambda>c. Start c \<in> C) (task_spans t1))), True), t2)"
      "task_pending t2 = filter (\<lambda>c. Start c \<notin> C) (task_spans t1)" "set (completed_abs t2) = C"
      "t2 = t1\<lparr>tk_queue := tk_queue t2\<rparr>" "tk_queue t2 \<noteq> None"
      using reset_one_region [OF o, of cf] cf q'(3) by auto
    have "tk_chunkHashes t2 = tk_chunkHashes t1" by (subst t2(4)) simp
    moreover have "C \<subseteq> Start ` set (task_spans t1)"
      using o q'(3) \<open>C = wq_finished q'\<close> by (simp add: one_region_def task_spans_def)
    ultimately show ?thesis using t2 by blast
  next
    fix e1 e2 assume o: "two_regions t1 (TotalSize pr) e1 e2"
    obtain f1 f2 where f: "tk_engines tr = Some (f1, f2)" "eng_base f2 = tk_splitAt t1"
      "wq_finished (eng_q f1) \<subseteq> Start ` set (wq_chunks (eng_q e1))" "wq_finished (eng_q f2) \<subseteq> Start ` set (wq_chunks (eng_q e2))"
      using r o by (auto simp: ran_from_def two_regions_def split: option.splits)
    have C: "C = wq_finished (eng_q f1) \<union> (\<lambda>off. off + tk_splitAt t1) ` wq_finished (eng_q f2)"
      using f finite_surj [OF _ f(3)] finite_surj [OF _ f(4)] by (simp add: C_def completed_abs_def offsets_set)
    obtain t2 where t2: "reset_queues cf t1 pr =
      ((sum_list (map chunk_len (filter (\<lambda>c. Start c \<in> C) (task_spans t1))), True), t2)"
      "task_pending t2 = filter (\<lambda>c. Start c \<notin> C) (task_spans t1)" "set (completed_abs t2) = C"
      "t2 = t1\<lparr>tk_engines := tk_engines t2, tk_queue := tk_queue t2\<rparr>" "tk_queue t2 \<noteq> None"
      using reset_two_regions [OF o f(3,4), of cf] cf C by auto
    have "tk_chunkHashes t2 = tk_chunkHashes t1" by (subst t2(4)) simp
    moreover have "C \<subseteq> Start ` set (task_spans t1)"
      using o f(3,4) by (fastforce simp: C two_regions_def task_spans_def image_Un image_image add.commute)
    ultimately show ?thesis using t2 by blast
  qed
  then show "\<exists>t2. reset_queues cf t1 pr =
      ((sum_list (map chunk_len (filter (\<lambda>c. Start c \<in> C) (task_spans t1))), True), t2) \<and>
      task_pending t2 = filter (\<lambda>c. Start c \<notin> C) (task_spans t1) \<and> set (completed_abs t2) = C \<and>
      tk_chunkHashes t2 = tk_chunkHashes t1 \<and> tk_queue t2 \<noteq> None" and "C \<subseteq> Start ` set (task_spans t1)" by blast+
qed

text \<open>The control file of a run of a layout in range is well formed.\<close>

lemma spans_bounds:
  assumes "layout_in_range (tk_opts t) (TotalSize pr)" "\<not> SingleStream pr" "build_layout t pr budget = Some (t1, eff)"
    and "c \<in> set (task_spans t1)"
  shows "0 \<le> Start c" "Start c < TotalSize pr"
proof -
  have "tiles (task_spans t1) 0 (TotalSize pr)" using layout_covers [OF assms(1,2), of budget] assms(3) by auto
  then show "0 \<le> Start c" "Start c < TotalSize pr" using tiles_bounds [of "task_spans t1" 0 "TotalSize pr" c] assms(4) by auto
qed

lemma chunk_sizes_in_range:
  assumes r: "layout_in_range (tk_opts t1) (TotalSize pr)" "tk_probe t1 = Some pr" "in_int64 (op_ChunkSize (tk_opts t1))"
    and s: "0 \<le> tk_splitAt t1" "tk_engines t1 \<noteq> None \<longrightarrow> tk_splitAt t1 < TotalSize pr" "tk_splitAt t1 \<le> TotalSize pr"
  shows "in_int64 (effectiveChunkSize t1)" "in_int64 (region2ChunkSize t1)" "in_int64 (TotalSize pr)" "in_int64 (tk_splitAt t1)"
proof -
  have seg: "in_int64 (snd (AriaSplit sz (op_Split (tk_opts t1)) (op_MinSplitSize (tk_opts t1))))" if z: "0 < sz" "sz \<le> 2 ^ 61" for sz
  proof -
    have o: "1 \<le> op_Split (tk_opts t1)" "op_Split (tk_opts t1) \<le> 2 ^ 31" "1 \<le> op_MinSplitSize (tk_opts t1)" "op_MinSplitSize (tk_opts t1) \<le> 2 ^ 61"
      using r(1) by (auto simp: layout_in_range_def)
    obtain n where n: "AriaSplit sz (op_Split (tk_opts t1)) (op_MinSplitSize (tk_opts t1)) = (n, (sz + n - 1) div n)" "1 \<le> n"
      using AriaSplit_any [OF z o] by metis
    then show ?thesis using seg_le [OF z(1) n(2)] ceil_div_bounds(1) [OF z(1) n(2)] z by (simp add: in_int64_def)
  qed
  have pos: "0 < TotalSize pr" "TotalSize pr \<le> 2 ^ 61" using r(1) by (auto simp: layout_in_range_def)
  show "in_int64 (effectiveChunkSize t1)" using seg [OF pos] r(2,3) pos by (simp add: effectiveChunkSize_def probed_size_def)
  show "in_int64 (region2ChunkSize t1)" using seg [of "TotalSize pr - tk_splitAt t1"] r(2) pos s
    by (auto simp: region2ChunkSize_def probed_size_def in_int64_def)
  show "in_int64 (TotalSize pr)" "in_int64 (tk_splitAt t1)" using pos s by (simp_all add: in_int64_def)
qed

lemma shape_split:
  assumes "layout_in_range (tk_opts t) (TotalSize pr)" "\<not> SingleStream pr" "build_layout t pr budget = Some (t1, eff)"
  shows "0 \<le> tk_splitAt t1 \<and> tk_splitAt t1 \<le> TotalSize pr \<and> (tk_engines t1 \<noteq> None \<longrightarrow> tk_splitAt t1 < TotalSize pr)"
proof (cases "uses_both t (TotalSize pr) budget")
  case True
  obtain n seg where s: "AriaSplit (TotalSize pr - both_mid (TotalSize pr)) (op_Split (tk_opts t)) (op_MinSplitSize (tk_opts t)) = (n, seg)"
    by (cases "AriaSplit (TotalSize pr - both_mid (TotalSize pr)) (op_Split (tk_opts t)) (op_MinSplitSize (tk_opts t))") auto
  show ?thesis using build_both(1) [OF assms(1,2) True s] both_mid_bounds [of "TotalSize pr"] True assms(3)
    by (auto simp: uses_both_def)
next
  case False
  have pos: "0 < TotalSize pr" using assms(1) by (simp add: layout_in_range_def)
  show ?thesis
  proof (cases "op_Profile (tk_opts t) = ''aria2c''")
    case True
    obtain n seg where s: "AriaSplit (TotalSize pr) (op_Split (tk_opts t)) (op_MinSplitSize (tk_opts t)) = (n, seg)"
      by (cases "AriaSplit (TotalSize pr) (op_Split (tk_opts t)) (op_MinSplitSize (tk_opts t))") auto
    show ?thesis using build_aria(1) [OF assms(1,2) True s] assms(3) pos by auto
  next
    case f: False
    show ?thesis using build_single(1) [OF assms(1,2) f False] assms(3) pos by auto
  qed
qed

lemma wf_control_of:
  assumes r: "layout_in_range (tk_opts t) (TotalSize pr)" "\<not> SingleStream pr" "tk_probe t = Some pr"
      "build_layout t pr budget = Some (t1, eff)" "ran_from t1 tr"
    and m: "in_int64 (op_ChunkSize (tk_opts t))" "in_int64 (tk_conns tr)" "rfc3339 ca" "rfc3339 now"
  shows "wf_control (control_of ca now tr pr)"
proof -
  note sh = build_layout_shape [OF r(1-4)]
  have p: "tk_probe t1 = Some pr" "tk_opts t1 = tk_opts t" using sh r(3) by auto
  have sub: "set (completed_abs tr) \<subseteq> Start ` set (task_spans t1)" using reset_ran(2) [OF sh(4) r(5) refl] .
  then have o: "0 \<le> x \<and> x < 2 ^ 63" if "x \<in> set (completed_abs tr)" for x
    using that spans_bounds [OF r(1,2,4)] r(1) by (fastforce simp: layout_in_range_def)
  have c: "in_int64 (effectiveChunkSize t1)" "in_int64 (region2ChunkSize t1)" "in_int64 (TotalSize pr)" "in_int64 (tk_splitAt t1)"
    using chunk_sizes_in_range [of t1 pr] p r(1) m(1) shape_split [OF r(1,2,4)] by auto
  have o64: "\<forall>x \<in> set (completed_abs tr). in_int64 x" using o by (force simp: in_int64_def)
  have k: "\<forall>x \<in> fst ` set (snapshotChunkHashes tr (completed_abs tr)). 0 \<le> x \<and> x < 2 ^ 63"
    using o snapshot_keys(1) [of tr "completed_abs tr"] by blast
  show ?thesis
    unfolding wf_control_def
    using c m o64 k snapshot_keys(2) [of tr "completed_abs tr"] ran_facts [OF r(5)]
    by (simp add: control_of_def)
qed

lemma control_of_times:
  "control_of ca now (t\<lparr>tk_controlCreatedAt := x, tk_lastPersist := y\<rparr>) pr = control_of ca now t pr"
  by (simp add: control_of_def effectiveChunkSize_def region2ChunkSize_def probed_size_def completed_abs_def
      snapshotChunkHashes_def cong: option.case_cong)

lemma ran_queue: "ran_from t1 tr \<Longrightarrow> tk_queue tr \<noteq> None"
  by (auto simp: ran_from_def split: option.splits)

text \<open>Storing changes nothing the resume looks at when the strings it looks at are valid UTF-8.\<close>

lemma resume_step_stored:
  assumes "valid_utf8 (cf_ETag cf)" "valid_utf8 (cf_Profile cf)" "list_all (valid_utf8 \<circ> snd) (cf_ChunkHashes cf)"
  shows "resume_step (stored cf) pr eff t = resume_step cf pr eff t"
proof -
  have "map (map_prod id coerce) (cf_ChunkHashes cf) = cf_ChunkHashes cf"
    using assms(3) by (intro map_idI) (auto simp: valid_utf8_def list_all_iff)
  then have f: "cf_ETag (stored cf) = cf_ETag cf" "cf_Profile (stored cf) = cf_Profile cf" "cf_ChunkHashes (stored cf) = cf_ChunkHashes cf"
    "cf_Completed (stored cf) = cf_Completed cf" "cf_TotalSize (stored cf) = cf_TotalSize cf" "cf_ChunkSize (stored cf) = cf_ChunkSize cf"
    "cf_SplitAt (stored cf) = cf_SplitAt cf" "cf_Region2ChunkSize (stored cf) = cf_Region2ChunkSize cf"
    using assms(1,2) by (simp_all add: stored_def valid_utf8_def)
  have ro: "restore_offsets (stored cf) = restore_offsets cf"
    by (intro ext) (simp add: restore_offsets_def ChunkHash_def f)
  have "reset_queues (stored cf) t pr = reset_queues cf t pr" by (simp add: reset_queues_def cf_CompletedOffsets_def f)
  moreover have "restoreChunkHashes (stored cf) = restoreChunkHashes cf"
    by (intro ext) (simp only: restoreChunkHashes_def f ro)
  ultimately show ?thesis by (simp only: resume_step_def layout_matches_def f)
qed

lemma snapshot_valid:
  "\<forall>off h. tk_chunkHashes t off = Some h \<longrightarrow> valid_utf8 h \<Longrightarrow> list_all (valid_utf8 \<circ> snd) (snapshotChunkHashes t offs)"
  by (auto simp: snapshotChunkHashes_def list_all_iff List.map_filter_def)

text \<open>Any other ETag: an octet outside UTF-8, which HTTP allows, comes back from the control file as a replacement
  character. The unchanged ETag of the server then looks changed, and the checkpoint is discarded.\<close>

lemma resume_discards_other_ETag:
  "\<not> valid_utf8 (ETag pr) \<Longrightarrow> resume_step (stored (control_of createdAt now t pr)) pr eff t1 = (0, t1)"
  by (auto simp: resume_step_def stored_def control_of_def valid_utf8_def)

lemma latin1_ETag: "\<not> valid_utf8 (CHR 0x22 # CHR 0xE9 # CHR 0x22 # [])"
proof -
  let ?e = "CHR 0x22 # CHR 0xE9 # CHR 0x22 # []"
  have "decode_rune ?e = (34, 1)" "decode_rune (CHR 0xE9 # CHR 0x22 # []) = (RuneError, 1)" "decode_rune (CHR 0x22 # []) = (34, 1)"
    by (simp_all add: decode_rune_def octet_def lead_class_def follows_def)
  then have "runes ?e = [34, RuneError, 34]" by (simp add: runes.simps)
  then show ?thesis by (simp add: valid_utf8_def coerce_def encode_rune_def RuneError_def)
qed

subsection \<open>Properties\<close>

text \<open>C3: a download that stops and is continued loses nothing. Take a layout, any run of it, the control
  file that run saves, and a later run that builds its layout afresh and loads that file. The resume
  step marks exactly the chunks the first run had completed, in both regions; exactly the other chunks
  are pending again; the bytes reported as done are those of the completed chunks, and with the
  pending ones make the whole file; and every recorded hash of a completed chunk is back. This is for a
  server whose ETag is valid UTF-8 (as the profile name and the hashes, which are hexadecimal, are): any
  other does not survive encoding/json, see \<open>resume_discards_other_ETag\<close>.\<close>

lemma resume_roundtrip:
  assumes r: "layout_in_range (tk_opts t) (TotalSize pr)" "\<not> SingleStream pr" "tk_probe t = Some pr"
      "build_layout t pr budget = Some (t1, eff)" "ran_from t1 tr"
    and m: "in_int64 (op_ChunkSize (tk_opts t))" "in_int64 (tk_conns tr)" "\<forall>x. rfc3339 (text_of x)"
    and u: "valid_utf8 (ETag pr)" "valid_utf8 (op_Profile (tk_opts t))" "\<forall>off h. tk_chunkHashes tr off = Some h \<longrightarrow> valid_utf8 h"
    and p: "persistControl text_of now 3 (tr, fs) = (tr', fs')"
  shows "\<exists>cf already t2. LoadControl True (tk_outPath tr) fs' = Inr cf \<and> resume_step cf pr eff t1 = (already, t2) \<and>
    set (completed_abs t2) = set (completed_abs tr) \<and>
    task_pending t2 = filter (\<lambda>c. Start c \<notin> set (completed_abs tr)) (task_spans t1) \<and>
    already = sum_list (map chunk_len (filter (\<lambda>c. Start c \<in> set (completed_abs tr)) (task_spans t1))) \<and>
    already + sum_list (map chunk_len (task_pending t2)) = TotalSize pr \<and> tk_bytesDone t2 = already \<and>
    (\<forall>off \<in> set (completed_abs tr). tk_chunkHashes tr off \<noteq> None \<longrightarrow> tk_chunkHashes t2 off = tk_chunkHashes tr off)"
proof -
  note sh = build_layout_shape [OF r(1-4)]
  have pr: "tk_probe tr = Some pr" using ran_facts(5) [OF r(5)] sh(2) by simp
  define ca where "ca = text_of (case tk_controlCreatedAt tr of None \<Rightarrow> now | Some c \<Rightarrow> c)"
  define cf where "cf = control_of ca (text_of now) tr pr"
  have w: "wf_control cf" unfolding cf_def ca_def by (rule wf_control_of [OF r m(1,2)]) (use m(3) in auto)
  have "fs' = snd (SaveControl 3 (tk_outPath tr) cf fs)"
    using p pr ran_queue [OF r(5)] by (auto simp: persistControl_def Let_def control_of_times cf_def ca_def)
  then have load: "LoadControl True (tk_outPath tr) fs' = Inr (stored cf)"
    using SaveControl_load [OF w, of "tk_outPath tr" fs] by simp
  obtain t2 where t2: "reset_queues cf t1 pr =
      ((sum_list (map chunk_len (filter (\<lambda>c. Start c \<in> set (completed_abs tr)) (task_spans t1))), True), t2)"
    "task_pending t2 = filter (\<lambda>c. Start c \<notin> set (completed_abs tr)) (task_spans t1)"
    "set (completed_abs t2) = set (completed_abs tr)" "tk_chunkHashes t2 = tk_chunkHashes t1" "tk_queue t2 \<noteq> None"
    using reset_ran(1) [OF sh(4) r(5) cf_def] by auto
  define t3 where "t3 = t2\<lparr>tk_resumeETag := cf_ETag cf, tk_bytesDone := sum_list (map chunk_len (filter (\<lambda>c. Start c \<in> set (completed_abs tr)) (task_spans t1)))\<rparr>"
  have t3: "completed_abs t3 = completed_abs t2" "task_pending t3 = task_pending t2" "tk_queue t3 \<noteq> None"
    using t2(5) by (simp_all add: t3_def completed_abs_def task_pending_def cong: option.case_cong)
  have e: "\<not> (cf_ETag cf \<noteq> [] \<and> ETag pr \<noteq> [] \<and> cf_ETag cf \<noteq> ETag pr)" by (simp add: cf_def control_of_def)
  have lm: "layout_matches cf t1 pr eff" using layout_matches_ran [OF r(5)] sh(3) by (simp add: cf_def)
  have step: "resume_step cf pr eff t1 = (tk_bytesDone t3, restoreChunkHashes cf t3)"
    using e lm t2(1) by (simp only: resume_step_def) (simp add: t3_def)
  have h: "\<forall>off \<in> set (completed_abs tr). tk_chunkHashes tr off \<noteq> None \<longrightarrow>
      tk_chunkHashes (restoreChunkHashes cf t3) off = tk_chunkHashes tr off"
    using restoreChunkHashes_at(1) [OF t3(3), of cf] t3(1) t2(3) by (simp add: cf_def ChunkHash_control_of)
  have sum: "sum_list (map chunk_len (task_spans t1)) = TotalSize pr"
    using layout_covers [OF r(1,2), of budget] r(4) tiles_sum by auto
  have "op_Profile (tk_opts tr) = op_Profile (tk_opts t)" using ran_facts [OF r(5)] sh(1) by simp
  then have st: "resume_step (stored cf) pr eff t1 = (tk_bytesDone t3, restoreChunkHashes cf t3)"
    using resume_step_stored [of cf pr eff t1] u step by (simp add: cf_def control_of_def snapshot_valid)
  show ?thesis
    by (rule exI [of _ "stored cf"], rule exI [of _ "tk_bytesDone t3"], rule exI [of _ "restoreChunkHashes cf t3"])
      (use load st h sum restoreChunkHashes_at(2-4) [OF t3(3), of cf] t3 t2(2,3)
        sum_list_filter_split [of chunk_len "\<lambda>c. Start c \<in> set (completed_abs tr)" "task_spans t1"] in \<open>simp add: t3_def\<close>)
qed

lemma resume_roundtrip_witness:
  "\<exists>t1 tr cf t2. build_layout (sample_task ''odm'' (sample_probe 10485760)) (sample_probe 10485760) 4 = Some (t1, 4194304)
     \<and> completed_abs tr = [4194304] \<and> resume_step cf (sample_probe 10485760) 4194304 t1 = (4194304, t2)"
proof -
  let ?pr = "sample_probe 10485760" let ?t = "sample_task ''odm'' ?pr"
  let ?c = "\<lambda>i s e. \<lparr>Index = i, Start = s, End = e\<rparr> :: chunk"
  have l: "layout 4194304 10485760 0 0 = [?c 0 0 4194303, ?c 1 4194304 8388607, ?c 2 8388608 10485759]"
    by (simp add: layout.simps)
  have sp: "layout_in_range (tk_opts ?t) (TotalSize ?pr)" "\<not> SingleStream ?pr" "tk_probe ?t = Some ?pr"
    "op_ChunkSize (tk_opts ?t) = 4194304" "TotalSize ?pr = 10485760" "tk_conns ?t = 0"
    by (simp_all add: sample_task_def sample_probe_def sample_opts_def layout_in_range_def)
  define t1 where "t1 = ?t\<lparr>tk_engines := None, tk_single := NotBuilt, tk_splitAt := 0, tk_queue := Some (CQ \<lparr>chunks = layout 4194304 10485760 0 0, completed = {}, failed = (\<lambda>_. 0)\<rparr>)\<rparr>"
  define tr where "tr = t1\<lparr>tk_queue := Some (CQ \<lparr>chunks = [], completed = {4194304}, failed = (\<lambda>_. 0)\<rparr>)\<rparr>"
  have b: "build_layout ?t ?pr 4 = Some (t1, 4194304)"
    using build_single(1) [OF sp(1,2), of 4] sp(4,5) by (simp add: t1_def uses_both_def sample_task_def sample_opts_def)
  have ran: "ran_from t1 tr" by (simp add: ran_from_def tr_def t1_def l)
  have e: "task_spans t1 = layout 4194304 10485760 0 0" "completed_abs tr = [4194304]" "tk_conns tr = 0"
    by (simp_all add: t1_def tr_def task_spans_def completed_abs_def CompletedOffsets_def sp(6))
  have v: "valid_utf8 (ETag ?pr)" "valid_utf8 (op_Profile (tk_opts ?t))" "tk_chunkHashes tr = (\<lambda>_. None)"
    by (simp_all add: valid_ascii octet_def sample_probe_def initial_probe_def sample_task_def sample_opts_def tr_def t1_def)
  obtain tr' fs' where p: "persistControl (\<lambda>_. zero_time) 0 3 (tr, \<lambda>_. None) = (tr', fs')"
    by (cases "persistControl (\<lambda>_. zero_time) 0 3 (tr, \<lambda>_. None)")
  show ?thesis
    using resume_roundtrip [OF sp(1-3) b ran _ _ _ _ _ _ p] b e sp(4) by (auto simp: in_int64_def l chunk_len_def v)
qed

subsection \<open>The integrity check reads the whole span\<close>

lemma those_append: "those (xs @ ys) = (case those xs of None \<Rightarrow> None | Some a \<Rightarrow> map_option (\<lambda>b. a @ b) (those ys))"
proof (induction xs)
  case Nil
  show ?case by (cases "those ys") auto
next
  case (Cons x xs)
  then show ?case by (cases x; cases "those xs"; cases "those ys") auto
qed

lemma ReadAt_split:
  assumes "0 \<le> m" "0 \<le> n"
  shows "ReadAt d (m + n) pos = (case ReadAt d m pos of None \<Rightarrow> None | Some a \<Rightarrow> map_option (\<lambda>b. a @ b) (ReadAt d n (pos + m)))"
proof -
  have "[0..<nat (m + n)] = [0..<nat m] @ map (\<lambda>i. i + nat m) [0..<nat n]"
    using assms upt_add_eq_append [of 0 "nat m" "nat n"] by (simp add: nat_add_distrib map_add_upt add.commute)
  then have "map (\<lambda>i. d (pos + int i)) [0..<nat (m + n)] =
      map (\<lambda>i. d (pos + int i)) [0..<nat m] @ map (\<lambda>i. d (pos + m + int i)) [0..<nat n]"
    using assms by (simp add: algebra_simps)
  then show ?thesis unfolding ReadAt_def by (simp only: those_append)
qed

lemma ReadAt_zero [simp]: "ReadAt d 0 pos = Some []"
  by (simp add: ReadAt_def)

lemma hash_loop_reads:
  "pos \<le> end0 + 1 \<Longrightarrow> hash_loop d pos end0 acc = map_option (\<lambda>bs. acc @ bs) (ReadAt d (end0 - pos + 1) pos)"
proof (induction d pos end0 acc rule: hash_loop.induct)
  case (1 d pos end0 acc)
  show ?case
  proof (cases "pos \<le> end0")
    case True
    define n where "n = (if pos + 65536 - 1 > end0 then end0 - pos + 1 else 65536)"
    have n: "0 < n" "pos + n \<le> end0 + 1" using True by (auto simp: n_def)
    have s: "ReadAt d (end0 - pos + 1) pos = (case ReadAt d n pos of None \<Rightarrow> None
        | Some a \<Rightarrow> map_option (\<lambda>b. a @ b) (ReadAt d (end0 - (pos + n) + 1) (pos + n)))"
      using ReadAt_split [of n "end0 - (pos + n) + 1" d pos] n by (simp add: algebra_simps)
    have "hash_loop d pos end0 acc = (case ReadAt d n pos of None \<Rightarrow> None | Some bs \<Rightarrow> hash_loop d (pos + n) end0 (acc @ bs))"
      by (subst hash_loop.simps) (simp only: True if_True Let_def n_def [symmetric])
    also have "\<dots> = map_option (\<lambda>bs. acc @ bs) (ReadAt d (end0 - pos + 1) pos)"
      using "1.IH" [OF True n_def] n s by (auto split: option.splits simp: option.map_comp o_def)
    finally show ?thesis .
  next
    case False
    then have "end0 - pos + 1 = 0" using "1.prems" by simp
    then show ?thesis using False by (simp add: hash_loop.simps)
  qed
qed

definition span_hash :: "(byte list \<Rightarrow> string) \<Rightarrow> disk \<Rightarrow> int \<times> int \<Rightarrow> string option" where
  "span_hash sha d s = (if snd s < fst s then None else map_option sha (ReadAt d (snd s - fst s + 1) (fst s)))"

lemma verify_span_None:
  "verify_span sha t pr cf d off = None \<longleftrightarrow> ChunkHash cf off \<noteq> None \<and> span_hash sha d (chunkSpan t pr off) = ChunkHash cf off"
proof -
  obtain s e where "chunkSpan t pr off = (s, e)" by fastforce
  then show ?thesis using hash_loop_reads [of s e d "[]"]
    by (cases "ChunkHash cf off"; cases "ReadAt d (e - s + 1) s") (auto simp: verify_span_def span_hash_def)
qed

lemma first_error_None: "first_error f xs = None \<longleftrightarrow> (\<forall>x \<in> set xs. f x = None)"
  by (induction xs) (auto split: option.splits)

text \<open>what the hash check of a resume decides. It passes exactly when every chunk the control file calls
  completed has a recorded hash that is the hash of the bytes now in that chunk's span of the file; the
  pieces of 64 KiB it reads are together the whole span, and a span that runs past the end of the file
  or that is empty fails.\<close>

lemma verifyResumedHashes_iff:
  "tk_probe t = Some pr \<Longrightarrow> 0 < TotalSize pr \<Longrightarrow>
   verifyResumedHashes sha t cf d = None \<longleftrightarrow>
     (\<forall>off \<in> set (cf_Completed cf). ChunkHash cf off \<noteq> None \<and> span_hash sha d (chunkSpan t pr off) = ChunkHash cf off)"
  by (simp add: verifyResumedHashes_def first_error_None verify_span_None cf_CompletedOffsets_def)

lemma verifyResumedHashes_iff_witness:
  "verifyResumedHashes (\<lambda>bs. replicate (length bs) CHR ''x'') (sample_task ''odm'' (sample_probe 3))
     (zero_control\<lparr>cf_Completed := [0], cf_ChunkHashes := [(0, ''xxx'')]\<rparr>) (\<lambda>i. if i < 3 then Some 7 else None) = None"
proof -
  let ?t = "sample_task ''odm'' (sample_probe 3)"
  have p: "tk_probe ?t = Some (sample_probe 3)" "0 < TotalSize (sample_probe 3)"
    by (simp_all add: sample_task_def sample_probe_def)
  have sp: "chunkSpan ?t (sample_probe 3) 0 = (0, 2)"
    by (simp add: chunkSpan_def layoutChunkSize_def sample_task_def sample_probe_def sample_opts_def)
  show ?thesis using verifyResumedHashes_iff [OF p]
    by (simp add: sp span_hash_def ReadAt_def ChunkHash_def zero_control_def eval_nat_numeral)
qed

end
