(* ===== verification/Rpc.thy ===== *)
theory Rpc imports Daemon Broadcaster Resume begin

section \<open>The JSON-RPC server (internal/rpc/server.go, types.go)\<close>

text \<open>
  The HTTP handler, the authentication, the dispatch table and its methods, over the daemon and the broadcaster.
  A request body is what encoding/json makes of it: nothing, or a document tree. A number in a parameter is the
  float64 of its literal. Go walks a map in an order of its own: \<open>sv_order\<close> stands for it, any rearrangement of
  the members. Error texts are kept, those of the rate parser as its error value.
\<close>

subsection \<open>Requests and responses\<close>

record rpc_request =
  rq_JSONRPC :: string
  rq_Method :: string
  rq_Params :: "json list"
  rq_ID :: json

datatype message = Msg string | RateMsg rate_error

record rpc_response =
  rs_JSONRPC :: string
  rs_Result :: "json option"
  rs_Error :: "(int \<times> message) option"
  rs_ID :: json

definition codeParseError :: int where "codeParseError = - 32700"
definition codeMethodNotFound :: int where "codeMethodNotFound = - 32601"
definition codeInvalidParams :: int where "codeInvalidParams = - 32602"
definition codeInternalError :: int where "codeInternalError = - 32603"
definition codeAuthError :: int where "codeAuthError = 1"

text \<open>Numbers decoded into \<open>any\<close> are float64; one out of range fails the decoding. The conversion to int
  truncates, and gives the least int64 outside its range (amd64).\<close>

fun number :: "json \<Rightarrow> rat option" where
  "number (JNum i) = Some (to_float (of_int i))"
| "number (JFrac q) = Some (to_float q)"
| "number _ = None"

fun any_ok :: "json \<Rightarrow> bool" where
  "any_ok (JNum i) \<longleftrightarrow> \<bar>to_float (of_int i)\<bar> \<le> max_float64"
| "any_ok (JFrac q) \<longleftrightarrow> \<bar>to_float q\<bar> \<le> max_float64"
| "any_ok (JArr js) \<longleftrightarrow> list_all any_ok js"
| "any_ok (JObj ms) \<longleftrightarrow> list_all (\<lambda>(k, j). any_ok j) ms"
| "any_ok _ \<longleftrightarrow> True"

fun set_params :: "json \<Rightarrow> json list option" where
  "set_params JNull = Some []"
| "set_params (JArr js) = (if list_all any_ok js then Some js else None)"
| "set_params _ = None"

definition set_member :: "string \<Rightarrow> json \<Rightarrow> rpc_request \<Rightarrow> rpc_request option" where
  "set_member k j r =
     (let n = to_lower k
      in if n = ''jsonrpc'' then map_option (\<lambda>v. r\<lparr>rq_JSONRPC := v\<rparr>) (set_str j (rq_JSONRPC r))
         else if n = ''method'' then map_option (\<lambda>v. r\<lparr>rq_Method := v\<rparr>) (set_str j (rq_Method r))
         else if n = ''params'' then map_option (\<lambda>v. r\<lparr>rq_Params := v\<rparr>) (set_params j)
         else if n = ''id'' then (if any_ok j then Some (r\<lparr>rq_ID := j\<rparr>) else None)
         else Some r)"

fun set_members :: "(string \<times> json) list \<Rightarrow> rpc_request \<Rightarrow> rpc_request option" where
  "set_members [] r = Some r"
| "set_members ((k, j) # ms) r = (case set_member k j r of None \<Rightarrow> None | Some r' \<Rightarrow> set_members ms r')"

definition zero_request :: rpc_request where
  "zero_request = \<lparr>rq_JSONRPC = [], rq_Method = [], rq_Params = [], rq_ID = JNull\<rparr>"

fun decode_request :: "json \<Rightarrow> rpc_request option" where
  "decode_request JNull = Some zero_request"
| "decode_request (JObj ms) = set_members ms zero_request"
| "decode_request _ = None"

fun decode_batch :: "json \<Rightarrow> rpc_request list option" where
  "decode_batch JNull = Some []"
| "decode_batch (JArr js) = those (map decode_request js)"
| "decode_batch _ = None"

subsection \<open>The server\<close>

record server =
  sv_daemon :: daemon
  sv_subs :: "subscriber list"
  sv_secret :: string
  sv_order :: "(string \<times> json) list \<Rightarrow> (string \<times> json) list"

definition token_prefix :: string where "token_prefix = ''token:''"

definition checkSecret :: "string \<Rightarrow> rpc_request \<Rightarrow> bool" where
  "checkSecret secret q =
     (secret = [] \<or>
      (case rq_Params q of
         JStr s # _ \<Rightarrow> has_prefix s token_prefix \<and> drop 6 s = secret
       | _ \<Rightarrow> False))"

text \<open>The WebSocket upgrade: the secret is a query parameter, the empty string when absent.\<close>

definition checkQuerySecret :: "string \<Rightarrow> string \<Rightarrow> bool" where
  "checkQuerySecret secret given \<longleftrightarrow> secret = [] \<or> given = secret"

definition handleWS :: "string \<Rightarrow> nat option \<Rightarrow> server \<Rightarrow> int option \<times> server" where
  "handleWS given upgraded sv =
     (if \<not> checkQuerySecret (sv_secret sv) given then (Some 401, sv)
      else case upgraded of
        None \<Rightarrow> (Some 500, sv)
      | Some i \<Rightarrow> (None, sv\<lparr>sv_subs := addWS i (sv_subs sv)\<rparr>))"

definition emit :: "string \<Rightarrow> json \<Rightarrow> server \<Rightarrow> server" where
  "emit m p sv = sv\<lparr>sv_subs := Broadcast \<lparr>ev_Method = m, ev_Params = p\<rparr> (sv_subs sv)\<rparr>"

subsection \<open>Snapshots as JSON\<close>

definition dbSnapshot :: "ProgressView \<Rightarrow> json" where
  "dbSnapshot v = JObj
     [(''goid'', JStr (pv_ID v)), (''url'', JStr (pv_URL v)), (''finalUrl'', JStr (pv_FinalURL v)),
      (''filename'', JStr (pv_Filename v)), (''status'', JStr (TaskState_String (pv_State v))),
      (''totalSize'', JNum (pv_TotalSize v)), (''bytesDone'', JNum (pv_BytesDone v)), (''speed'', JNum (pv_Speed v)),
      (''connections'', JNum (pv_Connections v)), (''etaSeconds'', JNum (pv_ETA v sdiv second)),
      (''errors'', JNum (pv_Errors v)), (''retries'', JNum (pv_Retries v)), (''singleStream'', JBool (pv_SingleStream v))]"

definition dbSnapshots :: "ProgressView list \<Rightarrow> json" where
  "dbSnapshots vs = JArr (map dbSnapshot vs)"

definition OnTaskComplete :: "ProgressView \<Rightarrow> server \<Rightarrow> server" where
  "OnTaskComplete v sv =
     (if pv_State v = StateCompleted then emit ''onDownloadComplete'' (dbSnapshot v) sv
      else emit ''onDownloadError'' (dbSnapshot v) sv)"

subsection \<open>Parameters\<close>

definition is_token :: "json \<Rightarrow> bool" where
  "is_token j = (case j of JStr s \<Rightarrow> has_prefix s token_prefix | _ \<Rightarrow> False)"

definition stripToken :: "json list \<Rightarrow> json list" where
  "stripToken p = (case p of [] \<Rightarrow> [] | j # js \<Rightarrow> if is_token j then js else j # js)"

definition strParam :: "json list \<Rightarrow> nat \<Rightarrow> string + string" where
  "strParam p idx =
     (if idx \<ge> length p then Inl (''missing param '' @ itoa (int idx))
      else case p ! idx of JStr s \<Rightarrow> Inr s | _ \<Rightarrow> Inl (''param '' @ itoa (int idx) @ '' not a string''))"

definition intParam :: "json list \<Rightarrow> nat \<Rightarrow> int option" where
  "intParam p idx =
     (if idx \<ge> length p then None
      else case number (p ! idx) of
        Some x \<Rightarrow> Some (int_of_float x)
      | None \<Rightarrow> (case p ! idx of JStr s \<Rightarrow> (case parse_int s of ParsedInt i \<Rightarrow> Some i | _ \<Rightarrow> None) | _ \<Rightarrow> None))"

text \<open>The value of a call whose error is ignored.\<close>

definition int_or_zero :: "int option \<Rightarrow> int" where
  "int_or_zero v = (case v of None \<Rightarrow> 0 | Some i \<Rightarrow> i)"

subsection \<open>The methods\<close>

definition fail :: "int \<Rightarrow> message \<Rightarrow> rpc_response \<Rightarrow> rpc_response" where
  "fail code msg resp = resp\<lparr>rs_Error := Some (code, msg)\<rparr>"

definition answer :: "json \<Rightarrow> rpc_response \<Rightarrow> rpc_response" where
  "answer j resp = resp\<lparr>rs_Result := Some j\<rparr>"

definition not_found :: message where "not_found = Msg ''task not found''"

fun enqueue_message :: "enqueue_error \<Rightarrow> string" where
  "enqueue_message ShuttingDown = ''scheduler is shutting down''"
| "enqueue_message TooManyPending = ''too many pending tasks''"

definition goid :: "string \<Rightarrow> json" where "goid i = JObj [(''goid'', JStr i)]"

definition methodAddURI :: "rpc_request \<Rightarrow> rpc_response \<Rightarrow> server \<Rightarrow> rpc_response \<times> server" where
  "methodAddURI q resp sv =
     (let p = stripToken (rq_Params q)
      in case strParam p 0 of
           Inl e \<Rightarrow> (fail codeInvalidParams (Msg e) resp, sv)
         | Inr url \<Rightarrow>
             (case AddURL url (int_or_zero (intParam p 1)) (sv_daemon sv) of
                (Inl e, d) \<Rightarrow> (fail codeInternalError (Msg (enqueue_message e)) resp, sv\<lparr>sv_daemon := d\<rparr>)
              | (Inr i, d) \<Rightarrow> (answer (JStr i) resp, emit ''onDownloadStart'' (goid i) (sv\<lparr>sv_daemon := d\<rparr>))))"

fun add_urls :: "json list \<Rightarrow> int \<Rightarrow> daemon \<Rightarrow> string list \<times> daemon" where
  "add_urls [] n d = ([], d)"
| "add_urls (u # us) n d =
     (case u of
        JStr url \<Rightarrow>
          (case AddURL url n d of
             (Inl _, d1) \<Rightarrow> add_urls us n d1
           | (Inr i, d1) \<Rightarrow> (case add_urls us n d1 of (is, d2) \<Rightarrow> (i # is, d2)))
      | _ \<Rightarrow> add_urls us n d)"

definition methodAddBatch :: "rpc_request \<Rightarrow> rpc_response \<Rightarrow> server \<Rightarrow> rpc_response \<times> server" where
  "methodAddBatch q resp sv =
     (let p = stripToken (rq_Params q)
      in case p of
           [] \<Rightarrow> (fail codeInvalidParams (Msg ''no urls'') resp, sv)
         | JArr us # _ \<Rightarrow>
             (case add_urls us (int_or_zero (intParam p 1)) (sv_daemon sv) of
                (is, d) \<Rightarrow> (answer (JArr (map JStr is)) resp, sv\<lparr>sv_daemon := d\<rparr>))
         | _ \<Rightarrow> (fail codeInvalidParams (Msg ''params[0] must be a url list'') resp, sv))"

definition for_all_active :: "(string \<Rightarrow> daemon \<Rightarrow> bool \<times> daemon) \<Rightarrow> server \<Rightarrow> server" where
  "for_all_active f sv =
     sv\<lparr>sv_daemon := fold (\<lambda>v d. snd (f (pv_ID v) d)) (TellActive (sv_daemon sv)) (sv_daemon sv)\<rparr>"

text \<open>The shared body of the methods on one task: find the id, apply, answer.\<close>

definition on_task ::
  "(string \<Rightarrow> daemon \<Rightarrow> bool \<times> daemon) \<Rightarrow> string option \<Rightarrow> rpc_request \<Rightarrow> rpc_response \<Rightarrow> server \<Rightarrow> rpc_response \<times> server" where
  "on_task f ev q resp sv =
     (case strParam (stripToken (rq_Params q)) 0 of
        Inl e \<Rightarrow> (fail codeInvalidParams (Msg e) resp, sv)
      | Inr i \<Rightarrow>
          (case f i (sv_daemon sv) of
             (True, d) \<Rightarrow>
               (answer (JStr ''OK'') resp,
                (case ev of None \<Rightarrow> sv\<lparr>sv_daemon := d\<rparr> | Some m \<Rightarrow> emit m (goid i) (sv\<lparr>sv_daemon := d\<rparr>)))
           | (False, d) \<Rightarrow> (fail codeInternalError not_found resp, sv\<lparr>sv_daemon := d\<rparr>)))"

definition methodPause :: "rpc_request \<Rightarrow> rpc_response \<Rightarrow> bool \<Rightarrow> server \<Rightarrow> rpc_response \<times> server" where
  "methodPause q resp every sv =
     (if every then (answer (JStr ''OK'') resp, for_all_active Daemon_Pause sv)
      else on_task Daemon_Pause (Some ''onDownloadPause'') q resp sv)"

definition methodUnpause :: "rpc_request \<Rightarrow> rpc_response \<Rightarrow> bool \<Rightarrow> server \<Rightarrow> rpc_response \<times> server" where
  "methodUnpause q resp every sv =
     (if every then (answer (JStr ''OK'') resp, for_all_active Daemon_Unpause sv)
      else on_task Daemon_Unpause None q resp sv)"

definition methodRemove :: "rpc_request \<Rightarrow> rpc_response \<Rightarrow> server \<Rightarrow> rpc_response \<times> server" where
  "methodRemove q resp sv = on_task Remove None q resp sv"

definition methodTellStatus :: "rpc_request \<Rightarrow> rpc_response \<Rightarrow> server \<Rightarrow> rpc_response \<times> server" where
  "methodTellStatus q resp sv =
     (case strParam (stripToken (rq_Params q)) 0 of
        Inl e \<Rightarrow> (fail codeInvalidParams (Msg e) resp, sv)
      | Inr i \<Rightarrow>
          (case TellStatus i (sv_daemon sv) of
             Some v \<Rightarrow> (answer (dbSnapshot v) resp, sv)
           | None \<Rightarrow> (fail codeInternalError not_found resp, sv)))"

text \<open>A Go map from the members of an object: a repeated key takes its last value.\<close>

fun put_member :: "string \<Rightarrow> json \<Rightarrow> (string \<times> json) list \<Rightarrow> (string \<times> json) list" where
  "put_member k v [] = [(k, v)]"
| "put_member k v ((k', v') # m) = (if k = k' then (k, v) # m else (k', v') # put_member k v m)"

definition go_map :: "(string \<times> json) list \<Rightarrow> (string \<times> json) list" where
  "go_map ms = fold (\<lambda>(k, v). put_member k v) ms []"

definition change_option :: "string \<Rightarrow> string \<Rightarrow> json \<Rightarrow> daemon \<Rightarrow> (int \<times> message) option \<times> daemon" where
  "change_option gid k v d =
     (if k = ''max-download-limit'' then
        (case v of
           JStr s \<Rightarrow> (case ChangeGlobalLimit s d of
               (Some e, d1) \<Rightarrow> (Some (codeInternalError, RateMsg e), d1) | (None, d1) \<Rightarrow> (None, d1))
         | _ \<Rightarrow> (Some (codeInvalidParams, Msg ''max-download-limit must be a string''), d))
      else if k = ''max-download-limit-per-task'' then
        (case v of
           JStr s \<Rightarrow> (case ChangeTaskLimit gid s d of
               (True, d1) \<Rightarrow> (None, d1) | (False, d1) \<Rightarrow> (Some (codeInternalError, not_found), d1))
         | _ \<Rightarrow> (Some (codeInvalidParams, Msg ''max-download-limit-per-task must be a string''), d))
      else if k = ''connections'' then
        (case intParam [v] 0 of
           None \<Rightarrow> (Some (codeInvalidParams, Msg ''connections must be an integer''), d)
         | Some nc \<Rightarrow>
             if nc < 1 then (Some (codeInvalidParams, Msg ''connections must be at least 1''), d)
             else (case ChangeConns gid nc d of
                 (True, d1) \<Rightarrow> (None, d1)
               | (False, d1) \<Rightarrow> (Some (codeInternalError, Msg ''task not found (or not started yet)''), d1)))
      else (None, d))"

fun change_options :: "string \<Rightarrow> (string \<times> json) list \<Rightarrow> daemon \<Rightarrow> (int \<times> message) option \<times> daemon" where
  "change_options gid [] d = (None, d)"
| "change_options gid ((k, v) # ms) d =
     (case change_option gid k v d of
        (Some e, d1) \<Rightarrow> (Some e, d1)
      | (None, d1) \<Rightarrow> change_options gid ms d1)"

definition methodChangeOption :: "rpc_request \<Rightarrow> rpc_response \<Rightarrow> server \<Rightarrow> rpc_response \<times> server" where
  "methodChangeOption q resp sv =
     (case stripToken (rq_Params q) of
        JStr gid # JObj ms # _ \<Rightarrow>
          (case change_options gid (sv_order sv (go_map ms)) (sv_daemon sv) of
             (Some (c, m), d) \<Rightarrow> (fail c m resp, sv\<lparr>sv_daemon := d\<rparr>)
           | (None, d) \<Rightarrow> (answer (JStr ''OK'') resp, sv\<lparr>sv_daemon := d\<rparr>))
      | JStr gid # _ # _ \<Rightarrow> (fail codeInvalidParams (Msg ''options must be a dict'') resp, sv)
      | _ # _ # _ \<Rightarrow> (fail codeInvalidParams (Msg ''gid must be a string'') resp, sv)
      | _ \<Rightarrow> (fail codeInvalidParams (Msg ''changeOption needs gid and options dict'') resp, sv))"

definition enabledFeatures :: "string list" where
  "enabledFeatures = [''Multi-Connection'', ''Range-Download'', ''Resume'', ''Batch'', ''Checksum'', ''RateLimit-Agent'', ''TLS'']"

subsection \<open>Dispatch\<close>

definition dispatch :: "rpc_request \<Rightarrow> server \<Rightarrow> rpc_response \<times> server" where
  "dispatch q sv =
     (let resp = \<lparr>rs_JSONRPC = ''2.0'', rs_Result = None, rs_Error = None, rs_ID = rq_ID q\<rparr>;
          m = rq_Method q;
          d = sv_daemon sv
      in if \<not> checkSecret (sv_secret sv) q then (fail codeAuthError (Msg ''bad or missing secret'') resp, sv)
         else if m = ''odm.addUri'' then methodAddURI q resp sv
         else if m = ''odm.addBatch'' then methodAddBatch q resp sv
         else if m = ''odm.pause'' \<or> m = ''odm.pauseAll'' then methodPause q resp (m = ''odm.pauseAll'') sv
         else if m = ''odm.unpause'' \<or> m = ''odm.unpauseAll'' then methodUnpause q resp (m = ''odm.unpauseAll'') sv
         else if m = ''odm.remove'' then methodRemove q resp sv
         else if m = ''odm.tellStatus'' then methodTellStatus q resp sv
         else if m = ''odm.tellActive'' then (answer (dbSnapshots (TellActive d)) resp, sv)
         else if m = ''odm.tellWaiting'' then (answer (dbSnapshots (TellWaiting d)) resp, sv)
         else if m = ''odm.tellStopped'' then (answer (dbSnapshots (TellStopped d)) resp, sv)
         else if m = ''odm.changeOption'' then methodChangeOption q resp sv
         else if m = ''odm.getGlobalStat'' then
           (answer (JObj [(''active'', JNum (int (length (TellActive d)))), (''waiting'', JNum (int (length (TellWaiting d)))),
              (''stopped'', JNum (int (length (TellStopped d))))]) resp, sv)
         else if m = ''odm.getVersion'' then
           (answer (JObj [(''version'', JStr Version), (''enabledFeatures'', JArr (map JStr enabledFeatures))]) resp, sv)
         else if m = ''odm.shutdown'' then (answer (JStr ''OK'') resp, sv)
         else if m = ''odm.noop'' then (answer (JStr ''OK'') resp, sv)
         else (fail codeMethodNotFound (Msg (''method not found: '' @ m)) resp, sv))"

fun dispatch_all :: "rpc_request list \<Rightarrow> server \<Rightarrow> rpc_response list \<times> server" where
  "dispatch_all [] sv = ([], sv)"
| "dispatch_all (q # qs) sv =
     (case dispatch q sv of (r, sv1) \<Rightarrow> case dispatch_all qs sv1 of (rs, sv2) \<Rightarrow> (r # rs, sv2))"

subsection \<open>The HTTP handler\<close>

text \<open>A body that could not be read, or its text: whether it starts with a bracket, and its document if it is one.\<close>

datatype body = Unreadable | Body bool "json option"

datatype http_reply = MethodNotAllowed | Reply rpc_response | BatchReply "rpc_response list"

definition parse_failed :: "string \<Rightarrow> http_reply" where
  "parse_failed txt = Reply \<lparr>rs_JSONRPC = ''2.0'', rs_Result = None, rs_Error = Some (codeParseError, Msg txt), rs_ID = JNull\<rparr>"

definition wants_shutdown :: "string \<Rightarrow> rpc_request \<Rightarrow> bool" where
  "wants_shutdown secret q \<longleftrightarrow> rq_Method q = ''odm.shutdown'' \<and> checkSecret secret q"

definition stopAfterWrite :: "bool \<Rightarrow> server \<Rightarrow> server" where
  "stopAfterWrite shutdown sv = (if shutdown then sv\<lparr>sv_daemon := Stop (sv_daemon sv)\<rparr> else sv)"

definition handleRPC :: "string \<Rightarrow> body \<Rightarrow> server \<Rightarrow> http_reply \<times> server" where
  "handleRPC http_method b sv =
     (if http_method \<noteq> ''POST'' then (MethodNotAllowed, sv)
      else case b of
        Unreadable \<Rightarrow> (parse_failed ''parse'', sv)
      | Body bracket doc \<Rightarrow>
          if bracket then
            (case Option.bind doc decode_batch of
               None \<Rightarrow> (parse_failed ''batch parse'', sv)
             | Some qs \<Rightarrow>
                 (case dispatch_all qs sv of (rs, sv1) \<Rightarrow>
                    (BatchReply rs, stopAfterWrite (list_ex (wants_shutdown (sv_secret sv)) qs) sv1)))
          else
            (case Option.bind doc decode_request of
               None \<Rightarrow> (parse_failed ''parse'', sv)
             | Some q \<Rightarrow>
                 (case dispatch q sv of (r, sv1) \<Rightarrow> (Reply r, stopAfterWrite (wants_shutdown (sv_secret sv) q) sv1))))"

subsection \<open>What a request can do\<close>

text \<open>A request moves the daemon by its steps and the subscribers by theirs, and by itself cancels nothing.\<close>

definition quiet :: "daemon \<Rightarrow> daemon \<Rightarrow> bool" where
  "quiet d d' \<longleftrightarrow> dmn_step\<^sup>*\<^sup>* d d' \<and> sc_ctxDone (dm_sched d') = sc_ctxDone (dm_sched d) \<and> dm_started d' = dm_started d"

definition served :: "server \<Rightarrow> server \<Rightarrow> bool" where
  "served sv sv' \<longleftrightarrow> quiet (sv_daemon sv) (sv_daemon sv') \<and> bc_step\<^sup>*\<^sup>* (sv_subs sv) (sv_subs sv') \<and>
     sv_secret sv' = sv_secret sv \<and> sv_order sv' = sv_order sv"

lemma quiet_refl [simp]: "quiet d d" by (simp add: quiet_def)

lemma quiet_trans: "quiet a b \<Longrightarrow> quiet b c \<Longrightarrow> quiet a c"
  by (auto simp: quiet_def)

lemma served_refl [simp]: "served sv sv" by (simp add: served_def)

lemma served_trans: "served a b \<Longrightarrow> served b c \<Longrightarrow> served a c"
  by (auto simp: served_def intro: quiet_trans)

lemma served_daemon: "quiet (sv_daemon sv) d \<Longrightarrow> served sv (sv\<lparr>sv_daemon := d\<rparr>)"
  by (simp add: served_def)

lemma served_emit: "served sv sv' \<Longrightarrow> served sv (emit m p sv')"
  by (auto simp: served_def emit_def intro: rtranclp.rtrancl_into_rtrancl broadcast)

lemma small_quiet: "small_change d d' \<Longrightarrow> dmn_step d d' \<Longrightarrow> quiet d d'"
  by (auto simp: quiet_def small_change_def put_task_def)

lemma method_quiet:
  "quiet d (snd (Daemon_Pause i d))" "quiet d (snd (Daemon_Unpause i d))" "quiet d (snd (Remove i d))"
  "quiet d (snd (ChangeTaskLimit i spec d))" "quiet d (snd (ChangeConns i n d))" "quiet d (snd (ChangeGlobalLimit spec d))"
  by (rule small_quiet, rule method_small, rule dmn_step.intros)+

lemma admitNext_ctx: "sc_ctxDone (admitNext s) = sc_ctxDone s"
  by (auto simp: admitNext_def launch_def AddCounter_def Let_def split: list.splits)

lemma AddURL_quiet: "quiet d (snd (AddURL url n d))"
proof -
  have "sc_ctxDone (dm_sched (snd (AddURL url n d))) = sc_ctxDone (dm_sched d)"
    by (auto simp: AddURL_def Enqueue_def Let_def admitNext_ctx split: prod.splits option.splits if_splits)
  moreover have "dm_started (snd (AddURL url n d)) = dm_started d" by (rule AddURL_admin)
  ultimately show ?thesis using add [of d url n] by (auto simp: quiet_def)
qed

lemma quiet_snd: "f = (r, d') \<Longrightarrow> quiet d (snd f) \<Longrightarrow> quiet d d'"
  by simp

lemma add_urls_quiet: "quiet d (snd (add_urls us n d))"
proof (induction us arbitrary: d)
  case (Cons u us)
  show ?case
  proof (cases "\<exists>url. u = JStr url")
    case True
    then obtain url where u: "u = JStr url" by blast
    obtain e d1 where a: "AddURL url n d = (e, d1)" by (cases "AddURL url n d")
    then have q: "quiet d d1" using AddURL_quiet [of d url n] by simp
    have "snd (add_urls (u # us) n d) = snd (add_urls us n d1)"
      by (simp add: u a split: sum.split prod.split)
    then show ?thesis using quiet_trans [OF q Cons.IH] by simp
  next
    case False
    then have "add_urls (u # us) n d = add_urls us n d" by (cases u) simp_all
    then show ?thesis using Cons.IH by simp
  qed
qed simp

lemma change_option_quiet: "quiet d (snd (change_option gid k v d))"
proof -
  have g: "quiet d d'" if "ChangeGlobalLimit spec d = (e, d')" for spec e d' using method_quiet(6) [of d spec] that by simp
  have t: "quiet d d'" if "ChangeTaskLimit i spec d = (e, d')" for i spec e d' using method_quiet(4) [of d i spec] that by simp
  have c: "quiet d d'" if "ChangeConns i n d = (e, d')" for i n e d' using method_quiet(5) [of d i n] that by simp
  consider (a) "k = ''max-download-limit''" | (b) "k = ''max-download-limit-per-task''" | (c) "k = ''connections''"
    | (d) "k \<notin> {''max-download-limit'', ''max-download-limit-per-task'', ''connections''}" by blast
  then show ?thesis
  proof cases
    case a
    then show ?thesis using g by (cases v) (simp_all add: change_option_def split: prod.split option.split)
  next
    case b
    then show ?thesis using t by (cases v) (simp_all add: change_option_def split: prod.split bool.split)
  next
    case c
    then show ?thesis using \<open>\<And>i n e d'. ChangeConns i n d = (e, d') \<Longrightarrow> quiet d d'\<close>
      by (simp add: change_option_def split: prod.split option.split bool.split)
  qed (simp add: change_option_def)
qed

lemma change_options_quiet: "quiet d (snd (change_options gid ms d))"
proof (induction gid ms d rule: change_options.induct)
  case (2 gid k v ms d)
  obtain e d1 where c: "change_option gid k v d = (e, d1)" by (cases "change_option gid k v d")
  then have q: "quiet d d1" using change_option_quiet [of d gid k v] by simp
  show ?case
  proof (cases e)
    case None
    then show ?thesis using "2.IH" [OF c [symmetric] None] quiet_trans [OF q] c by simp
  qed (use q c in simp)
qed simp

lemma fold_quiet: "(\<And>i d. quiet d (snd (f i d))) \<Longrightarrow> quiet d (fold (\<lambda>v d. snd (f (pv_ID v) d)) vs d)"
  by (induction vs arbitrary: d) (auto intro: quiet_trans)

lemma on_task_served:
  assumes "\<And>i d. quiet d (snd (f i d))"
  shows "served sv (snd (on_task f ev q resp sv))"
proof (cases "strParam (stripToken (rq_Params q)) 0")
  case (Inr i)
  obtain ok d where f: "f i (sv_daemon sv) = (ok, d)" by (cases "f i (sv_daemon sv)")
  then have "served sv (sv\<lparr>sv_daemon := d\<rparr>)" using assms [of "sv_daemon sv" i] by (intro served_daemon) simp
  then show ?thesis using Inr f by (cases ok) (auto simp: on_task_def intro: served_emit split: option.split)
qed (simp add: on_task_def)

lemma dispatch_served: "served sv (snd (dispatch q sv))"
proof -
  have add: "served sv (snd (methodAddURI q resp sv))" for resp
  proof (cases "strParam (stripToken (rq_Params q)) 0")
    case (Inr url)
    let ?n = "int_or_zero (intParam (stripToken (rq_Params q)) 1)"
    obtain e d where a: "AddURL url ?n (sv_daemon sv) = (e, d)" by (cases "AddURL url ?n (sv_daemon sv)")
    then have "served sv (sv\<lparr>sv_daemon := d\<rparr>)" using AddURL_quiet [of "sv_daemon sv" url ?n] by (intro served_daemon) simp
    then show ?thesis using Inr a by (cases e) (auto simp: methodAddURI_def Let_def intro: served_emit)
  qed (simp add: methodAddURI_def Let_def)
  have batch: "served sv (snd (methodAddBatch q resp sv))" for resp
    using served_daemon [OF add_urls_quiet, of sv]
    by (auto simp: methodAddBatch_def Let_def split: list.split json.split prod.split) (metis snd_conv)+
  have all: "served sv (for_all_active f sv)" if "\<And>i d. quiet d (snd (f i d))" for f
    using fold_quiet [of f, OF that] by (auto simp: for_all_active_def intro: served_daemon)
  have opts: "served sv (snd (methodChangeOption q resp sv))" for resp
    using served_daemon [OF change_options_quiet, of sv]
    by (auto simp: methodChangeOption_def split: list.split json.split prod.split option.split) (metis snd_conv)+
  note m = method_quiet
  show ?thesis
    using add batch opts
    by (auto simp: dispatch_def Let_def methodPause_def methodUnpause_def methodRemove_def methodTellStatus_def
      intro!: all on_task_served m split: sum.split option.split)
qed

lemma dispatch_all_served: "served sv (snd (dispatch_all qs sv))"
proof (induction qs arbitrary: sv)
  case (Cons q qs)
  obtain r sv1 where d: "dispatch q sv = (r, sv1)" by (cases "dispatch q sv")
  then have "served sv sv1" using dispatch_served [of sv q] by simp
  from served_trans [OF this Cons.IH] show ?case by (simp add: d split_beta)
qed simp

definition requests_of :: "body \<Rightarrow> rpc_request list" where
  "requests_of b =
     (case b of Unreadable \<Rightarrow> []
      | Body bracket doc \<Rightarrow>
          if bracket then (case Option.bind doc decode_batch of None \<Rightarrow> [] | Some qs \<Rightarrow> qs)
          else (case Option.bind doc decode_request of None \<Rightarrow> [] | Some q \<Rightarrow> [q]))"

fun responses :: "http_reply \<Rightarrow> rpc_response list" where
  "responses MethodNotAllowed = []"
| "responses (Reply r) = [r]"
| "responses (BatchReply rs) = rs"

text \<open>The handler in one line: dispatch the requests in order, then stop the daemon if one asked for it.\<close>

lemma handleRPC_state:
  "snd (handleRPC m b sv) =
     (if m \<noteq> ''POST'' then sv
      else stopAfterWrite (list_ex (wants_shutdown (sv_secret sv)) (requests_of b)) (snd (dispatch_all (requests_of b) sv)))"
  by (auto simp: handleRPC_def requests_of_def stopAfterWrite_def split: body.split option.split prod.split)

lemma handleRPC_responses:
  "responses (fst (handleRPC ''POST'' b sv)) = fst (dispatch_all (requests_of b) sv) \<or>
   (requests_of b = [] \<and> (\<exists>txt. fst (handleRPC ''POST'' b sv) = parse_failed txt))"
  by (auto simp: handleRPC_def requests_of_def split: body.split option.split prod.split)

lemma Stop_step: "dmn_step\<^sup>*\<^sup>* d d' \<Longrightarrow> dmn_step\<^sup>*\<^sup>* d (Stop d')"
  by (rule rtranclp.rtrancl_into_rtrancl, assumption, rule stop)

lemma dispatch_unauthenticated:
  "\<not> checkSecret (sv_secret sv) q \<Longrightarrow> snd (dispatch q sv) = sv \<and> rs_Result (fst (dispatch q sv)) = None \<and>
     rs_Error (fst (dispatch q sv)) = Some (codeAuthError, Msg ''bad or missing secret'')"
  by (simp add: dispatch_def fail_def)

lemma dispatch_all_unauthenticated:
  "(\<And>q. q \<in> set qs \<Longrightarrow> \<not> checkSecret (sv_secret sv) q) \<Longrightarrow>
   snd (dispatch_all qs sv) = sv \<and>
   (\<forall>r \<in> set (fst (dispatch_all qs sv)). rs_Result r = None \<and> rs_Error r = Some (codeAuthError, Msg ''bad or missing secret''))"
proof (induction qs)
  case (Cons q qs)
  note d = dispatch_unauthenticated [OF Cons.prems [of q]]
  obtain r sv1 where e: "dispatch q sv = (r, sv1)" by (cases "dispatch q sv")
  have "sv1 = sv" using d e by simp
  then show ?case using Cons.IH Cons.prems d e by (auto split: prod.split)
qed simp

text \<open>C15: A request without the secret does nothing. When a secret is configured and no request in the body carries it,
  the HTTP handler leaves the whole server as it is, whatever the methods ask for, shutdown included, and every answer is
  the authentication error, or the parse error when the body holds no request.\<close>

theorem unauthenticated_is_inert:
  assumes "\<And>q. q \<in> set (requests_of b) \<Longrightarrow> \<not> checkSecret (sv_secret sv) q"
  shows "snd (handleRPC m b sv) = sv
    \<and> (\<forall>r. r \<in> set (responses (fst (handleRPC m b sv))) \<longrightarrow>
         rs_Result r = None \<and> map_option fst (rs_Error r) = Some (if requests_of b = [] then codeParseError else codeAuthError))"
proof
  have u: "snd (dispatch_all (requests_of b) sv) = sv" "\<And>r. r \<in> set (fst (dispatch_all (requests_of b) sv)) \<Longrightarrow>
      rs_Result r = None \<and> rs_Error r = Some (codeAuthError, Msg ''bad or missing secret'')"
    using dispatch_all_unauthenticated [OF assms] by auto
  have "\<not> list_ex (wants_shutdown (sv_secret sv)) (requests_of b)" using assms by (auto simp: list_ex_iff wants_shutdown_def)
  then show "snd (handleRPC m b sv) = sv" using u by (simp add: handleRPC_state stopAfterWrite_def)
  show "\<forall>r. r \<in> set (responses (fst (handleRPC m b sv))) \<longrightarrow>
      rs_Result r = None \<and> map_option fst (rs_Error r) = Some (if requests_of b = [] then codeParseError else codeAuthError)"
  proof (cases "m = ''POST''")
    case True
    from handleRPC_responses [of b sv] show ?thesis
    proof
      assume e: "responses (fst (handleRPC ''POST'' b sv)) = fst (dispatch_all (requests_of b) sv)"
      then show ?thesis using u(2) unfolding True e by (cases "requests_of b = []") auto
    qed (auto simp: True parse_failed_def)
  qed (simp add: handleRPC_def)
qed

definition demo_server :: server where
  "demo_server = \<lparr>sv_daemon = Start demo_daemon, sv_subs = [], sv_secret = ''s3cret'', sv_order = id\<rparr>"

definition shutdown_request :: "string \<Rightarrow> json" where
  "shutdown_request token = JObj [(''jsonrpc'', JStr ''2.0''), (''method'', JStr ''odm.shutdown''), (''params'', JArr [JStr token])]"

lemma shutdown_decodes:
  "requests_of (Body False (Some (shutdown_request token))) =
     [\<lparr>rq_JSONRPC = ''2.0'', rq_Method = ''odm.shutdown'', rq_Params = [JStr token], rq_ID = JNull\<rparr>]"
  by (simp add: requests_of_def shutdown_request_def set_member_def zero_request_def to_lower_def to_lower_char_def coerce_ascii octet_def)

theorem unauthenticated_is_inert_witness:
  "snd (handleRPC ''POST'' (Body False (Some (shutdown_request ''token:guess''))) demo_server) = demo_server"
  using unauthenticated_is_inert [of "Body False (Some (shutdown_request ''token:guess''))" demo_server "''POST''"]
  by (simp add: shutdown_decodes checkSecret_def demo_server_def token_prefix_def)

text \<open>C17: The handler cancels the daemon exactly when it should: after a POST the context is done just when it was done
  before, or the daemon had been started and some request of the body asked for \<open>odm.shutdown\<close> with the right secret. No other
  request ends the daemon.\<close>

theorem shutdown_iff:
  "sc_ctxDone (dm_sched (sv_daemon (snd (handleRPC ''POST'' b sv)))) \<longleftrightarrow>
     sc_ctxDone (dm_sched (sv_daemon sv)) \<or>
     (dm_started (sv_daemon sv) \<and>
      (\<exists>q. q \<in> set (requests_of b) \<and> rq_Method q = ''odm.shutdown'' \<and> checkSecret (sv_secret sv) q))"
proof -
  have "quiet (sv_daemon sv) (sv_daemon (snd (dispatch_all (requests_of b) sv)))"
    using dispatch_all_served [of sv "requests_of b"] by (simp add: served_def)
  then show ?thesis
    by (auto simp: handleRPC_state stopAfterWrite_def Stop_def quiet_def list_ex_iff wants_shutdown_def)
qed

subsection \<open>The shape of an answer\<close>

definition answered :: "json \<Rightarrow> rpc_response \<Rightarrow> bool" where
  "answered i r \<longleftrightarrow> rs_JSONRPC r = ''2.0'' \<and> rs_ID r = i \<and> ((rs_Result r = None) \<noteq> (rs_Error r = None))"

definition blank :: "rpc_request \<Rightarrow> rpc_response" where
  "blank q = \<lparr>rs_JSONRPC = ''2.0'', rs_Result = None, rs_Error = None, rs_ID = rq_ID q\<rparr>"

lemma answered_blank: "answered (rq_ID q) (fail c m (blank q))" "answered (rq_ID q) (answer j (blank q))"
  by (simp_all add: answered_def blank_def fail_def answer_def)

lemma method_answered:
  "answered (rq_ID q) (fst (methodAddURI q (blank q) sv))" "answered (rq_ID q) (fst (methodAddBatch q (blank q) sv))"
  "answered (rq_ID q) (fst (methodPause q (blank q) every sv))" "answered (rq_ID q) (fst (methodUnpause q (blank q) every sv))"
  "answered (rq_ID q) (fst (methodRemove q (blank q) sv))" "answered (rq_ID q) (fst (methodTellStatus q (blank q) sv))"
  "answered (rq_ID q) (fst (methodChangeOption q (blank q) sv))"
proof -
  have t: "answered (rq_ID q) (fst (on_task f ev q (blank q) sv))" for f ev
    by (auto simp: on_task_def answered_blank split: sum.split prod.split bool.split)
  show "answered (rq_ID q) (fst (methodPause q (blank q) every sv))" "answered (rq_ID q) (fst (methodUnpause q (blank q) every sv))"
    "answered (rq_ID q) (fst (methodRemove q (blank q) sv))"
    by (simp_all add: methodPause_def methodUnpause_def methodRemove_def t answered_blank)
  show "answered (rq_ID q) (fst (methodAddURI q (blank q) sv))" "answered (rq_ID q) (fst (methodAddBatch q (blank q) sv))"
    "answered (rq_ID q) (fst (methodTellStatus q (blank q) sv))" "answered (rq_ID q) (fst (methodChangeOption q (blank q) sv))"
    by (auto simp: methodAddURI_def methodAddBatch_def methodTellStatus_def methodChangeOption_def Let_def answered_blank
      split: sum.split prod.split list.split json.split option.split)
qed

lemma dispatch_answered: "answered (rq_ID q) (fst (dispatch q sv))"
  using method_answered answered_blank
  by (auto simp: dispatch_def Let_def blank_def [symmetric])



subsection \<open>Refused requests\<close>

lemma on_task_error:
  assumes "on_task f ev q (blank q) sv = (r, sv')" and "rs_Error r \<noteq> None"
    and "\<And>i d d'. f i d = (False, d') \<Longrightarrow> d' = d \<and> lookup i d = None"
  shows "sv' = sv \<and> (\<exists>m. rs_Error r = Some (codeInvalidParams, m) \<or>
     (rs_Error r = Some (codeInternalError, m) \<and>
      (\<exists>i. strParam (stripToken (rq_Params q)) 0 = Inr i \<and> TellStatus i (sv_daemon sv) = None)))"
proof (cases "strParam (stripToken (rq_Params q)) 0")
  case (Inl e)
  then show ?thesis using assms(1) by (auto simp: on_task_def fail_def)
next
  case (Inr i)
  obtain ok d where fd: "f i (sv_daemon sv) = (ok, d)" by (cases "f i (sv_daemon sv)")
  show ?thesis
  proof (cases ok)
    case True
    then show ?thesis using assms(1,2) Inr fd by (auto simp: on_task_def answer_def blank_def)
  next
    case False
    then show ?thesis using assms(1) assms(3) [of i "sv_daemon sv" d] Inr fd by (auto simp: on_task_def fail_def TellStatus_def)
  qed
qed

lemma task_method_false:
  "Daemon_Pause i d = (False, d') \<Longrightarrow> d' = d \<and> lookup i d = None"
  "Daemon_Unpause i d = (False, d') \<Longrightarrow> d' = d \<and> lookup i d = None"
  "Remove i d = (False, d') \<Longrightarrow> d' = d \<and> lookup i d = None"
  by (auto simp: Daemon_Pause_def Daemon_Unpause_def Remove_def split: option.splits)

text \<open>C27: A refused request leaves no trace. Apart from \<open>odm.addUri\<close> and \<open>odm.changeOption\<close>, a request that is answered with an
  error has changed nothing, neither the daemon nor the subscribers; and the error says why: the authentication code just
  when the secret is missing, and an internal error only for an id that names no task.\<close>

theorem errors_change_nothing:
  assumes "dispatch q sv = (r, sv')" and "rs_Error r = Some (c, msg)"
    and "rq_Method q \<notin> {''odm.addUri'', ''odm.changeOption''}"
  shows "sv' = sv \<and> (c = codeAuthError \<longleftrightarrow> \<not> checkSecret (sv_secret sv) q)
    \<and> (c = codeInternalError \<longrightarrow>
        (\<exists>i. strParam (stripToken (rq_Params q)) 0 = Inr i \<and> TellStatus i (sv_daemon sv) = None))"
proof (cases "checkSecret (sv_secret sv) q")
  case False
  then show ?thesis using assms(1,2) by (auto simp: dispatch_def Let_def fail_def codeAuthError_def codeInternalError_def)
next
  case True
  note codes = codeAuthError_def codeInternalError_def codeInvalidParams_def codeMethodNotFound_def
  note d = assms(1) [unfolded dispatch_def Let_def blank_def [symmetric]]
  have task: "sv' = sv \<and> (c = codeInvalidParams \<or> c = codeInternalError \<and>
      (\<exists>i. strParam (stripToken (rq_Params q)) 0 = Inr i \<and> TellStatus i (sv_daemon sv) = None))"
    if "on_task f ev q (blank q) sv = (r, sv')" "\<And>i d d'. f i d = (False, d') \<Longrightarrow> d' = d \<and> lookup i d = None" for f ev
    using on_task_error [OF that(1) _ that(2)] assms(2) by auto
  have "sv' = sv \<and> (c = codeInvalidParams \<or> c = codeMethodNotFound \<or> c = codeInternalError \<and>
      (\<exists>i. strParam (stripToken (rq_Params q)) 0 = Inr i \<and> TellStatus i (sv_daemon sv) = None))"
  proof -
    have "rs_Error (answer j (blank q)) = None" for j by (simp add: answer_def blank_def)
    then show ?thesis
      using d True assms(2,3) task [OF _ task_method_false(1)] task [OF _ task_method_false(2)] task [OF _ task_method_false(3)]
      by (auto simp: methodAddBatch_def methodPause_def methodUnpause_def methodRemove_def methodTellStatus_def fail_def Let_def
        split: if_splits list.splits json.splits prod.splits sum.splits option.splits)
  qed
  then show ?thesis using True by (auto simp: codes)
qed

theorem errors_change_nothing_witness:
  "\<exists>r sv'. dispatch (zero_request\<lparr>rq_Method := ''odm.pause'', rq_Params := [JStr ''token:s3cret'', JNum 7]\<rparr>) demo_server = (r, sv')
     \<and> rs_Error r = Some (codeInvalidParams, Msg ''param 0 not a string'') \<and> sv' = demo_server"
proof -
  let ?q = "zero_request\<lparr>rq_Method := ''odm.pause'', rq_Params := [JStr ''token:s3cret'', JNum 7]\<rparr>"
  obtain r sv' where d: "dispatch ?q demo_server = (r, sv')" by (cases "dispatch ?q demo_server")
  have "rs_Error r = Some (codeInvalidParams, Msg ''param 0 not a string'')"
    using d by (auto simp: dispatch_def checkSecret_def demo_server_def zero_request_def token_prefix_def methodPause_def on_task_def
      stripToken_def is_token_def strParam_def fail_def Let_def itoa_def nat_digits.simps [of 0])
  with errors_change_nothing [OF d this] show ?thesis using d by (auto simp: zero_request_def)
qed

subsection \<open>The server at work\<close>

text \<open>Requests over HTTP and WebSocket upgrades, the daemon's own steps, and the fan-out.\<close>

inductive server_step :: "server \<Rightarrow> server \<Rightarrow> bool" where
  http: "server_step sv (snd (handleRPC m b sv))"
| websocket: "(\<And>i. upgraded = Some i \<Longrightarrow> i \<notin> sb_id ` set (sv_subs sv)) \<Longrightarrow> server_step sv (snd (handleWS given upgraded sv))"
| completed: "server_step sv (OnTaskComplete v sv)"
| daemon: "dmn_step (sv_daemon sv) d \<Longrightarrow> server_step sv (sv\<lparr>sv_daemon := d\<rparr>)"
| fan_out: "bc_step (sv_subs sv) subs \<Longrightarrow> server_step sv (sv\<lparr>sv_subs := subs\<rparr>)"

definition NewServer :: "daemon \<Rightarrow> string \<Rightarrow> ((string \<times> json) list \<Rightarrow> (string \<times> json) list) \<Rightarrow> server" where
  "NewServer d secret ord = \<lparr>sv_daemon = d, sv_subs = NewBroadcaster, sv_secret = secret, sv_order = ord\<rparr>"

definition server_moves :: "server \<Rightarrow> server \<Rightarrow> bool" where
  "server_moves sv sv' \<longleftrightarrow> dmn_step\<^sup>*\<^sup>* (sv_daemon sv) (sv_daemon sv') \<and> bc_step\<^sup>*\<^sup>* (sv_subs sv) (sv_subs sv') \<and> sv_secret sv' = sv_secret sv"

lemma server_step_moves: "server_step sv sv' \<Longrightarrow> server_moves sv sv'"
proof (induction rule: server_step.induct)
  case (http sv m b)
  have "served sv (snd (dispatch_all (requests_of b) sv))" by (rule dispatch_all_served)
  then show ?case
    by (auto simp: handleRPC_state server_moves_def served_def quiet_def stopAfterWrite_def intro: Stop_step)
next
  case (websocket upgraded sv given)
  then show ?case
    by (auto simp: handleWS_def server_moves_def intro!: subscribe split: option.split)
next
  case (completed sv v)
  then show ?case by (auto simp: OnTaskComplete_def emit_def server_moves_def intro: broadcast)
qed (auto simp: server_moves_def)

lemma server_reach:
  assumes "NewManager new_client opts = Inr m"
    and "server_step\<^sup>*\<^sup>* (NewServer (NewDaemon (NewEmptyScheduler n) m) secret ord) sv"
  shows "daemon_ok n (sv_daemon sv)" "bc_step\<^sup>*\<^sup>* NewBroadcaster (sv_subs sv)" "sv_secret sv = secret"
proof -
  have "server_moves (NewServer (NewDaemon (NewEmptyScheduler n) m) secret ord) sv" using assms(2)
  proof (induction rule: rtranclp_induct)
    case (step y z)
    then show ?case using server_step_moves [OF step(2)] by (auto simp: server_moves_def)
  qed (simp add: server_moves_def)
  then have d: "dmn_step\<^sup>*\<^sup>* (NewDaemon (NewEmptyScheduler n) m) (sv_daemon sv)"
    and "bc_step\<^sup>*\<^sup>* NewBroadcaster (sv_subs sv)" "sv_secret sv = secret"
    by (simp_all add: server_moves_def NewServer_def)
  then show "bc_step\<^sup>*\<^sup>* NewBroadcaster (sv_subs sv)" "sv_secret sv = secret" by simp_all
  show "daemon_ok n (sv_daemon sv)" by (rule dmn_reach_ok [OF d NewManager_ok [OF assms(1)]])
qed



subsection \<open>Adding and changing\<close>

lemma admitNext_known:
  assumes "sc_queued s = qs" "q \<in> set qs" "\<not> sc_windingDown s \<or> st_counted (hd qs)"
  shows "st_id q \<in> set (ids (sc_live (admitNext s)) @ ids (sc_queued (admitNext s)))"
  using assms
  by (cases qs) (auto simp: admitNext_def launch_def AddCounter_def live_put_def Let_def)

lemma AddURL_listed:
  assumes ok: "daemon_ok n d" and a: "AddURL url k d = (Inr i, d')"
  shows "lookup i d = None" "\<exists>v. TellStatus i d' = Some v \<and> pv_ID v = i \<and> pv_URL v = url \<and> pv_State v = StateQueued"
    "i \<in> set (map pv_ID (TellActive d') @ map pv_ID (TellWaiting d'))"
proof -
  obtain j c m1 where nt: "NewTask url (dm_mgr d) = (j, c, m1)" by (metis prod_cases3)
  have mo: "manager_ok (dm_mgr d)" using ok by (simp add: daemon_ok_def)
  note t = NewTask_ok [OF mo nt]
  define st where "st = \<lparr>st_id = j, st_conns = (if k \<le> 0 then c else k), st_counted = False\<rparr>"
  obtain e s1 where en: "Enqueue st (dm_sched d) = (e, s1)" by (cases "Enqueue st (dm_sched d)")
  have e: "e = None" and i: "i = j" and d': "d' = d\<lparr>dm_mgr := admit_conns s1 m1, dm_sched := admitNext (s1\<lparr>sc_pendingAdmits := sc_pendingAdmits s1 - 1\<rparr>)\<rparr>"
    using a nt en by (auto simp: AddURL_def Let_def st_def split: option.splits)
  show "lookup i d = None" using t(3) mo by (auto simp: lookup_def Task_def manager_ok_def i)
  have reg: "mg_registry (admit_conns s1 m1) = mg_registry m1" by (auto simp: admit_conns_def split: list.split option.split)
  have "\<exists>t'. mg_heap (admit_conns s1 m1) j = Some t' \<and> tk_id t' = j \<and> tk_url t' = url \<and> tk_state t' = StateQueued"
    using t(2,4) by (auto simp: admit_conns_def added_sel SetConns_def split: list.split option.split)
  then show "\<exists>v. TellStatus i d' = Some v \<and> pv_ID v = i \<and> pv_URL v = url \<and> pv_State v = StateQueued"
    using t(7) reg by (auto simp: TellStatus_def lookup_def Task_def d' i Snapshot_def)
  have "sc_queued s1 = sc_queued (dm_sched d) @ [st\<lparr>st_counted := True\<rparr>]" "\<not> sc_windingDown s1"
    using en e by (auto simp: Enqueue_def split: if_splits)
  then have m: "st_id (st\<lparr>st_counted := True\<rparr>) \<in> set (ids (sc_live (dm_sched d')) @ ids (sc_queued (dm_sched d')))"
    using admitNext_known [of "s1\<lparr>sc_pendingAdmits := sc_pendingAdmits s1 - 1\<rparr>" _ "st\<lparr>st_counted := True\<rparr>"] by (simp add: d')
  have "daemon_ok n d'" using AddURL_ok [OF ok, of url k] a by simp
  from dmn_reach_views(7,8) [OF this] m show "i \<in> set (map pv_ID (TellActive d') @ map pv_ID (TellWaiting d'))"
    by (simp add: st_def i)
qed


definition add_request :: rpc_request where
  "add_request = \<lparr>rq_JSONRPC = ''2.0'', rq_Method = ''odm.addUri'', rq_Params = [JStr ''http://h/f''], rq_ID = JNum 1\<rparr>"


definition limit_request :: rpc_request where
  "limit_request = \<lparr>rq_JSONRPC = ''2.0'', rq_Method = ''odm.changeOption'',
     rq_Params = [JStr ''odm-001'', JObj [(''max-download-limit'', JStr ''0''), (''connections'', JNum 0)]], rq_ID = JNum 1\<rparr>"

definition limited_server :: "((string \<times> json) list \<Rightarrow> (string \<times> json) list) \<Rightarrow> server" where
  "limited_server ord = NewServer (NewDaemon (NewEmptyScheduler 1)
     (demo_manager\<lparr>mg_lim := \<lparr>lr = Some (1024, 1024), bytes = 1024, configured = 1024, cooldownUntil = 0\<rparr>\<rparr>)) [] ord"

text \<open>\<open>odm.changeOption\<close> is not all or nothing, and what an error leaves behind depends on Go's map order. The same
  request, lifting the global limit and asking for no connections, is refused with the same answer in either order; but in
  one the limit is gone, and in the other nothing has changed.\<close>

theorem changeOption_partial:
  "(\<exists>sv. dispatch limit_request (limited_server id) =
      (fail codeInvalidParams (Msg ''connections must be at least 1'') (blank limit_request), sv)
      \<and> lr (mg_lim (dm_mgr (sv_daemon sv))) = None)
   \<and> dispatch limit_request (limited_server rev) =
      (fail codeInvalidParams (Msg ''connections must be at least 1'') (blank limit_request), limited_server rev)"
proof -
  have z: "to_float 0 = 0" "int_of_float 0 = 0"
    by (simp_all add: to_float_def f64_def int_of_float_def in_int64_def Let_def)
  note s = dispatch_def limit_request_def limited_server_def NewServer_def NewDaemon_def checkSecret_def methodChangeOption_def
    stripToken_def is_token_def token_prefix_def go_map_def change_option_def ChangeGlobalLimit_def SetRate_def off_spec_def
    intParam_def blank_def fail_def go_eval z
  show ?thesis by (simp add: s)
qed

end
