(* ===== verification/Smart_Profile.thy ===== *)
theory Smart_Profile imports Go_Prelude begin

section \<open>The smart profile (internal/download/smart.go)\<close>

text \<open>The decision matrix that picks an engine per file from what the probe and the HTTP/2 check found.\<close>

record ServerCapabilities =
  cap_TotalSize :: int
  cap_SupportsRange :: bool
  cap_SingleStream :: bool
  cap_HTTP2Ready :: bool
  cap_Conns :: int

definition ChooseProfile :: "ServerCapabilities \<Rightarrow> string \<times> string" where
  "ChooseProfile c =
     (if cap_SingleStream c \<or> \<not> cap_SupportsRange c \<or> cap_TotalSize c \<le> 0 then (''odm'', ''no range support'')
      else if cap_TotalSize c < 8 * 2 ^ 20 then (''odm'', ''small file'')
      else if \<not> cap_HTTP2Ready c then (''odm'', ''no h2'')
      else if cap_Conns c \<le> 2 then (''odm'', ''low conns'')
      else if cap_TotalSize c \<ge> 256 * 2 ^ 20 \<and> cap_Conns c \<ge> 6 then (''both'', ''large+wide'')
      else (''aria2c'', ''default h2''))"

text \<open>Whatever it decides is one of the three engines; the engines that split by range are chosen only
  when ranges and HTTP/2 are there, and both only with connections for two regions.\<close>

lemma ChooseProfile_cases:
  "fst (ChooseProfile c) \<in> {''odm'', ''aria2c'', ''both''}"
  "fst (ChooseProfile c) \<noteq> ''odm'' \<Longrightarrow>
     cap_SupportsRange c \<and> \<not> cap_SingleStream c \<and> 8 * 2 ^ 20 \<le> cap_TotalSize c \<and> cap_HTTP2Ready c \<and> 2 < cap_Conns c"
  "fst (ChooseProfile c) = ''both'' \<Longrightarrow> 256 * 2 ^ 20 \<le> cap_TotalSize c \<and> 6 \<le> cap_Conns c"
  by (auto simp: ChooseProfile_def split: if_splits)

end
