(* ===== verification/Ui_Text.thy ===== *)
theory Ui_Text imports Manager Utf8 "HOL-Library.Monad_Syntax" begin

section \<open>Text on a terminal (internal/ui/ansi.go, bar.go, clock.go, color.go, summary.go)\<close>

text \<open>
  The pure part of the progress display: the scanner of escape sequences and the width and cutting
  functions over it, the pacman bar, the humanised numbers. A string is its bytes; a rune is its code point. A result
  of option type is None where Go panics (strings.Repeat with a negative count).
\<close>

subsection \<open>Runes\<close>

definition runeWidth :: "nat \<Rightarrow> nat" where
  "runeWidth r =
     (if r \<ge> 0x1100 \<and>
         (r \<le> 0x115f \<or> r = 0x2329 \<or> r = 0x232a \<or> (r \<ge> 0x2e80 \<and> r \<le> 0xa4cf \<and> r \<noteq> 0x303f) \<or>
          (r \<ge> 0xac00 \<and> r \<le> 0xd7a3) \<or> (r \<ge> 0xf900 \<and> r \<le> 0xfaff) \<or> (r \<ge> 0xfe10 \<and> r \<le> 0xfe19) \<or>
          (r \<ge> 0xfe30 \<and> r \<le> 0xfe6f) \<or> (r \<ge> 0xff00 \<and> r \<le> 0xff60) \<or> (r \<ge> 0xffe0 \<and> r \<le> 0xffe6) \<or>
          (r \<ge> 0x1f300 \<and> r \<le> 0x1faff) \<or> (r \<ge> 0x1f900 \<and> r \<le> 0x1f9ff) \<or> (r \<ge> 0x20000 \<and> r \<le> 0x2fffd) \<or>
          (r \<ge> 0x30000 \<and> r \<le> 0x3fffd))
      then 2 else 1)"

subsection \<open>Escape sequences\<close>

definition esc :: char where "esc = CHR 0x1B"

definition colorReset :: string where "colorReset = esc # ''[0m''"
definition colorGreen :: string where "colorGreen = esc # ''[32m''"
definition colorYellow :: string where "colorYellow = esc # ''[33m''"
definition colorRed :: string where "colorRed = esc # ''[31m''"
definition colorGrey :: string where "colorGrey = esc # ''[90m''"
definition colorCyan :: string where "colorCyan = esc # ''[36m''"
definition colorMagenta :: string where "colorMagenta = esc # ''[35m''"

record ansiSeg =
  sg_text :: string
  sg_visible :: bool
  sg_width :: nat

definition csi_param :: "char \<Rightarrow> bool" where "csi_param c \<longleftrightarrow> 0x20 \<le> octet c \<and> octet c \<le> 0x3f"
definition csi_final :: "char \<Rightarrow> bool" where "csi_final c \<longleftrightarrow> 0x40 \<le> octet c \<and> octet c \<le> 0x7e"

text \<open>The escape sequence a string starts with, if it is complete.\<close>

definition escape_at :: "string \<Rightarrow> string option" where
  "escape_at s =
     (case s of
        c1 # c2 # r \<Rightarrow>
          if c1 = esc \<and> c2 = CHR ''['' then
            (case dropWhile csi_param r of
               [] \<Rightarrow> None
             | f # _ \<Rightarrow> if csi_final f then Some (c1 # c2 # takeWhile csi_param r @ [f]) else None)
          else None
      | _ \<Rightarrow> None)"

definition next_seg :: "string \<Rightarrow> ansiSeg" where
  "next_seg s =
     (case escape_at s of
        Some e \<Rightarrow> \<lparr>sg_text = e, sg_visible = False, sg_width = 0\<rparr>
      | None \<Rightarrow>
          (case decode_rune s of (r, n) \<Rightarrow>
             if r = RuneError \<and> n = 1 then \<lparr>sg_text = take 1 s, sg_visible = True, sg_width = 1\<rparr>
             else \<lparr>sg_text = take n s, sg_visible = True, sg_width = runeWidth r\<rparr>))"

lemma escape_at_prefix: "escape_at s = Some e \<Longrightarrow> \<exists>r. s = e @ r \<and> e \<noteq> []"
proof -
  assume a: "escape_at s = Some e"
  then obtain c1 c2 r f q where s: "s = c1 # c2 # r" "dropWhile csi_param r = f # q" "e = c1 # c2 # takeWhile csi_param r @ [f]"
    by (auto simp: escape_at_def split: list.splits if_splits)
  then have "r = takeWhile csi_param r @ f # q" by (metis takeWhile_dropWhile_id)
  then show ?thesis using s by (intro exI [of _ q]) auto
qed

lemma next_seg_text:
  assumes "s \<noteq> []"
  shows "sg_text (next_seg s) \<noteq> [] \<and> s = sg_text (next_seg s) @ drop (length (sg_text (next_seg s))) s"
proof (cases "escape_at s")
  case (Some e)
  then show ?thesis using escape_at_prefix [OF Some] by (auto simp: next_seg_def)
next
  case None
  obtain r n where d: "decode_rune s = (r, n)" by (cases "decode_rune s")
  then have "1 \<le> n" "n \<le> length s" using decode_rune_size [OF assms] by simp_all
  then show ?thesis using None d assms by (auto simp: next_seg_def min_def)
qed

function scanAnsi :: "string \<Rightarrow> ansiSeg list" where
  "scanAnsi s = (if s = [] then [] else next_seg s # scanAnsi (drop (length (sg_text (next_seg s))) s))"
  by pat_completeness auto
termination
  by (relation "measure length") (auto simp: next_seg_text)

declare scanAnsi.simps [simp del]

lemma scanAnsi_Nil [simp]: "scanAnsi [] = []"
  by (simp add: scanAnsi.simps)

definition seg_cells :: "ansiSeg list \<Rightarrow> nat" where
  "seg_cells gs = sum_list (map sg_width (filter sg_visible gs))"

definition displayWidth :: "string \<Rightarrow> int" where
  "displayWidth s = int (seg_cells (scanAnsi s))"

definition contains :: "string \<Rightarrow> string \<Rightarrow> bool" where
  "contains s p \<longleftrightarrow> str_cut s p \<noteq> None"

text \<open>The loop of \<open>truncateVisibleWidth\<close>: what was written, the cells left, whether a colour is active.\<close>

fun cut_loop :: "ansiSeg list \<Rightarrow> string \<Rightarrow> int \<Rightarrow> bool \<Rightarrow> string \<times> int \<times> bool" where
  "cut_loop [] b remaining coloured = (b, remaining, coloured)"
| "cut_loop (g # gs) b remaining coloured =
     (if \<not> sg_visible g then cut_loop gs (b @ sg_text g) remaining (\<not> contains (sg_text g) colorReset)
      else if remaining \<le> 0 then (b, remaining, coloured)
      else cut_loop gs (b @ sg_text g) (remaining - int (sg_width g)) False)"

definition truncateVisibleWidth :: "string \<Rightarrow> int \<Rightarrow> string" where
  "truncateVisibleWidth s width =
     (if width \<le> 0 then s
      else case cut_loop (scanAnsi s) [] width False of (b, remaining, coloured) \<Rightarrow>
        if remaining \<le> 0 \<and> coloured then b @ colorReset else b)"

definition truncateToWidth :: "string \<Rightarrow> int \<Rightarrow> string" where
  "truncateToWidth s width =
     (if width \<le> 0 then s else if displayWidth s \<le> width then s else truncateVisibleWidth s width)"

definition spaces :: "int \<Rightarrow> string" where
  "spaces n = replicate (nat n) CHR '' ''"

definition fitWidth :: "string \<Rightarrow> int \<Rightarrow> string" where
  "fitWidth s w =
     (if w \<le> 0 then []
      else let d = displayWidth s
           in if d = w then s else if d > w then truncateVisibleWidth s w else spaces (w - d) @ s)"

fun take_cells :: "nat list \<Rightarrow> int \<Rightarrow> string" where
  "take_cells [] budget = []"
| "take_cells (r # rs) budget =
     (let w = int (runeWidth r) in if budget - w < 0 then [] else encode_rune r @ take_cells rs (budget - w))"

definition truncateNameTo :: "string \<Rightarrow> int \<Rightarrow> string" where
  "truncateNameTo name mx =
     (if mx \<le> 0 \<or> displayWidth name \<le> mx then name
      else take_cells (runes name) (if mx - 3 < 0 then 0 else mx - 3) @ ''...'')"

definition padToCells :: "string \<Rightarrow> int \<Rightarrow> string" where
  "padToCells s w = (let d = displayWidth s in if d < w then s @ spaces (w - d) else s)"

subsection \<open>The bar\<close>

definition BarWidth :: int where "BarWidth = 30"
definition minBarWidth :: int where "minBarWidth = 10"

text \<open>strings.Repeat.\<close>

definition Repeat :: "string \<Rightarrow> int \<Rightarrow> string option" where
  "Repeat s n = (if n < 0 then None else Some (concat (replicate (nat n) s)))"

definition pac_face :: "int \<Rightarrow> char" where
  "pac_face eaten = (if eaten smod 2 = 0 then CHR ''C'' else CHR ''c'')"

definition dot :: "int \<Rightarrow> char" where
  "dot pos = (if pos smod 2 = 0 then CHR ''o'' else CHR '' '')"

definition barLine :: "int \<Rightarrow> int \<Rightarrow> string \<Rightarrow> string option" where
  "barLine eaten width prefix =
     (let avail = width - int (length (runes prefix))
      in if avail < 1 then map_option (\<lambda>d. prefix @ d @ [pac_face eaten]) (Repeat ''-'' eaten)
         else if eaten \<ge> avail then map_option (\<lambda>d. prefix @ d) (Repeat ''-'' avail)
         else let s = prefix @ replicate (nat eaten) CHR ''-'' @ [pac_face eaten] @ map dot [eaten + 1..avail - 1]
              in Some (s @ spaces (width - int (length (runes s)))))"

definition BarIndeterminate :: "int \<Rightarrow> int \<Rightarrow> int \<Rightarrow> int \<Rightarrow> string \<Rightarrow> string option" where
  "BarIndeterminate done_bytes size0 width0 pos prefix =
     (let width = (if width0 < 2 then 2 else width0)
      in if size0 \<le> 0 then
           (if pos < 0 then barLine (width sdiv 2) width prefix
            else barLine (if pos \<ge> width - 1 then width - 1 else pos) width prefix)
         else if done_bytes \<ge> size0 then Repeat ''-'' width
         else
           let frac = to_float (to_float (of_int done_bytes) / to_float (of_int size0));
               eaten = int_of_float (to_float (frac * to_float (of_int width)))
           in barLine (if eaten \<ge> width then width - 1 else eaten) width prefix)"

definition Bar :: "int \<Rightarrow> int \<Rightarrow> int \<Rightarrow> string option" where
  "Bar done_bytes size0 width = BarIndeterminate done_bytes size0 width (- 1) []"

definition paint :: "string \<Rightarrow> string \<Rightarrow> string" where
  "paint colour s = colour @ s @ colorReset"

definition colorizeBar :: "string \<Rightarrow> bool \<Rightarrow> string" where
  "colorizeBar bar useColor =
     (if \<not> useColor then bar
      else concat (map (\<lambda>r.
        if r = octet CHR ''c'' \<or> r = octet CHR ''C'' then paint colorYellow (encode_rune r)
        else if r = octet CHR ''-'' then paint colorGreen (encode_rune r)
        else if r = octet CHR ''o'' then paint colorCyan (encode_rune r)
        else encode_rune r) (runes bar)))"

definition bouncePosition :: "int \<Rightarrow> int \<Rightarrow> int" where
  "bouncePosition frame width =
     (if width \<le> 1 then 0
      else let period = 2 * (width - 1);
               stp0 = frame smod period;
               stp1 = (if stp0 < 0 then stp0 + period else stp0);
               stp2 = (if stp1 \<ge> width then period - stp1 else stp1);
               stp3 = (if stp2 < 0 then 0 else stp2)
           in if stp3 \<ge> width then width - 1 else stp3)"

subsection \<open>Humanised numbers\<close>

definition unknownGlyph :: string where "unknownGlyph = ''?''"

function scale_units :: "rat \<Rightarrow> int \<Rightarrow> rat \<times> int" where
  "scale_units val idx =
     (if val \<ge> 1024 \<and> idx < 4 then scale_units (to_float (val / 1024)) (idx + 1) else (val, idx))"
  by pat_completeness auto
termination
  by (relation "measure (\<lambda>(val, idx). nat (4 - idx))") auto

declare scale_units.simps [simp del]

text \<open>The value and the unit after the promotion of what would print as 1024.0.\<close>

definition human :: "int \<Rightarrow> rat \<times> int" where
  "human b =
     (case scale_units (to_float (of_int b)) (- 1) of (val, idx) \<Rightarrow>
        if idx < 4 \<and> to_float (val + to_float (5 / 100)) \<ge> 1024 then (to_float (val / 1024), idx + 1) else (val, idx))"

text \<open>fmt's verb .1f on a float64 that is not negative.\<close>

definition fmt_1f :: "rat \<Rightarrow> string" where
  "fmt_1f x = (let n = round_even (x * 10) in itoa (n div 10) @ ''.'' @ itoa (n mod 10))"

definition FormatFileSize :: "int \<Rightarrow> string" where
  "FormatFileSize b =
     (if b < 0 then unknownGlyph
      else if b < 1024 then itoa b @ '' B''
      else case human b of (val, idx) \<Rightarrow> fmt_1f val @ '' '' @ [''KiB'', ''MiB'', ''GiB'', ''TiB'', ''PiB''] ! nat idx)"

definition FormatFileSizeShort :: "int \<Rightarrow> string" where
  "FormatFileSizeShort b =
     (if b < 0 then unknownGlyph
      else if b < 1024 then itoa b @ ''B''
      else case human b of (val, idx) \<Rightarrow> fmt_1f val @ [''K'', ''M'', ''G'', ''T'', ''P''] ! nat idx)"

definition FormatSpeed :: "int \<Rightarrow> string" where
  "FormatSpeed bps = (if bps < 0 then unknownGlyph else FormatFileSize bps @ ''/s'')"

text \<open>time.Duration.Seconds, cut to an int.\<close>

definition seconds_of :: "int \<Rightarrow> int" where
  "seconds_of d =
     int_of_float (to_float (to_float (of_int (d sdiv second)) + to_float (to_float (of_int (d smod second)) / 10 ^ 9)))"

definition pad2 :: "int \<Rightarrow> string" where
  "pad2 n = replicate (2 - length (itoa n)) CHR ''0'' @ itoa n"

definition FormatDuration :: "int \<Rightarrow> string" where
  "FormatDuration d =
     (if d \<le> 0 then spaces 6 @ unknownGlyph
      else let s = seconds_of d; h = s sdiv 3600; m = (s smod 3600) sdiv 60; sec = s smod 60
           in if h > 99 then ''99:59:59'' else pad2 h @ '':'' @ pad2 m @ '':'' @ pad2 sec)"

subsection \<open>States\<close>

fun statusGlyph :: "TaskState \<Rightarrow> string \<times> string" where
  "statusGlyph StateActive = (''>'', colorYellow)"
| "statusGlyph StateRetrying = (''!'', colorRed)"
| "statusGlyph StateError = (''x'', colorRed)"
| "statusGlyph StateCompleted = (''+'', colorGreen)"
| "statusGlyph StatePaused = (''|'', colorGrey)"
| "statusGlyph StateQueued = (''.'', colorGrey)"

fun state_colour :: "TaskState \<Rightarrow> string" where
  "state_colour StateCompleted = colorGreen"
| "state_colour StateActive = colorYellow"
| "state_colour StateRetrying = colorRed"
| "state_colour StateError = colorRed"
| "state_colour StateQueued = colorGrey"
| "state_colour StatePaused = colorGrey"

definition stateColor :: "TaskState \<Rightarrow> bool \<Rightarrow> string" where
  "stateColor s useColor = (if useColor then state_colour s else [])"

subsection \<open>Scanning and cutting\<close>

lemma scan_text: "concat (map sg_text (scanAnsi s)) = s"
proof (induction s rule: scanAnsi.induct)
  case (1 s)
  show ?case
  proof (cases "s = []")
    case False
    then show ?thesis using 1 next_seg_text [OF False] by (simp add: scanAnsi.simps [of s])
  qed simp
qed

lemma next_seg_width: "sg_width (next_seg s) \<le> 2"
  by (auto simp: next_seg_def runeWidth_def split: option.split prod.split)

lemma scan_widths: "g \<in> set (scanAnsi s) \<Longrightarrow> sg_width g \<le> 2"
proof (induction s rule: scanAnsi.induct)
  case (1 s)
  then show ?case
    by (cases "s = []") (auto simp: scanAnsi.simps [of s] next_seg_width)
qed

lemma escape_at_append: "escape_at s = Some e \<Longrightarrow> escape_at (e @ r) = Some e"
proof -
  assume a: "escape_at s = Some e"
  then obtain c1 c2 q f q' where s: "s = c1 # c2 # q" "c1 = esc" "c2 = CHR ''[''" "dropWhile csi_param q = f # q'" "csi_final f"
      "e = c1 # c2 # takeWhile csi_param q @ [f]"
    by (auto simp: escape_at_def split: list.splits if_splits)
  have "\<not> csi_param f" using s(5) by (simp add: csi_final_def csi_param_def)
  moreover have "\<forall>x \<in> set (takeWhile csi_param q). csi_param x" using set_takeWhileD by metis
  ultimately have "dropWhile csi_param (takeWhile csi_param q @ f # r) = f # r"
      "takeWhile csi_param (takeWhile csi_param q @ f # r) = takeWhile csi_param q"
    by (simp_all add: dropWhile_append2 takeWhile_append2)
  then show ?thesis using s by (simp add: escape_at_def)
qed

lemma esc_facts: "octet esc = 27" "\<not> csi_param esc" "\<not> csi_final esc" "esc \<noteq> CHR ''[''"
  by (simp_all add: esc_def octet_def csi_param_def csi_final_def)

text \<open>A segment is found again in a text that was cut later, even when a reset sequence was put there.\<close>

lemma escape_at_cut:
  assumes "escape_at (t @ p @ q) = None" "t \<noteq> []" "hd t = esc \<Longrightarrow> t = [esc]" "z = [] \<or> z = colorReset"
  shows "escape_at (t @ p @ z) = None"
proof (rule ccontr)
  assume "escape_at (t @ p @ z) \<noteq> None"
  then obtain r f r' where e: "t @ p @ z = esc # CHR ''['' # r" "dropWhile csi_param r = f # r'" "csi_final f"
    by (auto simp: escape_at_def split: list.splits if_splits)
  then have t: "t = [esc]" using assms(2,3) by (cases t) auto
  with e have pz: "p @ z = CHR ''['' # r" by simp
  have "p \<noteq> []" using pz assms(4) esc_facts(4) by (auto simp: colorReset_def)
  then obtain p' where p: "p = CHR ''['' # p'" "r = p' @ z" using pz by (cases p) auto
  show False
  proof (cases "\<forall>c \<in> set p'. csi_param c")
    case True
    then have "dropWhile csi_param r = dropWhile csi_param z" by (simp add: p dropWhile_append2)
    then show False using e assms(4) esc_facts by (auto simp: colorReset_def)
  next
    case False
    then obtain y where "y \<in> set p'" "\<not> csi_param y" by blast
    then have d: "dropWhile csi_param (p' @ x) = dropWhile csi_param p' @ x" for x by (rule dropWhile_append1)
    obtain u where u: "dropWhile csi_param p' = f # u"
      using e(2) d [of z] False p(2) by (cases "dropWhile csi_param p'") (auto simp: dropWhile_eq_Nil_conv)
    then have "escape_at (t @ p @ q) \<noteq> None" using d [of q] e(3) by (simp add: t p escape_at_def)
    then show False using assms(1) by simp
  qed
qed

lemma decode_rune_cut:
  assumes "s = c # p @ q" "snd (decode_rune s) = 1" "z = [] \<or> z = colorReset"
  shows "decode_rune (c # p @ z) = decode_rune s"
proof (cases "octet c < 0x80 \<or> lead_class (octet c) = None")
  case True
  then show ?thesis by (auto simp: assms(1) decode_rune_def)
next
  case False
  then obtain n lo hi where l: "lead_class (octet c) = Some (n, lo, hi)" by auto
  note n = lead_class_size [OF l]
  have nf: "\<not> follows n lo hi (map octet (take (n - 1) (p @ q)))"
    using False l assms(1,2) n by (auto simp: decode_rune_def Let_def split: if_splits)
  have "\<not> follows n lo hi (map octet (take (n - 1) (p @ z)))"
  proof
    assume f: "follows n lo hi (map octet (take (n - 1) (p @ z)))"
    have lp: "length p < n - 1"
    proof (rule ccontr)
      assume "\<not> length p < n - 1"
      then have "take (n - 1) (p @ z) = take (n - 1) (p @ q)" by simp
      then show False using f nf by simp
    qed
    have "length (take (n - 1) (p @ z)) = n - 1" using f by (simp add: follows_def)
    then have z: "z = colorReset" using assms(3) lp by auto
    obtain m where m: "n - 1 = length p + Suc m" using lp less_iff_Suc_add [of "length p" "n - 1"] by auto
    have "take (n - 1) (p @ z) = p @ esc # take m ''[0m''" by (simp only: m z colorReset_def take_append) simp
    then have tk: "map octet (take (n - 1) (p @ z)) = map octet p @ 27 # map octet (take m ''[0m'')" by (simp add: esc_facts)
    show False
    proof (cases p)
      case Nil
      then show False using f n tk by (simp add: follows_def)
    next
      case (Cons a as)
      then show False using f tk by (simp add: follows_def continuation_def)
    qed
  qed
  then show ?thesis using False l nf by (simp add: assms(1) decode_rune_def Let_def)
qed

lemma next_seg_cut:
  assumes "s \<noteq> []" "s = sg_text (next_seg s) @ p @ q" "z = [] \<or> z = colorReset"
  shows "next_seg (sg_text (next_seg s) @ p @ z) = next_seg s"
proof (cases "escape_at s")
  case (Some e)
  then have "sg_text (next_seg s) = e" by (simp add: next_seg_def)
  then show ?thesis using Some escape_at_append [OF Some, of "p @ z"] by (simp add: next_seg_def)
next
  case None
  let ?t = "sg_text (next_seg s)"
  obtain c r where s: "s = c # r" using assms(1) by (cases s) auto
  obtain v n where d: "decode_rune s = (v, n)" by (cases "decode_rune s")
  note dn = decode_rune_size [OF assms(1), unfolded d, simplified]
  have tn: "?t = take n s" using None d dn assms(1) by (auto simp: next_seg_def)
  have hd: "hd ?t = esc \<Longrightarrow> ?t = [esc]"
  proof -
    assume "hd ?t = esc"
    then have "c = esc" using tn s dn by (cases n) auto
    then have "n = 1" using d s esc_facts by (simp add: decode_rune_def)
    then show "?t = [esc]" using tn s \<open>c = esc\<close> by simp
  qed
  have t: "?t \<noteq> []" using next_seg_text [OF assms(1)] by simp
  have e: "escape_at (?t @ p @ z) = None"
    using escape_at_cut [of ?t p q z] None assms(2,3) t hd by metis
  have dd: "decode_rune (?t @ p @ z) = (v, n)"
  proof (cases "n = 1")
    case True
    then have "?t = [c]" using tn s by simp
    then show ?thesis using decode_rune_cut [of s c p q z] assms(2,3) d True by (metis append_Cons append_Nil snd_conv)
  next
    case False
    then obtain lo hi where l: "\<not> octet c < 0x80" "lead_class (octet c) = Some (n, lo, hi)" "follows n lo hi (map octet (take (n - 1) r))"
        "v = foldl (\<lambda>v b. v * 64 + b mod 64) (octet c mod 2 ^ (7 - n)) (map octet (take (n - 1) r))"
      using d dn by (auto simp: s decode_rune_def Let_def split: if_splits option.splits)
    have tc: "?t = c # take (n - 1) r" using tn dn by (cases n) (simp_all add: s)
    have "length (take (n - 1) r) = n - 1" using dn s by auto
    then show ?thesis using l by (simp add: tc decode_rune_def Let_def)
  qed
  show ?thesis
  proof (cases "v = RuneError \<and> n = 1")
    case True
    then have "?t = [c]" using tn s by simp
    then have "take 1 (?t @ p @ z) = take 1 s" by (simp add: s)
    then show ?thesis using True None e d dd by (simp add: next_seg_def)
  next
    case False
    have "take n (?t @ p @ z) = take n s" using tn dn by simp
    then show ?thesis using False None e d dd by (auto simp: next_seg_def)
  qed
qed

lemma rescan:
  assumes "z = [] \<or> z = colorReset"
  shows "scanAnsi (concat (map sg_text (take k (scanAnsi s))) @ z) = take k (scanAnsi s) @ scanAnsi z"
proof (induction s arbitrary: k rule: scanAnsi.induct)
  case (1 s)
  show ?case
  proof (cases "s = [] \<or> k = 0")
    case False
    then obtain j where k: "k = Suc j" "s \<noteq> []" by (cases k) auto
    define rest where "rest = drop (length (sg_text (next_seg s))) s"
    define p where "p = concat (map sg_text (take j (scanAnsi rest)))"
    define q where "q = concat (map sg_text (drop j (scanAnsi rest)))"
    have "rest = p @ q" unfolding p_def q_def by (metis append_take_drop_id concat_append map_append scan_text)
    then have s: "s = sg_text (next_seg s) @ p @ q" using next_seg_text [OF k(2)] by (simp add: rest_def)
    note n = next_seg_cut [OF k(2) s assms]
    have x: "sg_text (next_seg s) @ p @ z \<noteq> []" using next_seg_text [OF k(2)] by simp
    have "scanAnsi (sg_text (next_seg s) @ p @ z) = next_seg s # scanAnsi (p @ z)"
      using x by (simp add: scanAnsi.simps [of "sg_text (next_seg s) @ p @ z"] n)
    moreover have "scanAnsi (p @ z) = take j (scanAnsi rest) @ scanAnsi z"
      using 1 [OF k(2), of j] by (simp add: p_def rest_def)
    moreover have "scanAnsi s = next_seg s # scanAnsi rest" using k(2) by (simp add: scanAnsi.simps [of s] rest_def)
    ultimately show ?thesis by (simp add: k(1) p_def)
  qed auto
qed

subsection \<open>How wide a cut text is\<close>

lemma seg_cells_simps [simp]:
  "seg_cells [] = 0" "seg_cells (g # gs) = (if sg_visible g then sg_width g + seg_cells gs else seg_cells gs)"
  "seg_cells (gs @ hs) = seg_cells gs + seg_cells hs"
  by (simp_all add: seg_cells_def)

text \<open>The loop writes the segments up to some point; it stops before the end only when the cells are used up.\<close>

lemma cut_loop_take:
  assumes "\<forall>g \<in> set gs. sg_width g \<le> w" "1 \<le> w"
  shows "\<exists>k c'. cut_loop gs b r c = (b @ concat (map sg_text (take k gs)), r - int (seg_cells (take k gs)), c')
     \<and> (0 < r \<longrightarrow> int (seg_cells (take k gs)) < r + int w) \<and> (int (seg_cells (take k gs)) < r \<longrightarrow> take k gs = gs)
     \<and> (r \<le> 0 \<longrightarrow> seg_cells (take k gs) = 0)
     \<and> (0 < r \<longrightarrow> (\<forall>g \<in> set (take k gs). sg_width g \<le> 1) \<longrightarrow> int (seg_cells (take k gs)) \<le> r)"
  using assms(1)
proof (induction gs arbitrary: b r c)
  case Nil
  then show ?case using assms(2) by auto
next
  case (Cons g gs)
  show ?case
  proof (cases "sg_visible g")
    case False
    obtain k c' where "cut_loop gs (b @ sg_text g) r (\<not> contains (sg_text g) colorReset)
         = ((b @ sg_text g) @ concat (map sg_text (take k gs)), r - int (seg_cells (take k gs)), c')"
        "0 < r \<longrightarrow> int (seg_cells (take k gs)) < r + int w" "int (seg_cells (take k gs)) < r \<longrightarrow> take k gs = gs"
        "r \<le> 0 \<longrightarrow> seg_cells (take k gs) = 0"
        "0 < r \<longrightarrow> (\<forall>g \<in> set (take k gs). sg_width g \<le> 1) \<longrightarrow> int (seg_cells (take k gs)) \<le> r"
      using Cons.IH [of "b @ sg_text g" r "\<not> contains (sg_text g) colorReset"] Cons.prems by auto
    then show ?thesis using False by (intro exI [of _ "Suc k"] exI [of _ c']) simp
  next
    case vis: True
    show ?thesis
    proof (cases "r \<le> 0")
      case True
      then show ?thesis using vis by (intro exI [of _ 0] exI [of _ c]) simp
    next
      case False
      obtain k c' where k: "cut_loop gs (b @ sg_text g) (r - int (sg_width g)) False
           = ((b @ sg_text g) @ concat (map sg_text (take k gs)), r - int (sg_width g) - int (seg_cells (take k gs)), c')"
          "0 < r - int (sg_width g) \<longrightarrow> int (seg_cells (take k gs)) < r - int (sg_width g) + int w"
          "int (seg_cells (take k gs)) < r - int (sg_width g) \<longrightarrow> take k gs = gs"
          "r - int (sg_width g) \<le> 0 \<longrightarrow> seg_cells (take k gs) = 0"
          "0 < r - int (sg_width g) \<longrightarrow> (\<forall>g \<in> set (take k gs). sg_width g \<le> 1) \<longrightarrow>
             int (seg_cells (take k gs)) \<le> r - int (sg_width g)"
        using Cons.IH [of "b @ sg_text g" "r - int (sg_width g)" False] Cons.prems by auto
      have "sg_width g \<le> w" using Cons.prems by simp
      then show ?thesis using vis False k by (intro exI [of _ "Suc k"] exI [of _ c']) auto
    qed
  qed
qed

lemma scan_reset [simp]: "scanAnsi colorReset = [\<lparr>sg_text = colorReset, sg_visible = False, sg_width = 0\<rparr>]"
proof -
  have "next_seg colorReset = \<lparr>sg_text = colorReset, sg_visible = False, sg_width = 0\<rparr>"
    by (simp add: next_seg_def escape_at_def colorReset_def esc_def csi_param_def csi_final_def octet_def)
  then show ?thesis by (simp add: scanAnsi.simps [of colorReset]) (simp add: colorReset_def)
qed

lemma truncate_scan:
  assumes "0 < width" "\<forall>g \<in> set (scanAnsi s). sg_width g \<le> w" "1 \<le> w"
  shows "\<exists>k z. scanAnsi (truncateVisibleWidth s width) = take k (scanAnsi s) @ z \<and> seg_cells z = 0
     \<and> int (seg_cells (take k (scanAnsi s))) < width + int w
     \<and> (int (seg_cells (take k (scanAnsi s))) < width \<longrightarrow> take k (scanAnsi s) = scanAnsi s)
     \<and> ((\<forall>g \<in> set (take k (scanAnsi s)). sg_width g \<le> 1) \<longrightarrow> int (seg_cells (take k (scanAnsi s))) \<le> width)"
proof -
  obtain k c where k: "cut_loop (scanAnsi s) [] width False
      = (concat (map sg_text (take k (scanAnsi s))), width - int (seg_cells (take k (scanAnsi s))), c)"
      "int (seg_cells (take k (scanAnsi s))) < width + int w"
      "int (seg_cells (take k (scanAnsi s))) < width \<longrightarrow> take k (scanAnsi s) = scanAnsi s"
      "(\<forall>g \<in> set (take k (scanAnsi s)). sg_width g \<le> 1) \<longrightarrow> int (seg_cells (take k (scanAnsi s))) \<le> width"
    using cut_loop_take [OF assms(2,3), of "[]" width False] assms(1) by auto
  define z where "z = (if width - int (seg_cells (take k (scanAnsi s))) \<le> 0 \<and> c then colorReset else [])"
  have "truncateVisibleWidth s width = concat (map sg_text (take k (scanAnsi s))) @ z"
    using assms(1) k(1) by (simp add: truncateVisibleWidth_def z_def)
  moreover have "z = [] \<or> z = colorReset" by (simp add: z_def)
  ultimately have "scanAnsi (truncateVisibleWidth s width) = take k (scanAnsi s) @ scanAnsi z" using rescan by simp
  moreover have "seg_cells (scanAnsi z) = 0" by (simp add: z_def)
  ultimately show ?thesis using k(2,3,4) by blast
qed

text \<open>What the cut keeps: at least as much as fits, at most one cell more, and that only for a wide rune.\<close>

lemma truncate_cells:
  assumes "0 < width" "\<forall>g \<in> set (scanAnsi s). sg_width g \<le> w" "1 \<le> w"
  shows "min width (displayWidth s) \<le> displayWidth (truncateVisibleWidth s width)"
    "displayWidth (truncateVisibleWidth s width) < width + int w"
    "displayWidth (truncateVisibleWidth s width) \<le> displayWidth s"
proof -
  obtain k z where k: "scanAnsi (truncateVisibleWidth s width) = take k (scanAnsi s) @ z" "seg_cells z = 0"
      "int (seg_cells (take k (scanAnsi s))) < width + int w"
      "int (seg_cells (take k (scanAnsi s))) < width \<longrightarrow> take k (scanAnsi s) = scanAnsi s"
    using truncate_scan [OF assms] by blast
  have "seg_cells (scanAnsi s) = seg_cells (take k (scanAnsi s)) + seg_cells (drop k (scanAnsi s))"
    by (metis append_take_drop_id seg_cells_simps(3))
  then show "displayWidth (truncateVisibleWidth s width) \<le> displayWidth s"
    "min width (displayWidth s) \<le> displayWidth (truncateVisibleWidth s width)"
    "displayWidth (truncateVisibleWidth s width) < width + int w"
    using k by (auto simp: displayWidth_def)
qed

text \<open>Printable ASCII text has one cell for each octet.\<close>

definition printable :: "char \<Rightarrow> bool" where "printable c \<longleftrightarrow> 0x20 \<le> octet c \<and> octet c < 0x7f"

lemma next_seg_printable: "printable c \<Longrightarrow> next_seg (c # s) = \<lparr>sg_text = [c], sg_visible = True, sg_width = 1\<rparr>"
  using esc_facts(1)
  by (auto simp: printable_def next_seg_def escape_at_def decode_rune_def RuneError_def runeWidth_def split: option.split list.split)

lemma scan_printable: "printable c \<Longrightarrow> scanAnsi (c # s) = \<lparr>sg_text = [c], sg_visible = True, sg_width = 1\<rparr> # scanAnsi s"
  by (simp add: scanAnsi.simps [of "c # s"] next_seg_printable)

lemma displayWidth_printable_append: "list_all printable s \<Longrightarrow> displayWidth (s @ t) = int (length s) + displayWidth t"
  by (induction s) (auto simp: displayWidth_def scan_printable)

lemma displayWidth_printable: "list_all printable s \<Longrightarrow> displayWidth s = int (length s)"
  using displayWidth_printable_append [of s "[]"] by (simp add: displayWidth_def)

lemma printable_spaces [simp]: "list_all printable (spaces n)" "length (spaces n) = nat n"
  by (simp_all add: spaces_def list_all_iff printable_def octet_def)

lemma displayWidth_nonneg [simp]: "0 \<le> displayWidth s" by (simp add: displayWidth_def)

text \<open>A fitted cell has exactly its width, but for a wide rune on the edge.\<close>

lemma fitWidth_cells:
  assumes "0 < w" "\<forall>g \<in> set (scanAnsi s). sg_width g \<le> k" "1 \<le> k"
  shows "w \<le> displayWidth (fitWidth s w) \<and> displayWidth (fitWidth s w) < w + int k"
proof (cases "displayWidth s > w")
  case True
  then show ?thesis using truncate_cells [OF assms] assms(1) by (simp add: fitWidth_def Let_def)
next
  case False
  then show ?thesis using assms(1,3) by (auto simp: fitWidth_def Let_def displayWidth_printable_append)
qed

lemma scan_narrow: "list_all printable s \<Longrightarrow> \<forall>g \<in> set (scanAnsi s). sg_width g \<le> 1"
  by (induction s) (auto simp: scan_printable)

lemma fitWidth_exact: "0 < w \<Longrightarrow> list_all printable s \<Longrightarrow> displayWidth (fitWidth s w) = w"
  using fitWidth_cells [of w s 1] scan_narrow [of s] by simp

lemma truncateToWidth_cells: "0 < width \<Longrightarrow> displayWidth (truncateToWidth s width) \<le> width + 1"
  using truncate_cells(2) [of width s 2] scan_widths [of _ s] by (auto simp: truncateToWidth_def)

lemma truncateToWidth_narrow:
  "0 < width \<Longrightarrow> \<forall>g \<in> set (scanAnsi s). sg_width g \<le> 1 \<Longrightarrow> displayWidth (truncateToWidth s width) = min width (displayWidth s)"
  using truncate_cells(1,2) [of width s 1] by (auto simp: truncateToWidth_def)

lemma truncateToWidth_printable:
  assumes "0 < width" "list_all printable (truncateToWidth s width)"
  shows "displayWidth (truncateToWidth s width) \<le> width"
proof (cases "displayWidth s \<le> width")
  case True
  then show ?thesis using assms(1) by (simp add: truncateToWidth_def)
next
  case False
  then have t: "truncateToWidth s width = truncateVisibleWidth s width" using assms(1) by (simp add: truncateToWidth_def)
  obtain k z where k: "scanAnsi (truncateVisibleWidth s width) = take k (scanAnsi s) @ z" "seg_cells z = 0"
      "(\<forall>g \<in> set (take k (scanAnsi s)). sg_width g \<le> 1) \<longrightarrow> int (seg_cells (take k (scanAnsi s))) \<le> width"
    using truncate_scan [OF assms(1), of s 2] scan_widths by auto
  have "\<forall>g \<in> set (scanAnsi (truncateVisibleWidth s width)). sg_width g \<le> 1" using assms(2) scan_narrow t by simp
  then show ?thesis using k by (simp add: t displayWidth_def)
qed

subsection \<open>The bar never panics, and keeps its width\<close>

lemma barLine_returns: "1 \<le> width \<Longrightarrow> \<exists>s. barLine eaten width [] = Some s"
  by (simp add: barLine_def Repeat_def)

lemma BarIndeterminate_returns: "\<exists>s. BarIndeterminate done_bytes size0 width pos [] = Some s"
  using barLine_returns by (simp add: BarIndeterminate_def Let_def Repeat_def)

lemma runes_printable: "list_all printable s \<Longrightarrow> length (runes s) = length s"
proof (induction s)
  case (Cons c s)
  then show ?case
    by (simp add: runes.simps [of "c # s"]) (simp add: decode_rune_def printable_def)
qed simp

lemma bar_chars: "printable (pac_face e)" "printable (dot p)" "printable (CHR ''-'')"
  by (simp_all add: pac_face_def dot_def printable_def octet_def)

lemma barLine_exact:
  assumes "0 \<le> eaten" "eaten < width" "barLine eaten width [] = Some s"
  shows "length s = nat width \<and> displayWidth s = width \<and> list_all printable s"
proof -
  define b where "b = replicate (nat eaten) CHR ''-'' @ [pac_face eaten] @ map dot [eaten + 1..width - 1]"
  have p: "list_all printable b" using bar_chars by (auto simp: b_def list_all_iff)
  have l: "length b = nat width" using assms(1,2) by (simp add: b_def)
  then have "s = b" using assms runes_printable [OF p] by (simp add: barLine_def Let_def b_def spaces_def)
  then show ?thesis using p l displayWidth_printable [OF p] assms(1,2) by simp
qed

lemma bouncePosition_range: "1 \<le> width \<Longrightarrow> 0 \<le> bouncePosition frame width \<and> bouncePosition frame width < width"
  by (simp add: bouncePosition_def Let_def)

lemma length_nat_digits: "length (nat_digits n) \<le> 3 \<longleftrightarrow> n < 1000"
proof -
  have step: "length (nat_digits m) \<le> Suc k \<longleftrightarrow> m < 10 \<or> length (nat_digits (m div 10)) \<le> k" for m k
    by (subst nat_digits.simps) simp
  have "length (nat_digits m) \<noteq> 0" for m by simp
  then have "length (nat_digits n) \<le> Suc (Suc (Suc 0)) \<longleftrightarrow> n < 10 \<or> n div 10 < 10 \<or> n div 10 div 10 < 10"
    unfolding step by simp
  then show ?thesis by (simp add: numeral_3_eq_3) linarith
qed

subsection \<open>The widths of the numbers\<close>

lemma pow2_powi: "pow2 e = 2 powi e"
  by (simp add: pow2_def power_int_def inverse_eq_divide power_one_over)

lemma pow2_pos [simp]: "0 < pow2 e" by (simp add: pow2_powi)

lemma floor_log2_le:
  assumes "0 < x" shows "pow2 (floor_log2 x) \<le> x"
proof -
  obtain n d where q: "quotient_of x = (n, d)" by (cases "quotient_of x")
  have d: "0 < d" and x: "x = of_int n / of_int d" using q quotient_of_denom_pos quotient_of_div by blast+
  have n: "0 < n" using assms d by (simp add: x zero_less_divide_iff)
  define a where "a = bit_length (nat n)"
  define b where "b = bit_length (nat d)"
  have "0 < a" using bit_length_greater [of 0 "nat n"] n by (simp add: a_def)
  then obtain a' where a': "a = Suc a'" using gr0_implies_Suc by blast
  then have "\<not> nat n < 2 ^ a'" using bit_length_less [of "nat n" a'] by (auto simp: a_def)
  then have A: "(2 :: rat) ^ a' \<le> of_int n" using n by (metis (no_types) not_less of_nat_le_iff of_nat_nat of_nat_numeral of_nat_power order_less_imp_le of_int_of_nat_eq)
  have "nat d < 2 ^ b" using bit_length_greater [of b "nat d"] by (auto simp: b_def not_le [symmetric])
  then have B: "of_int d \<le> (2 :: rat) ^ b" using d by (metis of_nat_le_iff of_nat_nat of_nat_numeral of_nat_power order_less_imp_le of_int_of_nat_eq)
  have "pow2 (int a - int b - 1) = 2 ^ a' / 2 ^ b" by (simp add: pow2_powi a' power_int_diff)
  also have "\<dots> \<le> x" unfolding x using A B d n by (intro frac_le) auto
  finally show ?thesis unfolding floor_log2_def q by (simp add: Let_def a_def b_def)
qed

lemma round_even_le: "y \<le> of_int n \<Longrightarrow> round_even y \<le> n"
  unfolding round_even_def Let_def by (auto simp: floor_le_iff)

lemma round_even_nonneg: "0 \<le> y \<Longrightarrow> 0 \<le> round_even y"
  unfolding round_even_def Let_def by auto

lemma f64_nonneg: "0 \<le> f64 x"
proof -
  have "0 \<le> round_even (x / pow2 e)" if "0 < x" for e using that less_imp_le [OF pow2_pos [of e]] by (intro round_even_nonneg) simp
  then show ?thesis using less_imp_le [OF pow2_pos] by (simp add: f64_def Let_def)
qed

text \<open>Rounding does not pass a power of two.\<close>

lemma f64_le_power:
  assumes "x \<le> 2 ^ k" shows "f64 x \<le> 2 ^ k"
proof (cases "0 < x")
  case True
  define e where "e = max (- 1074) (floor_log2 x - 52)"
  have "pow2 (floor_log2 x) \<le> 2 powi int k" using floor_log2_le [OF True] assms by simp
  then have "floor_log2 x \<le> int k" using power_int_strict_increasing [of "int k" "floor_log2 x" "2 :: rat"] unfolding pow2_powi by (auto simp: not_le [symmetric])
  then have e: "e \<le> int k" by (simp add: e_def)
  then have k: "2 ^ k / pow2 e = of_int (2 ^ nat (int k - e))"
    by (simp add: pow2_powi power_int_diff [symmetric] flip: power_int_of_nat)
  have "x / pow2 e \<le> of_int (2 ^ nat (int k - e))" unfolding k [symmetric] using assms less_imp_le [OF pow2_pos] by (simp add: divide_right_mono)
  then have "round_even (x / pow2 e) \<le> 2 ^ nat (int k - e)" by (rule round_even_le)
  then have "of_int (round_even (x / pow2 e)) * pow2 e \<le> of_int (2 ^ nat (int k - e)) * pow2 e"
    by (intro mult_right_mono) (use less_imp_le [OF pow2_pos] in auto)
  also have "\<dots> = 2 ^ k" unfolding k [symmetric] by (simp add: less_imp_neq [OF pow2_pos, symmetric])
  finally show ?thesis using True by (simp add: f64_def e_def Let_def)
qed (simp add: f64_def)

lemma to_float_range: "0 \<le> x \<Longrightarrow> x \<le> 2 ^ k \<Longrightarrow> 0 \<le> to_float x \<and> to_float x \<le> 2 ^ k"
  by (simp add: to_float_def f64_nonneg f64_le_power)

lemma scale_units_range:
  "0 \<le> val \<Longrightarrow> - 1 \<le> idx \<Longrightarrow> idx \<le> 4 \<Longrightarrow> val \<le> 2 ^ nat (53 - 10 * idx) \<Longrightarrow> scale_units val idx = (v, i) \<Longrightarrow>
   0 \<le> v \<and> v \<le> 2 ^ 13 \<and> i \<le> 4"
proof (induction val idx rule: scale_units.induct)
  case (1 val idx)
  show ?case
  proof (cases "val \<ge> 1024 \<and> idx < 4")
    case True
    have "nat (53 - 10 * idx) = 10 + nat (53 - 10 * (idx + 1))" using True by (simp add: eq_nat_nat_iff nat_plus_as_int)
    then have "val / 1024 \<le> 2 ^ nat (53 - 10 * (idx + 1))" using "1.prems"(4) by (simp add: power_add)
    then show ?thesis using "1.IH" [OF True] "1.prems" True to_float_range [of "val / 1024"] by (simp add: scale_units.simps [of val])
  next
    case False
    have "(2 :: rat) ^ 10 \<le> 2 ^ 13" by (rule power_increasing) auto
    then have "val \<le> 2 ^ 13" using False "1.prems"(3,4) by (cases "idx = 4") auto
    moreover have "v = val" "i = idx" using False "1.prems"(5) by (auto simp: scale_units.simps [of val])
    ultimately show ?thesis using "1.prems" by simp
  qed
qed

lemma human_range: "0 \<le> b \<Longrightarrow> b < 2 ^ 63 \<Longrightarrow> human b = (v, i) \<Longrightarrow> 0 \<le> v \<and> v \<le> 2 ^ 13 \<and> i \<le> 4"
proof -
  assume b: "0 \<le> b" "b < 2 ^ 63" and h: "human b = (v, i)"
  obtain v1 i1 where s: "scale_units (to_float (of_int b)) (- 1) = (v1, i1)" by (cases "scale_units (to_float (of_int b)) (- 1)")
  have "(of_int b :: rat) \<le> of_int (2 ^ 63)" using b(2) by (subst of_int_le_iff) simp
  then have "0 \<le> v1 \<and> v1 \<le> 2 ^ 13 \<and> i1 \<le> 4"
    using scale_units_range [OF _ _ _ _ s] to_float_range [of "of_int b" 63] b(1) by simp
  then show ?thesis using h s to_float_range [of "v1 / 1024" 13] by (auto simp: human_def split: if_splits)
qed

lemma length_itoa: "0 \<le> i \<Longrightarrow> i < 10 ^ Suc k \<Longrightarrow> length (itoa i) \<le> Suc k"
proof -
  have "length (nat_digits m) \<le> Suc k" if "m < 10 ^ Suc k" for m using that
  proof (induction k arbitrary: m)
    case (Suc k)
    then have "m div 10 < 10 ^ Suc k" by (simp add: div_less_iff_less_mult)
    then show ?case using Suc.IH [of "m div 10"] by (subst nat_digits.simps) simp
  qed (simp add: nat_digits.simps)
  moreover assume "0 \<le> i" "i < 10 ^ Suc k"
  ultimately show ?thesis by (simp add: itoa_def nat_less_iff)
qed

lemma fmt_1f_length: "0 \<le> x \<Longrightarrow> x \<le> 2 ^ 13 \<Longrightarrow> length (fmt_1f x) \<le> 6"
proof -
  assume x: "0 \<le> x" "x \<le> 2 ^ 13"
  define n where "n = round_even (x * 10)"
  have "n \<le> 81920" unfolding n_def using x by (intro round_even_le) simp
  moreover have "0 \<le> n" unfolding n_def using x by (intro round_even_nonneg) simp
  ultimately have "length (itoa (n div 10)) \<le> 4" "length (itoa (n mod 10)) \<le> 1"
    using length_itoa [of "n div 10" 3] length_itoa [of "n mod 10" 0] by (simp_all add: eval_nat_numeral)
  then show ?thesis by (simp add: fmt_1f_def n_def [symmetric] Let_def)
qed

lemma printable_itoa [simp]: "list_all printable (itoa i)"
proof -
  have "printable (digit_char d)" if "d < 10" for d using that by (simp add: printable_def octet_def digit_char_def)
  then have "list_all printable (nat_digits n)" for n
    by (induction n rule: nat_digits.induct) (subst nat_digits.simps, simp)
  then show ?thesis by (simp add: itoa_def) (simp add: printable_def octet_def)
qed

lemma FormatFileSize_fits:
  assumes "b < 2 ^ 63"
  shows "list_all printable (FormatFileSize b) \<and> length (FormatFileSize b) \<le> 10"
proof -
  consider "b < 0" | "0 \<le> b" "b < 1024" | "1024 \<le> b" by linarith
  then show ?thesis
  proof cases
    case 2
    then have "length (itoa b) \<le> 4" using length_itoa [of b 3] by simp
    then show ?thesis using 2 by (simp add: FormatFileSize_def) (simp add: printable_def octet_def)
  next
    case 3
    obtain v i where h: "human b = (v, i)" by (cases "human b")
    then have r: "0 \<le> v" "v \<le> 2 ^ 13" "nat i \<le> 4" using human_range [of b v i] 3 assms by auto
    then have "nat i \<in> {0, 1, 2, 3, 4}" by auto
    then have "length ([''KiB'', ''MiB'', ''GiB'', ''TiB'', ''PiB''] ! nat i) = 3 \<and>
        list_all printable ([''KiB'', ''MiB'', ''GiB'', ''TiB'', ''PiB''] ! nat i)"
      by (elim insertE) (simp_all add: printable_def octet_def)
    then show ?thesis using 3 h fmt_1f_length [OF r(1,2)]
      by (simp add: FormatFileSize_def fmt_1f_def Let_def) (simp add: printable_def octet_def)
  qed (simp add: FormatFileSize_def unknownGlyph_def printable_def octet_def)
qed

lemma seconds_nonneg: "0 \<le> d \<Longrightarrow> d < 2 ^ 63 \<Longrightarrow> 0 \<le> seconds_of d"
proof -
  assume d: "0 \<le> d" "d < 2 ^ 63"
  define q where "q = d sdiv second"
  define r where "r = d smod second"
  have "q = d div second" "r = d mod second" using d by (simp_all add: q_def r_def second_def sdiv_nonneg smod_nonneg)
  then have q: "0 \<le> q" "q \<le> 2 ^ 34" and r: "0 \<le> r" "r \<le> 2 ^ 30" using d by (auto simp: second_def)
  define x where "x = to_float (of_int q)"
  define y where "y = to_float (to_float (of_int r) / 10 ^ 9)"
  have "(of_int q :: rat) \<le> of_int (2 ^ 34)" "(of_int r :: rat) \<le> of_int (2 ^ 30)" using q(2) r(2) by (subst of_int_le_iff, simp)+
  then have "0 \<le> x" "x \<le> 2 ^ 34" and z: "0 \<le> to_float (of_int r :: rat)" "to_float (of_int r :: rat) \<le> 2 ^ 30"
    using to_float_range [of "of_int q" 34] to_float_range [of "of_int r" 30] q(1) r(1) by (simp_all add: x_def)
  moreover have "0 \<le> y" "y \<le> 2 ^ 30" using to_float_range [of "to_float (of_int r) / 10 ^ 9" 30] z by (simp_all add: y_def)
  ultimately have "0 \<le> to_float (x + y)" "to_float (x + y) \<le> 2 ^ 35" using to_float_range [of "x + y" 35] by simp_all
  then show "0 \<le> seconds_of d"
    unfolding seconds_of_def q_def [symmetric] r_def [symmetric] x_def [symmetric] y_def [symmetric]
    by (auto simp: int_of_float_def Let_def)
qed

lemma FormatDuration_fits:
  assumes "d < 2 ^ 63"
  shows "list_all printable (FormatDuration d) \<and> length (FormatDuration d) \<le> 8"
proof -
  have z: "printable CHR ''0''" "printable (CHR '':'')" "printable (CHR ''?'')" "printable (CHR ''9'')" "printable (CHR ''5'')"
    by (simp_all add: printable_def octet_def)
  have p: "list_all printable (pad2 n)" for n by (simp add: pad2_def z list_all_iff [of _ "replicate _ _"])
  have l: "length (pad2 n) = 2" if "0 \<le> n" "n < 100" for n using length_itoa [of n 1] that by (simp add: pad2_def)
  define m where "m = seconds_of d"
  show ?thesis
  proof (cases "d \<le> 0 \<or> m sdiv 3600 > 99")
    case True
    then show ?thesis by (auto simp: FormatDuration_def m_def Let_def unknownGlyph_def z)
  next
    case False
    then have m: "0 \<le> m" using seconds_nonneg [of d] assms by (simp add: m_def)
    then have "m sdiv 3600 = m div 3600" "m smod 3600 = m mod 3600" "m mod 3600 sdiv 60 = m mod 3600 div 60" "m smod 60 = m mod 60"
      by (simp_all add: sdiv_nonneg smod_nonneg)
    moreover have "m mod 3600 \<le> 3599" "m mod 60 < 60" using pos_mod_bound [of 3600 m] by (linarith, simp)
    then have "0 \<le> m mod 60 \<and> m mod 60 < 100 \<and> 0 \<le> m mod 3600 div 60 \<and> m mod 3600 div 60 < 100 \<and> 0 \<le> m div 3600"
      using m zdiv_mono1 [of "m mod 3600" 3599 60] by (simp add: pos_imp_zdiv_nonneg_iff)
    ultimately show ?thesis using False l p z by (simp add: FormatDuration_def Let_def flip: m_def)
  qed
qed

end
