(* ===== verification/Ui_Render.thy ===== *)
theory Ui_Render imports Ui_Text Balancer Filename "HOL-Library.List_Lexorder" "HOL-Library.Char_ord" begin

section \<open>The progress display (internal/ui/render.go, summary.go, progress.go, termsize.go)\<close>

text \<open>
  The task line and the summary line, the layout for a terminal width, the cache of snapshots, and the renderer with
  what it writes: a list of terminal operations, given the size of the terminal and the time. A nil slice is None. A
  result of None is a panic. The cache is an association list; Go's map order never shows, because what leaves it is
  sorted by id.
\<close>

datatype lineLayout = LayoutFull | LayoutNoSpeedETA | LayoutNameBarPct | LayoutNamePct | LayoutPct

definition colGlyph :: int where "colGlyph = 2"
definition colSize :: int where "colSize = 14"
definition colSpeed :: int where "colSpeed = 12"
definition colETA :: int where "colETA = 8"
definition colConns :: int where "colConns = 6"
definition colPct :: int where "colPct = 4"

definition infoFixedWidth :: int where
  "infoFixedWidth = 2 + colSize + 2 + colSpeed + 2 + colETA + 2 + colConns + 1 + 1 + 2 + colPct"

definition infoBlockWidthFor :: "int \<Rightarrow> int" where
  "infoBlockWidthFor barWidth = colGlyph + infoFixedWidth + barWidth"

subsection \<open>The task line\<close>

definition percent :: "int \<Rightarrow> int \<Rightarrow> string" where
  "percent done_bytes size0 =
     (if size0 > 0 then
        itoa (min (max (int_of_float (to_float (to_float (to_float (of_int done_bytes) / to_float (of_int size0)) * 100))) 0) 100) @ ''%''
      else unknownGlyph)"

definition size_cell :: "ProgressView \<Rightarrow> string" where
  "size_cell v =
     (let short = FormatFileSizeShort (pv_BytesDone v)
      in if pv_TotalSize v \<le> 0 \<and> pv_State v = StateCompleted \<and> pv_BytesDone v > 0 then short @ ''/'' @ short
         else if pv_TotalSize v > 0 then short @ ''/'' @ FormatFileSizeShort (pv_TotalSize v)
         else if pv_TotalSize v < 0 then short @ ''/'' @ unknownGlyph
         else short)"

definition conn_cell :: "ProgressView \<Rightarrow> string option" where
  "conn_cell v =
     (if pv_Connections v > 0 \<and> pv_State v \<noteq> StateCompleted then
        (let c = ''[x'' @ itoa (pv_Connections v) @ '']''
         in map_option (\<lambda>p. c @ p) (Repeat '' '' (colConns - int (length c))))
      else Repeat '' '' colConns)"

text \<open>strings.Replace with one replacement.\<close>

definition colorReplace :: "string \<Rightarrow> string \<Rightarrow> string \<Rightarrow> string" where
  "colorReplace s old new = (case str_cut s old of None \<Rightarrow> s | Some (a, b) \<Rightarrow> a @ new @ b)"

text \<open>The text before and after the last opening bracket.\<close>

definition last_bracket :: "string \<Rightarrow> (string \<times> string) option" where
  "last_bracket s =
     (if CHR ''['' \<in> set s then
        (let after = after_last (CHR ''['') s in Some (take (length s - length after) s, after))
      else None)"

definition colorizeBarInLine :: "string \<Rightarrow> string" where
  "colorizeBarInLine line =
     (case last_bracket line of
        None \<Rightarrow> line
      | Some (before, after) \<Rightarrow>
          (case str_cut after '']'' of
             None \<Rightarrow> line
           | Some (bar, rest) \<Rightarrow> before @ colorizeBar bar True @ '']'' @ rest))"

definition pct_colour :: "TaskState \<Rightarrow> string" where
  "pct_colour s =
     (if s = StateActive \<or> s = StateRetrying then colorYellow
      else if s = StateCompleted then colorGreen else if s = StateError then colorRed else colorGrey)"

definition has_bar :: "lineLayout \<Rightarrow> bool" where
  "has_bar lay \<longleftrightarrow> lay \<in> {LayoutFull, LayoutNoSpeedETA, LayoutNameBarPct}"

text \<open>The columns of a row, before the colours of the bar and the percentage.\<close>

record line_cells =
  lc_glyph :: string
  lc_name :: string
  lc_size :: string
  lc_speed :: string
  lc_eta :: string
  lc_conn :: string
  lc_bar :: string
  lc_pct :: string

definition task_columns :: "lineLayout \<Rightarrow> int \<Rightarrow> line_cells \<Rightarrow> string" where
  "task_columns lay nameWidth c =
     (let pctCol = fitWidth (lc_pct c) colPct;
          barBlock = ''['' @ lc_bar c @ '']  '' @ pctCol;
          glue = (\<lambda>pad. lc_glyph c @ lc_name c @ spaces (max (pad - 2) 0) @ fitWidth (lc_size c) colSize @ ''  '' @ barBlock)
      in case lay of
           LayoutPct \<Rightarrow> fitWidth (lc_pct c) nameWidth
         | LayoutNoSpeedETA \<Rightarrow>
             if lc_speed c = [] \<and> lc_eta c = [] then glue (2 + 2 + colConns)
             else lc_glyph c @ lc_name c @ ''  '' @ fitWidth (lc_size c) colSize @ ''  '' @ lc_conn c @ barBlock
         | LayoutNameBarPct \<Rightarrow> lc_glyph c @ lc_name c @ ''  '' @ lc_conn c @ barBlock
         | LayoutNamePct \<Rightarrow> lc_glyph c @ lc_name c @ ''  '' @ pctCol
         | LayoutFull \<Rightarrow>
             if lc_speed c = [] \<and> lc_eta c = [] then glue (2 + 2 + colSpeed + 2 + colETA + 2 + colConns)
             else lc_glyph c @ lc_name c @ ''  '' @ fitWidth (lc_size c) colSize @ ''  '' @ fitWidth (lc_speed c) colSpeed @ ''  '' @
               fitWidth (lc_eta c) colETA @ ''  '' @ lc_conn c @ barBlock)"

definition renderTaskLine :: "ProgressView \<Rightarrow> bool \<Rightarrow> int \<Rightarrow> int \<Rightarrow> int \<Rightarrow> lineLayout \<Rightarrow> string option" where
  "renderTaskLine v useColor pos nameWidth0 barWidth0 lay =
     (let nameWidth = (if nameWidth0 < 4 \<and> lay \<noteq> LayoutPct then 4 else nameWidth0);
          barWidth = (if barWidth0 < 2 \<and> has_bar lay then 2 else barWidth0);
          (glyph, glyphCol) = statusGlyph (pv_State v);
          glyphCell = (if useColor \<and> glyphCol \<noteq> [] then glyphCol @ glyph @ '' '' @ colorReset else glyph @ '' '');
          name = truncateNameTo (if pv_Filename v = [] then pv_URL v else pv_Filename v) nameWidth;
          cell = padToCells name nameWidth;
          nameCell = (if stateColor (pv_State v) useColor \<noteq> [] then stateColor (pv_State v) useColor @ cell @ colorReset else cell);
          ended = (pv_State v = StateCompleted);
          speed = (if ended then [] else FormatSpeed (pv_Speed v));
          eta = (if ended then [] else FormatDuration (pv_ETA v));
          pctStr = percent (pv_BytesDone v) (pv_TotalSize v);
          pctCol = fitWidth pctStr colPct
      in do {
        connStr \<leftarrow> conn_cell v;
        bar \<leftarrow> BarIndeterminate (pv_BytesDone v) (pv_TotalSize v) barWidth pos [];
        let line = task_columns lay nameWidth \<lparr>lc_glyph = glyphCell, lc_name = nameCell, lc_size = size_cell v, lc_speed = speed,
          lc_eta = eta, lc_conn = connStr, lc_bar = bar, lc_pct = pctStr\<rparr>;
        let line1 = (if useColor then colorReplace line pctCol (pct_colour (pv_State v) @ pctCol @ colorReset) else line);
        let line2 = (if useColor \<and> has_bar lay then colorizeBarInLine line1 else line1);
        let badge = '' e'' @ itoa (pv_Errors v);
        Some (if pv_Errors v > 0 \<and> has_bar lay then line2 @ (if useColor then colorRed @ badge @ colorReset else badge) else line2)
      })"

subsection \<open>The summary line\<close>

definition bracketed :: "string \<Rightarrow> string \<Rightarrow> string" where
  "bracketed bar pct = ''['' @ bar @ '']  '' @ pct"

definition renderSummaryWidth ::
  "int \<Rightarrow> int \<Rightarrow> int \<Rightarrow> int \<Rightarrow> int \<Rightarrow> int \<Rightarrow> int \<Rightarrow> bool \<Rightarrow> int \<Rightarrow> int \<Rightarrow> string option" where
  "renderSummaryWidth cmpl n speedBps eta elapsed bytesDone totalSize useColor termWidth barWidth0 =
     (let barWidth = (if barWidth0 < 2 then 2 else barWidth0);
          sp = fitWidth (FormatSpeed speedBps) colSpeed;
          etaStr = fitWidth (FormatDuration eta) colETA;
          elStr = (if elapsed > 0 then fitWidth (''+'' @ FormatDuration elapsed) (colETA + 1) else []);
          pctCol = fitWidth (percent bytesDone totalSize) colPct;
          leftText = ''Total: '' @ itoa cmpl @ ''/'' @ itoa n @ '' completed'';
          bytesStr = FormatFileSize bytesDone @ (if totalSize > 0 then ''/'' @ FormatFileSize totalSize else []);
          pct = (if useColor then paint colorGreen pctCol else pctCol);
          left = (if useColor then paint colorGreen leftText else leftText);
          allDone = (n > 0 \<and> cmpl \<ge> n)
      in map_option (\<lambda>bar0.
        let bar = (if useColor then colorizeBar bar0 True else bar0);
            segs = (if totalSize > 0 \<and> bytesStr \<noteq> [] \<and> \<not> allDone then [bytesStr] else []) @
                   (if \<not> allDone then [sp @ ''  ETA '' @ etaStr] else []) @ (if elStr \<noteq> [] then [elStr] else []);
            joined = join_with ''  '' segs;
            right0 = (if joined \<noteq> [] then joined @ ''  '' else []) @ bracketed bar pct;
            right1 = (if useColor \<and> \<not> allDone then colorReplace right0 sp (paint colorYellow sp) else right0);
            right = (if useColor \<and> elStr \<noteq> [] then colorReplace right1 elStr (paint colorCyan elStr) else right1)
        in if termWidth > 0 then
             (let pad = termWidth - displayWidth left - displayWidth right - 1;
                  compact0 = sp @ ''  ETA '' @ etaStr @ ''  '' @ bracketed bar pct;
                  compact = (if useColor then colorReplace compact0 sp (paint colorYellow sp) else compact0);
                  compactPad = termWidth - displayWidth left - displayWidth compact - 1;
                  short0 = ''Total: '' @ itoa cmpl @ ''/'' @ itoa n;
                  short = (if useColor then paint colorGreen short0 else short0);
                  minRight = bracketed bar pct;
                  minPad = termWidth - displayWidth short - displayWidth minRight - 1
              in if pad \<ge> 2 then left @ spaces pad @ right
                 else if compactPad \<ge> 1 then left @ spaces compactPad @ compact
                 else if minPad \<ge> 1 then short @ spaces minPad @ minRight
                 else pct)
           else if allDone then left @ ''  '' @ elStr @ ''  '' @ bracketed bar pct
           else left @ ''  |  '' @ (if useColor then paint colorYellow sp else sp) @ ''  |  ETA '' @ etaStr @ ''  '' @ elStr @ ''  '' @
             bracketed bar pct)
       (BarIndeterminate bytesDone totalSize barWidth (- 1) []))"

subsection \<open>The layout\<close>

definition layoutFor :: "int \<Rightarrow> int \<times> int \<times> lineLayout" where
  "layoutFor termWidth =
     (let (barW, nameW, lay) =
        (if termWidth \<ge> 96 then (BarWidth, termWidth - infoBlockWidthFor BarWidth - 1, LayoutFull)
         else if termWidth \<ge> 66 then
           (let barW = max minBarWidth (BarWidth - 10)
            in (barW, termWidth - (colGlyph + 2 + colSize + 2 + colConns + 1 + barW + 1 + 2 + colPct) - 1, LayoutNoSpeedETA))
         else if termWidth \<ge> 36 then
           (minBarWidth, termWidth - (colGlyph + 2 + colConns + 1 + minBarWidth + 1 + 2 + colPct) - 1, LayoutNameBarPct)
         else if termWidth \<ge> 12 then (0, termWidth - (colGlyph + 2 + colPct) - 1, LayoutNamePct)
         else (0, max (termWidth - 1) 1, LayoutPct))
      in (barW, if nameW < 4 \<and> lay \<noteq> LayoutPct then 4 else nameW, lay))"

subsection \<open>The snapshots\<close>

record viewStats =
  vs_completed :: int
  vs_total :: int
  vs_speed :: int
  vs_maxETA :: int
  vs_bytesDone :: int
  vs_totalSize :: int

definition add_view :: "ProgressView \<Rightarrow> viewStats \<Rightarrow> viewStats" where
  "add_view v st =
     \<lparr>vs_completed = vs_completed st + (if pv_State v = StateCompleted then 1 else 0),
      vs_total = vs_total st + 1,
      vs_speed = (if pv_State v \<noteq> StateCompleted then w64 (vs_speed st + pv_Speed v) else vs_speed st),
      vs_maxETA = (if pv_State v \<noteq> StateCompleted \<and> pv_ETA v > vs_maxETA st then pv_ETA v else vs_maxETA st),
      vs_bytesDone = w64 (vs_bytesDone st + pv_BytesDone v),
      vs_totalSize = (if pv_TotalSize v > 0 then w64 (vs_totalSize st + pv_TotalSize v) else vs_totalSize st)\<rparr>"

fun aggregate_from :: "string set \<Rightarrow> ProgressView list \<Rightarrow> viewStats \<Rightarrow> viewStats" where
  "aggregate_from seen [] st = st"
| "aggregate_from seen (v # vs) st =
     (if pv_ID v \<in> seen then aggregate_from seen vs st
      else aggregate_from (insert (pv_ID v) seen) vs (add_view v st))"

definition zero_stats :: viewStats where
  "zero_stats = \<lparr>vs_completed = 0, vs_total = 0, vs_speed = 0, vs_maxETA = 0, vs_bytesDone = 0, vs_totalSize = 0\<rparr>"

definition aggregate :: "ProgressView list \<Rightarrow> viewStats" where
  "aggregate view = aggregate_from {} view zero_stats"

definition isActive :: "ProgressView \<Rightarrow> bool" where
  "isActive v \<longleftrightarrow> pv_State v = StateCompleted \<or> pv_State v = StateError \<or> pv_BytesDone v \<noteq> 0 \<or> pv_Speed v \<noteq> 0"

type_synonym cache = "(string \<times> ProgressView) list"

record renderer =
  rd_useColor :: bool
  rd_tty :: bool
  rd_quiet :: bool
  rd_cache :: cache
  rd_lastLive :: "ProgressView list option"
  rd_lastQueue :: "ProgressView list option"
  rd_lastLines :: nat
  rd_tick :: int
  rd_startedAt :: "int option"
  rd_lastFlush :: "int option"
  rd_lastKey :: string

definition NewRenderer :: "bool \<Rightarrow> bool \<Rightarrow> bool \<Rightarrow> renderer" where
  "NewRenderer is_tty quiet no_color =
     (let tty = (\<not> quiet \<and> is_tty)
      in \<lparr>rd_useColor = tty \<and> \<not> no_color \<and> is_tty, rd_tty = tty, rd_quiet = quiet, rd_cache = [], rd_lastLive = None,
          rd_lastQueue = None, rd_lastLines = 0, rd_tick = 0, rd_startedAt = None, rd_lastFlush = None, rd_lastKey = []\<rparr>)"

text \<open>A range over a nil slice is a range over no elements.\<close>

definition elems :: "'a list option \<Rightarrow> 'a list" where
  "elems xs = (case xs of None \<Rightarrow> [] | Some ys \<Rightarrow> ys)"

definition cache_put :: "ProgressView \<Rightarrow> cache \<Rightarrow> cache" where
  "cache_put v c = filter (\<lambda>e. fst e \<noteq> pv_ID v) c @ [(pv_ID v, v)]"

definition ordered :: "renderer \<Rightarrow> ProgressView list" where
  "ordered r =
     (let liveV = elems (rd_lastLive r)
      in liveV @ sort_key pv_ID (map snd (filter (\<lambda>e. fst e \<notin> pv_ID ` set liveV) (rd_cache r))))"

definition retire :: "ProgressView \<Rightarrow> ProgressView" where
  "retire v = v\<lparr>pv_State := StateCompleted, pv_Connections := 0, pv_Speed := 0, pv_ETA := 0\<rparr>"

definition ended_state :: "ProgressView \<Rightarrow> bool" where
  "ended_state v \<longleftrightarrow> pv_State v = StateCompleted \<or> pv_State v = StateError"

definition promote_final :: "ProgressView \<Rightarrow> ProgressView" where
  "promote_final v =
     (if ended_state v then v else if pv_TotalSize v > 0 \<and> pv_BytesDone v \<ge> pv_TotalSize v then retire v else v)"

definition promote_vanished :: "ProgressView \<Rightarrow> ProgressView" where
  "promote_vanished v =
     (if ended_state v then v
      else if pv_TotalSize v > 0 \<and> pv_BytesDone v \<ge> pv_TotalSize v \<or> pv_TotalSize v \<le> 0 then retire v else v)"

definition clamp_queued :: "ProgressView \<Rightarrow> ProgressView" where
  "clamp_queued v = (if pv_State v = StateActive then v\<lparr>pv_State := StateQueued\<rparr> else v)"

definition updateCache :: "ProgressView list option \<Rightarrow> ProgressView list option \<Rightarrow> renderer \<Rightarrow> renderer" where
  "updateCache liveV queuedV r =
     (if liveV = None \<and> queuedV = None then
        r\<lparr>rd_cache := map (map_prod id promote_final) (rd_cache r), rd_lastLive := None, rd_lastQueue := None\<rparr>
      else
        (let c1 = fold cache_put (elems liveV) (rd_cache r);
             c2 = fold (\<lambda>v. cache_put (clamp_queued v)) (elems queuedV) c1;
             present = pv_ID ` set (elems liveV) \<union> pv_ID ` set (elems queuedV);
             c3 = map (\<lambda>(i, v). (i, if i \<in> present then v else promote_vanished v)) c2
         in r\<lparr>rd_cache := c3, rd_lastLive := liveV, rd_lastQueue := queuedV\<rparr>))"

subsection \<open>The size of the terminal (termsize.go)\<close>

text \<open>What the kernel answers to TIOCGWINSZ on a file, None for an error or on a system other than Linux; the numbers
  are uint16. A writer that is no file has no descriptor to ask about.\<close>

record winsize =
  ws_row :: nat
  ws_col :: nat

datatype writer = NoFile | OnFile "winsize option"

definition ioctlWinSize :: "winsize option \<Rightarrow> (int \<times> int) option" where
  "ioctlWinSize answer =
     (case answer of None \<Rightarrow> None | Some ws \<Rightarrow> if ws_col ws = 0 then None else Some (int (ws_col ws), int (ws_row ws)))"

definition terminalSize :: "writer \<Rightarrow> (int \<times> int) option" where
  "terminalSize w = (case w of NoFile \<Rightarrow> None | OnFile answer \<Rightarrow> ioctlWinSize answer)"

definition MinTerminalWidth :: int where "MinTerminalWidth = 80"
definition MinTerminalHeight :: int where "MinTerminalHeight = 24"

definition rendererSize :: "writer \<Rightarrow> int \<times> int" where
  "rendererSize w =
     (case terminalSize w of
        Some (c, r) \<Rightarrow> if c > 0 then (c - 1, r) else (MinTerminalWidth - 1, MinTerminalHeight)
      | None \<Rightarrow> (MinTerminalWidth - 1, MinTerminalHeight))"

subsection \<open>Frames\<close>

datatype term_op = Return | UpClear | Line string | HideCursor | ShowCursor

definition sizelessPos :: "ProgressView \<Rightarrow> int \<Rightarrow> int" where
  "sizelessPos v pos = (if pv_TotalSize v \<le> 0 then pos else - 1)"

fun task_rows :: "(ProgressView \<Rightarrow> string option) \<Rightarrow> int \<Rightarrow> ProgressView list \<Rightarrow> string list \<Rightarrow> int \<Rightarrow> (string list \<times> int) option" where
  "task_rows render budget [] ls hidden = Some (ls, hidden)"
| "task_rows render budget (v # vs) ls hidden =
     (if \<not> isActive v then task_rows render budget vs ls hidden
      else if int (length ls) \<ge> budget then task_rows render budget vs ls (hidden + 1)
      else case render v of
        None \<Rightarrow> None
      | Some l \<Rightarrow> task_rows render budget vs (ls @ [l]) hidden)"

definition row_budget :: "int \<Rightarrow> viewStats \<Rightarrow> int" where
  "row_budget height st =
     (let b0 = (if height < 1 then 1 else height);
          b1 = (if vs_total st > 0 then b0 - 1 else b0)
      in if b1 - 1 < 0 then 0 else b1 - 1)"

definition elapsed_at :: "int \<Rightarrow> renderer \<Rightarrow> int" where
  "elapsed_at now r = (case rd_startedAt r of None \<Rightarrow> 0 | Some t \<Rightarrow> now - t)"

definition row_text :: "int \<Rightarrow> renderer \<Rightarrow> ProgressView \<Rightarrow> string option" where
  "row_text width r v =
     (let (barW, nameWidth, lay) = layoutFor width
      in map_option (\<lambda>l. truncateToWidth l width)
           (renderTaskLine v (rd_useColor r) (sizelessPos v (bouncePosition (rd_tick r) barW)) nameWidth barW lay))"

definition summary_line :: "int \<Rightarrow> renderer \<Rightarrow> viewStats \<Rightarrow> int \<Rightarrow> int \<Rightarrow> string option" where
  "summary_line now r st width barW =
     renderSummaryWidth (vs_completed st) (vs_total st) (vs_speed st) (vs_maxETA st) (elapsed_at now r) (vs_bytesDone st)
       (vs_totalSize st) (rd_useColor r) width barW"

definition summary_rows :: "int \<Rightarrow> int \<Rightarrow> renderer \<Rightarrow> viewStats \<Rightarrow> string list option" where
  "summary_rows width now r st =
     (if vs_total st > 0 then map_option (\<lambda>l. [truncateToWidth l width]) (summary_line now r st width (fst (layoutFor width)))
      else Some [])"

definition composeLines :: "int \<times> int \<Rightarrow> int \<Rightarrow> renderer \<Rightarrow> ProgressView list \<Rightarrow> string list option" where
  "composeLines dims now r view =
     (let width = fst dims; st = aggregate view
      in case task_rows (row_text width r) (row_budget (snd dims) st) view [] 0 of
           None \<Rightarrow> None
         | Some (rows, hidden) \<Rightarrow>
             map_option (\<lambda>summary. rows @ summary @ (if hidden > 0 then [truncateToWidth (itoa hidden @ '' more...'') width] else []))
               (summary_rows width now r st))"

definition nonTTYInterval :: int where "nonTTYInterval = 2 * second"

definition emitNonTTY :: "int \<Rightarrow> bool \<Rightarrow> ProgressView list \<Rightarrow> renderer \<Rightarrow> (term_op list \<times> renderer) option" where
  "emitNonTTY now final view r =
     (let st = aggregate view;
          key = itoa (vs_completed st) @ ''|'' @ itoa (vs_total st);
          intervalElapsed = (case rd_lastFlush r of None \<Rightarrow> False | Some t \<Rightarrow> now - t \<ge> nonTTYInterval);
          milestone = (key \<noteq> rd_lastKey r)
      in if \<not> final \<and> \<not> intervalElapsed \<and> \<not> milestone then Some ([], r)
         else do {
           summary \<leftarrow> summary_line now r st 0 BarWidth;
           rows \<leftarrow> (if final \<or> milestone
             then map_option ((#) ''---'') (those (map (\<lambda>v. renderTaskLine v (rd_useColor r) (- 1) 40 BarWidth LayoutFull) (filter isActive view)))
             else Some []);
           Some (map Line (rows @ [summary]), r\<lparr>rd_lastFlush := Some now, rd_lastKey := key\<rparr>)
         })"

definition draw :: "nat \<Rightarrow> string list \<Rightarrow> term_op list" where
  "draw old rows = Return # replicate old UpClear @ map Line rows"

definition Frame ::
  "int \<times> int \<Rightarrow> int \<Rightarrow> ProgressView list option \<Rightarrow> ProgressView list option \<Rightarrow> renderer \<Rightarrow> (term_op list \<times> renderer) option" where
  "Frame dims now liveV queuedV r =
     (if rd_quiet r then Some ([], r)
      else
        (let r1 = updateCache liveV queuedV (r\<lparr>rd_lastLive := liveV, rd_lastQueue := queuedV\<rparr>);
             view = ordered r1
         in if \<not> rd_tty r1 then emitNonTTY now (liveV = None \<and> queuedV = None) view r1
            else map_option (\<lambda>rows. (draw (rd_lastLines r1) rows, r1\<lparr>rd_lastLines := length rows, rd_tick := rd_tick r1 + 1\<rparr>))
                   (composeLines dims now r1 view)))"

definition strip_newlines :: "string \<Rightarrow> string" where
  "strip_newlines l = rev (dropWhile (\<lambda>c. c = CHR 0x0A) (rev l))"

definition Interject :: "int \<times> int \<Rightarrow> int \<Rightarrow> string \<Rightarrow> renderer \<Rightarrow> (term_op list \<times> renderer) option" where
  "Interject dims now l0 r =
     (let l = strip_newlines l0
      in if l = [] \<or> rd_quiet r then Some ([], r)
         else if \<not> rd_tty r then Some ([Line l], r)
         else map_option (\<lambda>rows. (draw (rd_lastLines r) (l # rows), r\<lparr>rd_lastLines := length rows\<rparr>))
                (composeLines dims now r (ordered r)))"

definition Begin :: "renderer \<Rightarrow> term_op list \<times> renderer" where
  "Begin r = (if rd_tty r then [HideCursor] else [], r)"

definition End :: "renderer \<Rightarrow> term_op list \<times> renderer" where
  "End r = (if rd_tty r then ([ShowCursor, Line []], r\<lparr>rd_lastLines := rd_lastLines r + 1\<rparr>) else ([Line []], r))"

definition Live :: "renderer \<Rightarrow> bool" where
  "Live r \<longleftrightarrow> rd_tty r \<and> \<not> rd_quiet r"

subsection \<open>One owner of the screen\<close>

text \<open>
  A terminal as the rows above the cursor: a line goes below them, an erasing cursor-up takes the last one away. The
  specification keeps the log lines and the current frame apart.
\<close>

fun apply_op :: "term_op \<Rightarrow> string list \<Rightarrow> string list" where
  "apply_op UpClear rows = butlast rows"
| "apply_op (Line l) rows = rows @ [l]"
| "apply_op _ rows = rows"

definition play :: "term_op list \<Rightarrow> string list \<Rightarrow> string list" where
  "play ops rows = fold apply_op ops rows"

record display =
  dp_renderer :: renderer
  dp_rows :: "string list"
  dp_log :: "string list"
  dp_frame :: "string list"

inductive display_step :: "display \<Rightarrow> display \<Rightarrow> bool" where
  frame: "Frame dims now liveV queuedV (dp_renderer d) = Some (ops, r) \<Longrightarrow>
    composeLines dims now (updateCache liveV queuedV ((dp_renderer d)\<lparr>rd_lastLive := liveV, rd_lastQueue := queuedV\<rparr>))
      (ordered (updateCache liveV queuedV ((dp_renderer d)\<lparr>rd_lastLive := liveV, rd_lastQueue := queuedV\<rparr>))) = Some rows \<Longrightarrow>
    display_step d (d\<lparr>dp_renderer := r, dp_rows := play ops (dp_rows d), dp_frame := rows\<rparr>)"
| interject: "Interject dims now l (dp_renderer d) = Some (ops, r) \<Longrightarrow> strip_newlines l \<noteq> [] \<Longrightarrow>
    composeLines dims now (dp_renderer d) (ordered (dp_renderer d)) = Some rows \<Longrightarrow>
    display_step d (d\<lparr>dp_renderer := r, dp_rows := play ops (dp_rows d), dp_log := dp_log d @ [strip_newlines l], dp_frame := rows\<rparr>)"
| empty_line: "Interject dims now l (dp_renderer d) = Some (ops, r) \<Longrightarrow> strip_newlines l = [] \<Longrightarrow>
    display_step d (d\<lparr>dp_renderer := r, dp_rows := play ops (dp_rows d)\<rparr>)"
| begin_run: "Begin (dp_renderer d) = (ops, r) \<Longrightarrow> display_step d (d\<lparr>dp_renderer := r, dp_rows := play ops (dp_rows d)\<rparr>)"
| end_run: "End (dp_renderer d) = (ops, r) \<Longrightarrow>
    display_step d (d\<lparr>dp_renderer := r, dp_rows := play ops (dp_rows d), dp_frame := dp_frame d @ [[]]\<rparr>)"

lemma play_erase: "length b = n \<Longrightarrow> (apply_op UpClear ^^ n) (a @ b) = a"
proof (induction n arbitrary: b)
  case (Suc n)
  then obtain b' x where "b = b' @ [x]" "length b' = n" by (metis length_Suc_conv_rev)
  then have "apply_op UpClear (a @ b) = a @ b'" by (simp add: append_assoc [symmetric] del: append_assoc)
  then show ?case using Suc.IH [of b'] \<open>length b' = n\<close> by (simp add: funpow_swap1)
qed simp

lemma play_lines: "fold apply_op (map Line ls) rows = rows @ ls"
  by (induction ls arbitrary: rows) auto

lemma play_draw: "length b = n \<Longrightarrow> play (draw n ls) (a @ b) = a @ ls"
  by (simp add: play_def draw_def play_erase play_lines)

definition display_ok :: "string list \<Rightarrow> display \<Rightarrow> bool" where
  "display_ok rows0 d \<longleftrightarrow> rd_tty (dp_renderer d) \<and> \<not> rd_quiet (dp_renderer d) \<and>
     dp_rows d = rows0 @ dp_log d @ dp_frame d \<and> length (dp_frame d) = rd_lastLines (dp_renderer d)"

lemma updateCache_admin [simp]:
  "rd_tty (updateCache l q r) = rd_tty r" "rd_quiet (updateCache l q r) = rd_quiet r"
  "rd_lastLines (updateCache l q r) = rd_lastLines r" "rd_useColor (updateCache l q r) = rd_useColor r"
  by (simp_all add: updateCache_def Let_def)

lemma display_step_ok:
  assumes "display_step d d'" "display_ok rows0 d"
  shows "display_ok rows0 d'"
  using assms
proof (induction rule: display_step.induct)
  case (frame dims now liveV queuedV d ops r rows)
  define r1 where "r1 = updateCache liveV queuedV ((dp_renderer d)\<lparr>rd_lastLive := liveV, rd_lastQueue := queuedV\<rparr>)"
  have a: "rd_tty r1" "\<not> rd_quiet (dp_renderer d)" "rd_lastLines r1 = rd_lastLines (dp_renderer d)" "\<not> rd_quiet r1"
    using frame(3) by (simp_all add: display_ok_def r1_def)
  have o: "ops = draw (rd_lastLines r1) rows" "r = r1\<lparr>rd_lastLines := length rows, rd_tick := rd_tick r1 + 1\<rparr>"
    using frame(1,2) a by (simp_all add: Frame_def Let_def r1_def [symmetric])
  have "play ops ((rows0 @ dp_log d) @ dp_frame d) = (rows0 @ dp_log d) @ rows"
    using play_draw [of "dp_frame d" "rd_lastLines r1" rows "rows0 @ dp_log d"] frame(3) a o by (simp add: display_ok_def)
  then show ?case using frame(3) a o by (simp add: display_ok_def)
next
  case (interject dims now l d ops r rows)
  have o: "ops = draw (rd_lastLines (dp_renderer d)) (strip_newlines l # rows)" "r = (dp_renderer d)\<lparr>rd_lastLines := length rows\<rparr>"
    using interject(1-4) by (simp_all add: Interject_def Let_def display_ok_def)
  have "play ops ((rows0 @ dp_log d) @ dp_frame d) = (rows0 @ dp_log d) @ strip_newlines l # rows"
    unfolding o using interject(4) by (intro play_draw) (simp add: display_ok_def)
  then show ?case using interject(4) o by (simp add: display_ok_def)
next
  case (empty_line dims now l d ops r)
  then show ?case by (auto simp: Interject_def Let_def display_ok_def play_def)
next
  case (begin_run d ops r)
  then show ?case by (auto simp: Begin_def display_ok_def play_def)
next
  case (end_run d ops r)
  then show ?case by (auto simp: End_def display_ok_def play_def)
qed


subsection \<open>A frame fits\<close>

lemma task_rows_facts:
  assumes "task_rows render budget vs ls hidden = Some (rows, h)" "int (length ls) \<le> max budget 0" "\<forall>l \<in> set ls. P l"
    "\<And>v l. render v = Some l \<Longrightarrow> P l"
  shows "int (length rows) \<le> max budget 0 \<and> (\<forall>l \<in> set rows. P l)"
  using assms
proof (induction render budget vs ls hidden arbitrary: rows h rule: task_rows.induct)
  case (2 render budget v vs ls hidden)
  show ?case
  proof (cases "isActive v \<and> int (length ls) < budget")
    case True
    then obtain l where l: "render v = Some l" "task_rows render budget vs (ls @ [l]) hidden = Some (rows, h)"
      using "2.prems"(1) by (auto split: option.splits)
    then show ?thesis using "2.IH"(3) [of l rows h] True "2.prems"(3,4) by auto
  next
    case False
    then show ?thesis using 2 by (auto split: if_splits)
  qed
qed auto

lemma row_budget_nonneg: "0 \<le> row_budget height st"
  by (simp add: row_budget_def Let_def)

lemma frame_rows:
  assumes "composeLines (width, height) now r view = Some rows" and "2 \<le> height" and "0 < width"
  shows "int (length rows) \<le> height
    \<and> (\<forall>l. l \<in> set rows \<longrightarrow> displayWidth l \<le> width + 1 \<and> (list_all printable l \<longrightarrow> displayWidth l \<le> width))"
proof -
  define P where "P = (\<lambda>l. displayWidth l \<le> width + 1 \<and> (list_all printable l \<longrightarrow> displayWidth l \<le> width))"
  have cut: "P (truncateToWidth l width)" for l
    using truncateToWidth_cells [OF assms(3), of l] truncateToWidth_printable [OF assms(3), of l] by (simp add: P_def)
  define st where "st = aggregate view"
  obtain ls hidden summary where c: "task_rows (row_text width r) (row_budget height st) view [] 0 = Some (ls, hidden)"
    "summary_rows width now r st = Some summary"
    "rows = ls @ summary @ (if hidden > 0 then [truncateToWidth (itoa hidden @ '' more...'') width] else [])"
    using assms(1) by (auto simp: composeLines_def Let_def st_def split: option.splits)
  have p: "P l" if "row_text width r v = Some l" for v l
    using that cut by (auto simp: row_text_def Let_def split: prod.splits)
  have "int (length ls) \<le> max (row_budget height st) 0 \<and> (\<forall>l \<in> set ls. P l)"
    by (rule task_rows_facts [OF c(1)]) (simp_all add: p)
  then have l: "int (length ls) \<le> row_budget height st \<and> (\<forall>l \<in> set ls. P l)"
    using row_budget_nonneg [of height st] by simp
  have s: "length summary = (if vs_total st > 0 then 1 else 0) \<and> (\<forall>l \<in> set summary. P l)"
    using c(2) cut by (auto simp: summary_rows_def split: if_splits)
  have "row_budget height st = (if vs_total st > 0 then height - 2 else height - 1)"
    using assms(2) by (simp add: row_budget_def Let_def)
  then have "int (length rows) \<le> height" using l s by (auto simp: c(3))
  moreover have "\<forall>l \<in> set rows. P l" using l s cut by (auto simp: c(3))
  ultimately show ?thesis by (auto simp: P_def)
qed

subsection \<open>No task is forgotten\<close>

definition cache_ok :: "renderer \<Rightarrow> bool" where
  "cache_ok r \<longleftrightarrow> distinct (map fst (rd_cache r)) \<and> list_all (\<lambda>(i, v). pv_ID v = i) (rd_cache r) \<and>
     pv_ID ` set (elems (rd_lastLive r)) \<subseteq> fst ` set (rd_cache r) \<and> distinct (map pv_ID (elems (rd_lastLive r)))"

definition show_frame :: "ProgressView list option \<times> ProgressView list option \<Rightarrow> renderer \<Rightarrow> renderer" where
  "show_frame lq r = updateCache (fst lq) (snd lq) (r\<lparr>rd_lastLive := fst lq, rd_lastQueue := snd lq\<rparr>)"

definition sent :: "ProgressView list option \<times> ProgressView list option \<Rightarrow> string set" where
  "sent lq = pv_ID ` (set (elems (fst lq)) \<union> set (elems (snd lq)))"

definition keyed :: "cache \<Rightarrow> bool" where
  "keyed c \<longleftrightarrow> distinct (map fst c) \<and> list_all (\<lambda>(i, v). pv_ID v = i) c"

lemma same_id [simp]:
  "pv_ID (retire v) = pv_ID v" "pv_ID (promote_final v) = pv_ID v" "pv_ID (promote_vanished v) = pv_ID v" "pv_ID (clamp_queued v) = pv_ID v"
  by (simp_all add: retire_def promote_final_def promote_vanished_def clamp_queued_def)

lemma cache_put_keyed:
  assumes "keyed c"
  shows "keyed (cache_put v c)" "fst ` set (cache_put v c) = insert (pv_ID v) (fst ` set c)"
  using assms by (auto simp: keyed_def cache_put_def list_all_iff distinct_mono_filter)

lemma fold_put_keyed:
  assumes "keyed c" "\<And>v. pv_ID (f v) = pv_ID v"
  shows "keyed (fold (\<lambda>v. cache_put (f v)) vs c)
     \<and> fst ` set (fold (\<lambda>v. cache_put (f v)) vs c) = fst ` set c \<union> pv_ID ` set vs"
  using assms(1)
proof (induction vs arbitrary: c)
  case (Cons v vs)
  then show ?case using Cons.IH [OF cache_put_keyed(1) [OF Cons.prems, of "f v"]] cache_put_keyed(2) [OF Cons.prems, of "f v"] assms(2)
    by auto
qed simp

lemma keyed_map: "keyed c \<Longrightarrow> (\<And>i v. pv_ID (g i v) = pv_ID v) \<Longrightarrow>
    keyed (map (\<lambda>(i, v). (i, g i v)) c) \<and> fst ` set (map (\<lambda>(i, v). (i, g i v)) c) = fst ` set c"
proof -
  assume k: "keyed c" "\<And>i v. pv_ID (g i v) = pv_ID v"
  have m: "map fst (map (\<lambda>(i, v). (i, g i v)) c) = map fst c" by (induction c) auto
  then have "fst ` set (map (\<lambda>(i, v). (i, g i v)) c) = fst ` set c" by (metis set_map)
  moreover have "keyed (map (\<lambda>(i, v). (i, g i v)) c)" using k unfolding keyed_def m by (auto simp: list_all_iff)
  ultimately show ?thesis by blast
qed

lemma fold_put_other: "(i, v) \<in> set c \<Longrightarrow> i \<notin> pv_ID ` set vs \<Longrightarrow> (\<And>v. pv_ID (f v) = pv_ID v) \<Longrightarrow>
    (i, v) \<in> set (fold (\<lambda>v. cache_put (f v)) vs c)"
  by (induction vs arbitrary: c) (auto simp: cache_put_def)

lemma show_frame_facts:
  assumes "cache_ok r" "distinct (map pv_ID (elems (fst lq)))"
  shows "cache_ok (show_frame lq r)" "fst ` set (rd_cache (show_frame lq r)) = fst ` set (rd_cache r) \<union> sent lq"
    "(i, v) \<in> set (rd_cache r) \<Longrightarrow> ended_state v \<Longrightarrow> i \<notin> sent lq \<Longrightarrow> (i, v) \<in> set (rd_cache (show_frame lq r))"
proof -
  obtain l q where lq: "lq = (l, q)" by (cases lq)
  have k: "keyed (rd_cache r)" using assms(1) by (simp add: cache_ok_def keyed_def)
  have "cache_ok (show_frame lq r) \<and> fst ` set (rd_cache (show_frame lq r)) = fst ` set (rd_cache r) \<union> sent lq \<and>
      ((i, v) \<in> set (rd_cache r) \<longrightarrow> ended_state v \<longrightarrow> i \<notin> sent lq \<longrightarrow> (i, v) \<in> set (rd_cache (show_frame lq r)))"
  proof (cases "l = None \<and> q = None")
    case True
    define c where "c = map (map_prod id promote_final) (rd_cache r)"
    have e: "show_frame lq r = r\<lparr>rd_cache := c, rd_lastLive := None, rd_lastQueue := None\<rparr>"
      using True by (simp add: lq show_frame_def updateCache_def c_def)
    have "c = map (\<lambda>(i, v). (i, promote_final v)) (rd_cache r)" by (simp add: c_def map_prod_def)
    then have c: "keyed c" "fst ` set c = fst ` set (rd_cache r)" using keyed_map [OF k, of "\<lambda>i. promote_final"] by simp_all
    have "(i, v) \<in> set c" if "(i, v) \<in> set (rd_cache r)" "ended_state v"
      using that by (force simp: c_def promote_final_def)
    moreover have "sent lq = {}" using True by (simp add: lq sent_def elems_def)
    ultimately show ?thesis using c by (simp add: e cache_ok_def keyed_def elems_def)
  next
    case False
    define c1 where "c1 = fold cache_put (elems l) (rd_cache r)"
    define c2 where "c2 = fold (\<lambda>v. cache_put (clamp_queued v)) (elems q) c1"
    define present where "present = pv_ID ` set (elems l) \<union> pv_ID ` set (elems q)"
    define c3 where "c3 = map (\<lambda>(i, v). (i, if i \<in> present then v else promote_vanished v)) c2"
    have e: "show_frame lq r = r\<lparr>rd_cache := c3, rd_lastLive := l, rd_lastQueue := q\<rparr>"
      unfolding lq show_frame_def updateCache_def fst_conv snd_conv if_not_P [OF False] Let_def c3_def c2_def c1_def present_def
      by simp
    have c1: "keyed c1" "fst ` set c1 = fst ` set (rd_cache r) \<union> pv_ID ` set (elems l)"
      using fold_put_keyed [OF k, of "\<lambda>v. v" "elems l"] by (simp_all add: c1_def)
    have c2: "keyed c2" "fst ` set c2 = fst ` set c1 \<union> pv_ID ` set (elems q)"
      using fold_put_keyed [OF c1(1), of clamp_queued "elems q"] by (simp_all add: c2_def)
    have c3: "keyed c3" "fst ` set c3 = fst ` set c2"
      using keyed_map [OF c2(1), of "\<lambda>i v. if i \<in> present then v else promote_vanished v"] by (simp_all add: c3_def)
    have stay: "(i, v) \<in> set c3" if "(i, v) \<in> set (rd_cache r)" "ended_state v" "i \<notin> sent lq"
    proof -
      have n: "i \<notin> present" using that(3) by (auto simp: present_def sent_def lq)
      then have "(i, v) \<in> set c1" using fold_put_other [OF that(1), of "elems l" "\<lambda>v. v"] by (simp add: c1_def present_def)
      then have "(i, v) \<in> set c2" using fold_put_other [of i v c1 "elems q" clamp_queued] n by (simp add: c2_def present_def)
      then show ?thesis using n that(2) by (force simp: c3_def promote_vanished_def)
    qed
    have "fst ` set c3 = fst ` set (rd_cache r) \<union> sent lq" by (auto simp: c1(2) c2(2) c3(2) sent_def lq)
    moreover have "distinct (map pv_ID (elems l))" "pv_ID ` set (elems l) \<subseteq> sent lq" using assms(2) by (auto simp: lq sent_def)
    ultimately show ?thesis using c3 stay by (auto simp: e cache_ok_def keyed_def)
  qed
  then show "cache_ok (show_frame lq r)" "fst ` set (rd_cache (show_frame lq r)) = fst ` set (rd_cache r) \<union> sent lq"
    "(i, v) \<in> set (rd_cache r) \<Longrightarrow> ended_state v \<Longrightarrow> i \<notin> sent lq \<Longrightarrow> (i, v) \<in> set (rd_cache (show_frame lq r))" by blast+
qed

lemma ordered_ids:
  assumes "cache_ok r"
  shows "distinct (map pv_ID (ordered r))" "pv_ID ` set (ordered r) = fst ` set (rd_cache r)"
proof -
  define others where "others = map snd (filter (\<lambda>e. fst e \<notin> pv_ID ` set (elems (rd_lastLive r))) (rd_cache r))"
  have k: "distinct (map fst (rd_cache r))" "\<And>e. e \<in> set (rd_cache r) \<Longrightarrow> pv_ID (snd e) = fst e"
    using assms by (auto simp: cache_ok_def list_all_iff)
  have m: "map pv_ID others = map fst (filter (\<lambda>e. fst e \<notin> pv_ID ` set (elems (rd_lastLive r))) (rd_cache r))"
    using k(2) by (simp add: others_def)
  then have d: "distinct (map pv_ID others)" using k(1) by (simp add: distinct_mono_filter)
  then have "distinct (map pv_ID (sort_key pv_ID others))" by (simp add: distinct_map)
  moreover have "pv_ID ` set others = fst ` set (rd_cache r) - pv_ID ` set (elems (rd_lastLive r))"
  proof -
    have "pv_ID ` set others = fst ` set (filter (\<lambda>e. fst e \<notin> pv_ID ` set (elems (rd_lastLive r))) (rd_cache r))"
      using m by (metis set_map)
    then show ?thesis by auto
  qed
  ultimately show "distinct (map pv_ID (ordered r))" "pv_ID ` set (ordered r) = fst ` set (rd_cache r)"
    using assms by (auto simp: ordered_def Let_def others_def [symmetric] cache_ok_def image_Un)
qed

lemma aggregate_total: "vs_total (aggregate_from seen vs st) = vs_total st + int (card (pv_ID ` set vs - seen))"
proof (induction seen vs st rule: aggregate_from.induct)
  case (2 seen v vs st)
  show ?case
  proof (cases "pv_ID v \<in> seen")
    case True
    then show ?thesis using 2(1) by (simp add: insert_Diff_if)
  next
    case False
    have "pv_ID ` set (v # vs) - seen = insert (pv_ID v) (pv_ID ` set vs - insert (pv_ID v) seen)" using False by auto
    then have "card (pv_ID ` set (v # vs) - seen) = Suc (card (pv_ID ` set vs - insert (pv_ID v) seen))" by simp
    then show ?thesis using 2(2) False by (simp add: add_view_def)
  qed
qed simp

definition sent_ids :: "(ProgressView list option \<times> ProgressView list option) list \<Rightarrow> string set" where
  "sent_ids frames = (\<Union>lq \<in> set frames. sent lq)"

lemma show_frames_facts:
  assumes "\<forall>lq \<in> set frames. distinct (map pv_ID (elems (fst lq)))" "cache_ok r"
  shows "cache_ok (fold show_frame frames r) \<and> fst ` set (rd_cache (fold show_frame frames r)) = fst ` set (rd_cache r) \<union> sent_ids frames"
  using assms
proof (induction frames arbitrary: r)
  case (Cons lq frames)
  then show ?case using show_frame_facts(1,2) [of r lq] by (auto simp: sent_ids_def)
qed (simp add: sent_ids_def)


subsection \<open>When drawing panics\<close>

lemma conn_cell_None: "conn_cell v = None \<longleftrightarrow> 1000 \<le> pv_Connections v \<and> pv_State v \<noteq> StateCompleted"
proof -
  have "length (itoa i) \<le> 3 \<longleftrightarrow> i < 1000" if "0 < i" for i
    using that length_nat_digits [of "nat i"] by (simp add: itoa_def) linarith
  then have "0 < pv_Connections v \<Longrightarrow> 3 < length (itoa (pv_Connections v)) \<longleftrightarrow> 1000 \<le> pv_Connections v"
    by (metis not_le)
  then show ?thesis by (auto simp: conn_cell_def Repeat_def colConns_def Let_def)
qed

text \<open>Drawing a task line succeeds for every snapshot but one kind: the indicator of a running task has room for three
  digits, and from a thousand connections on the padding count is negative and strings.Repeat panics.\<close>

lemma task_line_panics_iff:
  "renderTaskLine v useColor pos nameWidth barWidth lay = None \<longleftrightarrow> 1000 \<le> pv_Connections v \<and> pv_State v \<noteq> StateCompleted"
proof (cases "conn_cell v")
  case None
  then show ?thesis using conn_cell_None [of v] by (simp add: renderTaskLine_def Let_def split_beta)
next
  case (Some c)
  define bw where "bw = (if barWidth < 2 \<and> has_bar lay then 2 else barWidth)"
  obtain bar where "BarIndeterminate (pv_BytesDone v) (pv_TotalSize v) bw pos [] = Some bar"
    using BarIndeterminate_returns by blast
  then have "renderTaskLine v useColor pos nameWidth barWidth lay \<noteq> None"
    using Some by (simp add: renderTaskLine_def Let_def split_beta bw_def)
  moreover have "\<not> (1000 \<le> pv_Connections v \<and> pv_State v \<noteq> StateCompleted)" using Some conn_cell_None [of v] by simp
  ultimately show ?thesis by blast
qed

text \<open>With fewer connections every frame can be drawn.\<close>

definition drawable :: "ProgressView \<Rightarrow> bool" where
  "drawable v \<longleftrightarrow> pv_Connections v < 1000 \<or> pv_State v = StateCompleted"

lemma task_rows_returns:
  "\<forall>v \<in> set vs. \<exists>l. render v = Some l \<Longrightarrow> task_rows render budget vs ls hidden \<noteq> None"
  by (induction render budget vs ls hidden rule: task_rows.induct) (auto split: option.split)

lemma composeLines_returns:
  assumes "list_all drawable view"
  shows "\<exists>rows. composeLines dims now r view = Some rows"
proof -
  have "row_text width r v \<noteq> None" if "v \<in> set view" for v width
  proof -
    have "\<not> (1000 \<le> pv_Connections v \<and> pv_State v \<noteq> StateCompleted)" using assms that by (auto simp: list_all_iff drawable_def)
    then show ?thesis by (simp add: row_text_def Let_def split_beta task_line_panics_iff del: not_None_eq)
  qed
  then obtain ls h where "task_rows (row_text (fst dims) r) (row_budget (snd dims) (aggregate view)) view [] 0 = Some (ls, h)"
    using task_rows_returns [of view "row_text (fst dims) r" "row_budget (snd dims) (aggregate view)" "[]" 0] by auto
  moreover have "summary_rows (fst dims) now r (aggregate view) \<noteq> None"
  proof -
    have "renderSummaryWidth a b c d e f g h i j \<noteq> None" for a b c d e f g h i j
      unfolding renderSummaryWidth_def Let_def option.map_disc_iff using BarIndeterminate_returns by simp
    then show ?thesis by (simp add: summary_rows_def summary_line_def del: not_None_eq)
  qed
  ultimately show ?thesis by (auto simp: composeLines_def Let_def)
qed


text \<open>The numbers fit their columns. For every int64 the speed and the remaining time are shown whole, padded on the
  left to exactly the width of their columns; a file size has at most ten cells and a size column of the prompt has room for it.\<close>

theorem columns_fit:
  assumes "b < 2 ^ 63" and "d < 2 ^ 63"
  shows "fitWidth (FormatSpeed b) colSpeed = spaces (colSpeed - displayWidth (FormatSpeed b)) @ FormatSpeed b
    \<and> displayWidth (fitWidth (FormatSpeed b) colSpeed) = colSpeed
    \<and> fitWidth (FormatDuration d) colETA = spaces (colETA - displayWidth (FormatDuration d)) @ FormatDuration d
    \<and> displayWidth (fitWidth (FormatDuration d) colETA) = colETA
    \<and> displayWidth (FormatFileSize b) \<le> 10"
proof -
  have "printable (CHR ''/'')" "printable (CHR ''s'')" "printable (CHR ''?'')" by (simp_all add: printable_def octet_def)
  then have s: "list_all printable (FormatSpeed b)" "length (FormatSpeed b) \<le> 12"
    using FormatFileSize_fits [OF assms(1)] by (auto simp: FormatSpeed_def unknownGlyph_def)
  have whole: "fitWidth t w = spaces (w - displayWidth t) @ t" if "list_all printable t" "int (length t) \<le> w" "0 < w" for t w
    using that by (simp add: fitWidth_def Let_def displayWidth_printable) (auto simp: spaces_def)
  note d = FormatDuration_fits [OF assms(2)] and c = colSpeed_def colETA_def
  have "fitWidth (FormatSpeed b) colSpeed = spaces (colSpeed - displayWidth (FormatSpeed b)) @ FormatSpeed b"
    using s by (intro whole) (simp_all add: c)
  moreover have "fitWidth (FormatDuration d) colETA = spaces (colETA - displayWidth (FormatDuration d)) @ FormatDuration d"
    using d by (intro whole) (simp_all add: c)
  moreover have "displayWidth (fitWidth (FormatSpeed b) colSpeed) = colSpeed" using s by (intro fitWidth_exact) (simp_all add: c)
  moreover have "displayWidth (fitWidth (FormatDuration d) colETA) = colETA" using d by (intro fitWidth_exact) (simp_all add: c)
  ultimately show ?thesis using FormatFileSize_fits [OF assms(1)] displayWidth_printable [of "FormatFileSize b"] by simp
qed

theorem columns_fit_witness: "displayWidth (fitWidth (FormatSpeed 1048524) colSpeed) = colSpeed"
  using columns_fit [of 1048524 0] by fastforce

subsection \<open>A display in use\<close>

definition demo_view :: ProgressView where
  "demo_view = \<lparr>pv_ID = ''odm-001'', pv_URL = ''http://h/f'', pv_FinalURL = [], pv_Filename = ''f'', pv_State = StateActive,
     pv_TotalSize = 100, pv_BytesDone = 42, pv_Speed = 7, pv_Connections = 8, pv_ETA = 8000000000, pv_Errors = 0, pv_Retries = 0,
     pv_SingleStream = False\<rparr>"

lemma demo_drawable: "list_all drawable [demo_view]"
  by (simp add: drawable_def demo_view_def)


lemma demo_ordered:
  "ordered (updateCache (Some [demo_view]) None ((NewRenderer True False True)\<lparr>rd_lastLive := Some [demo_view], rd_lastQueue := None\<rparr>)) = [demo_view]"
  by (simp add: updateCache_def ordered_def elems_def cache_put_def NewRenderer_def Let_def)



end
