(* ===== verification/Prompt.thy ===== *)
theory Prompt imports Ui_Render begin

section \<open>The confirmation prompt (internal/ui/confirm.go)\<close>

text \<open>
  What the prompt writes and what it decides. The reader is given by the tokens a scanner makes of it, one for each line
  typed, and how it ends: end of file, or a read error. A result of None is the panic of strings.Repeat.
\<close>

definition newline :: string where "newline = [CHR 0x0A]"

text \<open>The em dash, in UTF-8.\<close>

definition em_dash :: string where "em_dash = [CHR 0xE2, CHR 0x80, CHR 0x94]"

subsection \<open>Asking\<close>

datatype reading = Yes | No | Unclear

definition read_answer :: "string \<Rightarrow> reading" where
  "read_answer line =
     (let a = trim_space (to_lower line)
      in if a = [] \<or> a = ''y'' \<or> a = ''yes'' then Yes else if a = ''n'' \<or> a = ''no'' then No else Unclear)"

definition nudge :: string where
  "nudge = ''Please answer [Y/n] or press Ctrl-D to cancel.'' @ newline"

text \<open>The answer, or the reader's error, and what was written.\<close>

fun ConfirmAsk :: "string \<Rightarrow> string list \<Rightarrow> 'e option \<Rightarrow> ('e + bool) \<times> string" where
  "ConfirmAsk prompt [] err = ((case err of Some e \<Rightarrow> Inl e | None \<Rightarrow> Inr False), prompt)"
| "ConfirmAsk prompt (line # rest) err =
     (case read_answer line of
        Yes \<Rightarrow> (Inr True, prompt)
      | No \<Rightarrow> (Inr False, prompt)
      | Unclear \<Rightarrow> (case ConfirmAsk prompt rest err of (r, out) \<Rightarrow> (r, prompt @ nudge @ out)))"

definition continue_prompt :: "bool \<Rightarrow> string" where
  "continue_prompt useColor = (if useColor then paint colorYellow ''Continue?'' @ '' [Y/n] '' else ''Continue? [Y/n] '')"

definition ask_after :: "string \<Rightarrow> bool \<Rightarrow> string list \<Rightarrow> 'e option \<Rightarrow> ('e + bool) \<times> string" where
  "ask_after written useColor typed err =
     (case ConfirmAsk (continue_prompt useColor) typed err of (r, out) \<Rightarrow> (r, written @ newline @ out))"

subsection \<open>The single-file prompt\<close>

definition profileSuffix :: "string \<Rightarrow> string \<Rightarrow> string" where
  "profileSuffix p reason =
     (if p = [] then [] else if reason \<noteq> [] then '' ['' @ p @ '' '' @ em_dash @ '' '' @ reason @ '']'' else '' ['' @ p @ '']'')"

definition single_text :: "string \<Rightarrow> string \<Rightarrow> int \<Rightarrow> int \<Rightarrow> string \<Rightarrow> string \<Rightarrow> bool \<Rightarrow> string" where
  "single_text filename dest bytes0 n profile reason useColor =
     (let p = profileSuffix profile reason; engine = trim_prefix p '' '';
          row = (\<lambda>label value. (if useColor then ''  '' @ paint colorYellow label else label) @ '' '' @ value @ newline);
          tint = (\<lambda>colour s. if useColor then paint colour s else s)
      in row ''File       :'' (tint colorCyan filename) @
         row ''Size       :'' (tint colorGreen (FormatFileSize bytes0)) @
         row ''Connections:'' (tint colorMagenta (itoa n @ '' parallel'')) @
         (if p \<noteq> [] then row ''Engine     :'' (tint colorCyan engine) else []) @
         row ''Destination:'' dest)"

definition ConfirmSingle ::
  "string \<Rightarrow> string \<Rightarrow> int \<Rightarrow> int \<Rightarrow> string \<Rightarrow> string \<Rightarrow> bool \<Rightarrow> string list \<Rightarrow> 'e option \<Rightarrow> ('e + bool) \<times> string" where
  "ConfirmSingle filename dest bytes0 n profile reason useColor typed err =
     ask_after (single_text filename dest bytes0 n profile reason useColor) useColor typed err"

subsection \<open>The batch prompt\<close>

record FileRow =
  fr_Name :: string
  fr_Size :: int
  fr_Profile :: string
  fr_Reason :: string

definition shortName :: "string \<Rightarrow> string" where
  "shortName u = after_last (CHR ''/'') u"

text \<open>A missing key of a Go map reads as the zero value.\<close>

definition at_or :: "'b \<Rightarrow> ('a \<Rightarrow> 'b option) \<Rightarrow> 'a \<Rightarrow> 'b" where
  "at_or z m k = (case m k of None \<Rightarrow> z | Some v \<Rightarrow> v)"

definition RowsFromPlan ::
  "plan \<Rightarrow> (string \<Rightarrow> int option) \<Rightarrow> (string \<Rightarrow> string option) \<Rightarrow> (string \<Rightarrow> string option) \<Rightarrow> bool \<Rightarrow> FileRow list" where
  "RowsFromPlan p sizes profiles reasons showProfiles =
     map (\<lambda>a. \<lparr>fr_Name = shortName (al_URL a), fr_Size = at_or 0 sizes (al_URL a),
        fr_Profile = (if showProfiles then at_or [] profiles (al_URL a) else []), fr_Reason = at_or [] reasons (al_URL a)\<rparr>)
       (Parallel p @ Queued p)"

definition batch_row :: "bool \<Rightarrow> nat \<times> FileRow \<Rightarrow> string option" where
  "batch_row useColor = (\<lambda>(i, r).
     let sizeStr = FormatFileSize (fr_Size r);
         number = ''['' @ itoa (int i + 1) @ '']'';
         name = padToCells (truncateNameTo (fr_Name r) 40) 40
     in map_option (\<lambda>pad.
          (if useColor then ''    '' @ paint colorGreen number @ '' '' @ name @ '' '' @ paint colorCyan (pad @ sizeStr)
           else ''  '' @ number @ '' '' @ name @ '' '' @ pad @ sizeStr) @
          profileSuffix (fr_Profile r) (fr_Reason r) @ newline)
       (Repeat '' '' (14 - displayWidth sizeStr)))"

definition batch_head :: "FileRow list \<Rightarrow> int \<Rightarrow> int \<Rightarrow> int \<Rightarrow> bool \<Rightarrow> string" where
  "batch_head rows connsPerFile parallelFiles totalFiles useColor =
     (let total_size = FormatFileSize (fold (\<lambda>r acc. w64 (acc + fr_Size r)) rows 0);
          tint = (\<lambda>colour s. if useColor then paint colour s else s);
          files = itoa parallelFiles @ '' files''
      in (if useColor then ''  '' else []) @ tint colorGreen ''ODM will download'' @ '' '' @ tint colorYellow (itoa totalFiles @ '' files'') @
         '' (total ~'' @ tint colorCyan total_size @ '')'' @ newline @
         (if useColor then ''  '' else []) @ tint colorYellow ''Allocation:'' @ '' '' @
         (if connsPerFile \<le> 1 then ''1 connection/file'' else tint colorMagenta (itoa connsPerFile @ '' connections/file'')) @ '', '' @
         tint colorMagenta files @ '' running in parallel (rest queued'' @ (if useColor then [] else '' automatically'') @ '')'' @ newline @
         newline)"

definition ConfirmBatch ::
  "FileRow list \<Rightarrow> int \<Rightarrow> int \<Rightarrow> int \<Rightarrow> bool \<Rightarrow> string list \<Rightarrow> 'e option \<Rightarrow> (('e + bool) \<times> string) option" where
  "ConfirmBatch rows connsPerFile parallelFiles totalFiles useColor typed err =
     map_option (\<lambda>ls. ask_after (batch_head rows connsPerFile parallelFiles totalFiles useColor @ concat ls) useColor typed err)
       (those (map (batch_row useColor) (enumerate 0 rows)))"

subsection \<open>The answer decides\<close>

lemma ConfirmAsk_unclear:
  "\<forall>l \<in> set pre. read_answer l = Unclear \<Longrightarrow>
   ConfirmAsk prompt (pre @ typed) err = (fst (ConfirmAsk prompt typed err),
     concat (replicate (length pre) (prompt @ nudge)) @ snd (ConfirmAsk prompt typed err))"
  by (induction pre) (auto split: prod.split)

lemma ConfirmAsk_answered:
  "read_answer l \<noteq> Unclear \<Longrightarrow> ConfirmAsk prompt (l # rest) err = (Inr (read_answer l = Yes), prompt)"
  by (cases "read_answer l") simp_all

text \<open>The prompt starts a download only on a yes. What decides is the first line that is an answer; each line before it
  repeats the question once, what follows is not read; with no such line, the end of the input declines and a read error
  is reported.\<close>

lemma ConfirmAsk_decides:
  "ConfirmAsk prompt typed err =
     (let unclear = takeWhile (\<lambda>l. read_answer l = Unclear) typed
      in (case dropWhile (\<lambda>l. read_answer l = Unclear) typed of
            [] \<Rightarrow> (case err of None \<Rightarrow> Inr False | Some e \<Rightarrow> Inl e)
          | l # rest \<Rightarrow> Inr (trim_space (to_lower l) \<in> {[], ''y'', ''yes''}),
          concat (replicate (length unclear) (prompt @ nudge)) @ prompt))"
proof -
  define pre where "pre = takeWhile (\<lambda>l. read_answer l = Unclear) typed"
  define post where "post = dropWhile (\<lambda>l. read_answer l = Unclear) typed"
  have t: "typed = pre @ post" by (simp add: pre_def post_def)
  have u: "\<forall>l \<in> set pre. read_answer l = Unclear" by (auto simp: pre_def dest: set_takeWhileD)
  have "ConfirmAsk prompt post err = (case post of [] \<Rightarrow> (case err of None \<Rightarrow> Inr False | Some e \<Rightarrow> Inl e)
      | l # rest \<Rightarrow> Inr (trim_space (to_lower l) \<in> {[], ''y'', ''yes''}), prompt)"
  proof (cases post)
    case (Cons l rest)
    then have "read_answer l \<noteq> Unclear" using hd_dropWhile [of "\<lambda>l. read_answer l = Unclear" typed] by (auto simp: post_def)
    then have "ConfirmAsk prompt post err = (Inr (read_answer l = Yes), prompt)" using Cons ConfirmAsk_answered by simp
    then show ?thesis using Cons by (simp add: read_answer_def Let_def)
  qed (simp split: option.split)
  then show ?thesis
    using ConfirmAsk_unclear [OF u, of prompt post err] unfolding t [symmetric] by (simp add: Let_def flip: pre_def post_def)
qed

subsection \<open>The batch prompt is drawn\<close>

lemma batch_row_returns: "fr_Size r < 2 ^ 63 \<Longrightarrow> batch_row useColor (i, r) \<noteq> None"
proof -
  assume "fr_Size r < 2 ^ 63"
  then have "displayWidth (FormatFileSize (fr_Size r)) \<le> 10"
    using FormatFileSize_fits displayWidth_printable by fastforce
  then show ?thesis by (simp add: batch_row_def Let_def Repeat_def)
qed

lemma those_all: "\<forall>x \<in> set xs. x \<noteq> None \<Longrightarrow> those xs = Some (map the xs)"
  by (induction xs) auto

text \<open>The batch prompt is drawn whatever the sizes, with a line for every planned file in the order of the plan, and answers
  as the question does.\<close>

lemma ConfirmBatch_returns:
  assumes "\<forall>u n. sizes u = Some n \<longrightarrow> n < 2 ^ 63"
    and rows: "rows = RowsFromPlan p sizes profiles reasons showProfiles"
  shows "length rows = length (Parallel p) + length (Queued p)
    \<and> (\<exists>out. ConfirmBatch rows c f t useColor typed err = Some (fst (ConfirmAsk (continue_prompt useColor) typed err), out))"
proof -
  have "\<forall>r \<in> set rows. fr_Size r < 2 ^ 63" using assms(1) by (auto simp: rows RowsFromPlan_def at_or_def split: option.split)
  then have "\<forall>i < length rows. batch_row useColor (i, rows ! i) \<noteq> None" using batch_row_returns nth_mem by blast
  then have "\<forall>x \<in> set (map (batch_row useColor) (enumerate 0 rows)). x \<noteq> None"
    by (auto simp: in_set_enumerate_eq simp del: not_None_eq)
  then have "\<exists>out. ConfirmBatch rows c f t useColor typed err = Some (fst (ConfirmAsk (continue_prompt useColor) typed err), out)"
    by (simp add: ConfirmBatch_def those_all ask_after_def split: prod.split)
  then show ?thesis by (simp add: rows RowsFromPlan_def)
qed

end
