(* ===== verification/Logging.thy ===== *)
theory Logging imports Go_Prelude begin

section \<open>The leveled logger (internal/logging/logging.go)\<close>

text \<open>
  The logger as the lines its two streams received. A message comes formatted, and the time stamp that package log puts
  before it is a parameter. A nil logger is None. Closing sets only the file handle to nil: the mirror's log.Logger stays,
  and its writes to the closed file are errors nobody reads.
\<close>

type_synonym Level = int

definition LevelError :: Level where "LevelError = 0"
definition LevelWarn :: Level where "LevelWarn = 1"
definition LevelInfo :: Level where "LevelInfo = 2"
definition LevelDebug :: Level where "LevelDebug = 3"

lemmas levels = LevelError_def LevelWarn_def LevelInfo_def LevelDebug_def

definition ParseLevel :: "string \<Rightarrow> Level option" where
  "ParseLevel s =
     (if s = ''debug'' then Some LevelDebug else if s = ''info'' then Some LevelInfo
      else if s = ''warn'' then Some LevelWarn else if s = ''error'' then Some LevelError else None)"

definition Level_String :: "Level \<Rightarrow> string" where
  "Level_String l =
     (if l = LevelDebug then ''DEBUG'' else if l = LevelInfo then ''INFO''
      else if l = LevelWarn then ''WARN'' else if l = LevelError then ''ERROR'' else ''?'')"

datatype log_target = Stderr | Screen

record logger =
  lg_level :: Level
  lg_target :: log_target
  lg_out :: "(log_target \<times> string) list"
  lg_mirrored :: bool
  lg_fileOpen :: bool
  lg_file :: "string list"

definition New_Logger :: "Level \<Rightarrow> string \<Rightarrow> bool \<Rightarrow> logger option" where
  "New_Logger level logFile can_open =
     (if logFile \<noteq> [] \<and> \<not> can_open then None
      else Some \<lparr>lg_level = level, lg_target = Stderr, lg_out = [], lg_mirrored = (logFile \<noteq> []), lg_fileOpen = (logFile \<noteq> []),
                 lg_file = []\<rparr>)"

definition SetOutput :: "log_target \<Rightarrow> logger \<Rightarrow> logger" where
  "SetOutput w l = l\<lparr>lg_target := w\<rparr>"

definition logf :: "Level \<Rightarrow> string \<Rightarrow> string \<Rightarrow> logger option \<Rightarrow> logger option" where
  "logf lvl stamp msg lg =
     (case lg of
        None \<Rightarrow> None
      | Some l \<Rightarrow>
          if lvl > lg_level l then Some l
          else
            let line = stamp @ Level_String lvl @ '': '' @ msg
            in Some (l\<lparr>lg_out := lg_out l @ [(lg_target l, line)],
                       lg_file := (if lg_mirrored l \<and> lg_fileOpen l then lg_file l @ [line] else lg_file l)\<rparr>))"

definition task_level :: "string \<Rightarrow> Level" where
  "task_level s =
     (if s = ''debug'' then LevelDebug else if s = ''warn'' then LevelWarn else if s = ''error'' then LevelError else LevelInfo)"

definition TaskLogFn :: "string \<Rightarrow> string \<Rightarrow> string \<Rightarrow> logger option \<Rightarrow> logger option" where
  "TaskLogFn level stamp msg lg = (case lg of None \<Rightarrow> None | Some l \<Rightarrow> logf (task_level level) stamp msg (Some l))"

definition Close :: "logger option \<Rightarrow> logger option" where
  "Close lg = map_option (\<lambda>l. l\<lparr>lg_fileOpen := False\<rparr>) lg"

subsection \<open>What reaches the streams\<close>

datatype log_op = Message Level string string | Redirect log_target

definition log_do :: "log_op \<Rightarrow> logger \<Rightarrow> logger" where
  "log_do op l = (case op of Message lvl stamp msg \<Rightarrow> the (logf lvl stamp msg (Some l)) | Redirect w \<Rightarrow> SetOutput w l)"

text \<open>While the log file is open it mirrors the primary stream line by line, wherever that points, and both hold exactly the
  messages up to the level.\<close>

lemma log_mirrors:
  assumes "New_Logger level logFile True = Some l0"
  shows "map snd (lg_out (fold log_do ops l0)) =
      map (\<lambda>(lvl, stamp, msg). stamp @ Level_String lvl @ '': '' @ msg)
        (filter (\<lambda>(lvl, _). lvl \<le> level) (List.map_filter (\<lambda>op. case op of Message lvl stamp msg \<Rightarrow> Some (lvl, stamp, msg) | _ \<Rightarrow> None) ops))
    \<and> (logFile \<noteq> [] \<longrightarrow> lg_file (fold log_do ops l0) = map snd (lg_out (fold log_do ops l0)))"
proof -
  have "lg_level l0 = level" "lg_out l0 = []" "lg_file l0 = []" "lg_mirrored l0 = (logFile \<noteq> [])" "lg_fileOpen l0 = (logFile \<noteq> [])"
    using assms by (auto simp: New_Logger_def)
  then have "lg_level (fold log_do ops l0) = level \<and> lg_mirrored (fold log_do ops l0) = (logFile \<noteq> []) \<and>
      lg_fileOpen (fold log_do ops l0) = (logFile \<noteq> []) \<and> ?thesis"
    by (induction ops rule: rev_induct)
      (auto simp: log_do_def logf_def SetOutput_def List.map_filter_def Let_def split: log_op.split)
  then show ?thesis by simp
qed

end
