(* ===== verification/Config.thy ===== *)
theory Config imports Balancer begin

section \<open>The options and their sources (internal/config/config.go)\<close>

text \<open>
  All user tunables, the \<open>key = value\<close> parser of the configuration files, the application of a file to the
  options, the flag table, and the validation. A setting is reached through an entry that pairs the reader of a
  field with its writer; \<open>key_table\<close> is the switch of \<open>setFromKey\<close>, \<open>flag_table\<close> the bindings of \<open>BindFlags\<close>. A parsed
  file is a Go map, here its entries with distinct keys; the order in which Go walks it is a parameter. What
  pflag makes of a command line is a parameter too: the flags given, with their values, and the rest.
\<close>

record options =
  o_URLs :: "string list"
  o_OutFile :: string
  o_Dir :: string
  o_InputFile :: string
  o_Connections :: int
  o_MaxConnection :: int
  o_SplitFile :: int
  o_MaxRedirect :: int
  o_Retry :: int
  o_RetryWait :: int
  o_Timeout :: int
  o_UserAgent :: string
  o_Headers :: "string list"
  o_LoadCookie :: string
  o_Referer :: string
  o_Proxy :: string
  o_CheckCertificate :: bool
  o_Checksum :: string
  o_ChecksumURL :: string
  o_Mirrors :: "string list"
  o_SessionLog :: string
  o_LimitRate :: string
  o_TaskLimitRate :: string
  o_ChunkSize :: string
  o_Profile :: string
  o_Split :: int
  o_MinSplitSize :: string
  o_MaxConnPerServer :: int
  o_Yes :: bool
  o_Quiet :: bool
  o_DryRun :: bool
  o_AutoRename :: bool
  o_SkipExisting :: bool
  o_Continue :: bool
  o_ConfigFile :: string
  o_LogFile :: string
  o_LogLevel :: string
  o_RPC :: bool
  o_RPCPort :: int
  o_RPCListenAll :: bool
  o_RPCSecret :: string
  o_RPCTLSCert :: string
  o_RPCTLSKey :: string
  o_changed :: "string list"

definition DefaultConfigPath :: string where "DefaultConfigPath = ''/etc/odm/config.conf''"
definition UserConfigRelPath :: string where "UserConfigRelPath = ''odm/config.conf''"

definition DefaultPtr :: options where
  "DefaultPtr =
     \<lparr>o_URLs = [], o_OutFile = [], o_Dir = [], o_InputFile = [], o_Connections = 5, o_MaxConnection = 32, o_SplitFile = 0,
      o_MaxRedirect = 5, o_Retry = 3, o_RetryWait = 2, o_Timeout = 30, o_UserAgent = ''odm/1.9.2'', o_Headers = [],
      o_LoadCookie = [], o_Referer = [], o_Proxy = [], o_CheckCertificate = True, o_Checksum = [], o_ChecksumURL = [],
      o_Mirrors = [], o_SessionLog = [], o_LimitRate = [], o_TaskLimitRate = [], o_ChunkSize = ''4M'', o_Profile = ''odm'',
      o_Split = 5, o_MinSplitSize = ''20M'', o_MaxConnPerServer = 1, o_Yes = False, o_Quiet = False, o_DryRun = False,
      o_AutoRename = False, o_SkipExisting = False, o_Continue = True, o_ConfigFile = DefaultConfigPath, o_LogFile = [],
      o_LogLevel = ''info'', o_RPC = False, o_RPCPort = 6900, o_RPCListenAll = False, o_RPCSecret = [], o_RPCTLSCert = [],
      o_RPCTLSKey = [], o_changed = []\<rparr>"

definition changedFlag :: "string \<Rightarrow> options \<Rightarrow> options" where
  "changedFlag name opts = opts\<lparr>o_changed := (if name \<in> set (o_changed opts) then o_changed opts else name # o_changed opts)\<rparr>"

definition IsSet :: "string \<Rightarrow> options \<Rightarrow> bool" where
  "IsSet name opts \<longleftrightarrow> name \<in> set (o_changed opts)"

subsection \<open>Entries\<close>

datatype entry =
  IntE "options \<Rightarrow> int" "int \<Rightarrow> options \<Rightarrow> options"
| SplitE "options \<Rightarrow> int" "int \<Rightarrow> options \<Rightarrow> options"
| BoolE "options \<Rightarrow> bool" "bool \<Rightarrow> options \<Rightarrow> options"
| StrE "options \<Rightarrow> string" "string \<Rightarrow> options \<Rightarrow> options"
| ListE "options \<Rightarrow> string list" "string list \<Rightarrow> options \<Rightarrow> options"

definition key_table :: "(string \<times> entry) list" where
  "key_table =
     [(''connections'', IntE o_Connections (\<lambda>v s. s\<lparr>o_Connections := v\<rparr>)),
      (''max-connections'', IntE o_MaxConnection (\<lambda>v s. s\<lparr>o_MaxConnection := v\<rparr>)),
      (''split-file'', SplitE o_SplitFile (\<lambda>v s. s\<lparr>o_SplitFile := v\<rparr>)),
      (''dir'', StrE o_Dir (\<lambda>v s. s\<lparr>o_Dir := v\<rparr>)),
      (''output'', StrE o_OutFile (\<lambda>v s. s\<lparr>o_OutFile := v\<rparr>)),
      (''max-redirect'', IntE o_MaxRedirect (\<lambda>v s. s\<lparr>o_MaxRedirect := v\<rparr>)),
      (''retry'', IntE o_Retry (\<lambda>v s. s\<lparr>o_Retry := v\<rparr>)),
      (''retry-wait'', IntE o_RetryWait (\<lambda>v s. s\<lparr>o_RetryWait := v\<rparr>)),
      (''timeout'', IntE o_Timeout (\<lambda>v s. s\<lparr>o_Timeout := v\<rparr>)),
      (''user-agent'', StrE o_UserAgent (\<lambda>v s. s\<lparr>o_UserAgent := v\<rparr>)),
      (''load-cookies'', StrE o_LoadCookie (\<lambda>v s. s\<lparr>o_LoadCookie := v\<rparr>)),
      (''referer'', StrE o_Referer (\<lambda>v s. s\<lparr>o_Referer := v\<rparr>)),
      (''proxy'', StrE o_Proxy (\<lambda>v s. s\<lparr>o_Proxy := v\<rparr>)),
      (''check-certificate'', BoolE o_CheckCertificate (\<lambda>v s. s\<lparr>o_CheckCertificate := v\<rparr>)),
      (''continue'', BoolE o_Continue (\<lambda>v s. s\<lparr>o_Continue := v\<rparr>)),
      (''quiet'', BoolE o_Quiet (\<lambda>v s. s\<lparr>o_Quiet := v\<rparr>)),
      (''dry-run'', BoolE o_DryRun (\<lambda>v s. s\<lparr>o_DryRun := v\<rparr>)),
      (''auto-rename'', BoolE o_AutoRename (\<lambda>v s. s\<lparr>o_AutoRename := v\<rparr>)),
      (''skip-existing'', BoolE o_SkipExisting (\<lambda>v s. s\<lparr>o_SkipExisting := v\<rparr>)),
      (''checksum'', StrE o_Checksum (\<lambda>v s. s\<lparr>o_Checksum := v\<rparr>)),
      (''checksum-url'', StrE o_ChecksumURL (\<lambda>v s. s\<lparr>o_ChecksumURL := v\<rparr>)),
      (''mirror'', ListE o_Mirrors (\<lambda>v s. s\<lparr>o_Mirrors := v\<rparr>)),
      (''session-log'', StrE o_SessionLog (\<lambda>v s. s\<lparr>o_SessionLog := v\<rparr>)),
      (''limit-rate'', StrE o_LimitRate (\<lambda>v s. s\<lparr>o_LimitRate := v\<rparr>)),
      (''limit-rate-per-task'', StrE o_TaskLimitRate (\<lambda>v s. s\<lparr>o_TaskLimitRate := v\<rparr>)),
      (''chunk-size'', StrE o_ChunkSize (\<lambda>v s. s\<lparr>o_ChunkSize := v\<rparr>)),
      (''profile'', StrE o_Profile (\<lambda>v s. s\<lparr>o_Profile := v\<rparr>)),
      (''split'', IntE o_Split (\<lambda>v s. s\<lparr>o_Split := v\<rparr>)),
      (''min-split-size'', StrE o_MinSplitSize (\<lambda>v s. s\<lparr>o_MinSplitSize := v\<rparr>)),
      (''max-connection-per-server'', IntE o_MaxConnPerServer (\<lambda>v s. s\<lparr>o_MaxConnPerServer := v\<rparr>)),
      (''rpc'', BoolE o_RPC (\<lambda>v s. s\<lparr>o_RPC := v\<rparr>)),
      (''rpc-listen-port'', IntE o_RPCPort (\<lambda>v s. s\<lparr>o_RPCPort := v\<rparr>)),
      (''rpc-listen-all'', BoolE o_RPCListenAll (\<lambda>v s. s\<lparr>o_RPCListenAll := v\<rparr>)),
      (''rpc-secret'', StrE o_RPCSecret (\<lambda>v s. s\<lparr>o_RPCSecret := v\<rparr>)),
      (''rpc-tls-cert'', StrE o_RPCTLSCert (\<lambda>v s. s\<lparr>o_RPCTLSCert := v\<rparr>)),
      (''rpc-tls-key'', StrE o_RPCTLSKey (\<lambda>v s. s\<lparr>o_RPCTLSKey := v\<rparr>)),
      (''log'', StrE o_LogFile (\<lambda>v s. s\<lparr>o_LogFile := v\<rparr>)),
      (''log-level'', StrE o_LogLevel (\<lambda>v s. s\<lparr>o_LogLevel := v\<rparr>))]"

text \<open>The flags whose names are no configuration keys, and the short names.\<close>

definition flag_only :: "(string \<times> entry) list" where
  "flag_only =
     [(''input-file'', StrE o_InputFile (\<lambda>v s. s\<lparr>o_InputFile := v\<rparr>)),
      (''yes'', BoolE o_Yes (\<lambda>v s. s\<lparr>o_Yes := v\<rparr>)),
      (''header'', ListE o_Headers (\<lambda>v s. s\<lparr>o_Headers := v\<rparr>)),
      (''config'', StrE o_ConfigFile (\<lambda>v s. s\<lparr>o_ConfigFile := v\<rparr>))]"

definition flag_table :: "(string \<times> entry) list" where
  "flag_table = key_table @ flag_only"

definition shorthands :: "(char \<times> string) list" where
  "shorthands =
     [(CHR ''c'', ''connections''), (CHR ''m'', ''max-connections''), (CHR ''o'', ''output''), (CHR ''d'', ''dir''),
      (CHR ''i'', ''input-file''), (CHR ''y'', ''yes''), (CHR ''q'', ''quiet''), (CHR ''x'', ''continue''),
      (CHR ''n'', ''max-redirect''), (CHR ''r'', ''retry''), (CHR ''w'', ''retry-wait''), (CHR ''t'', ''timeout''),
      (CHR ''u'', ''user-agent''), (CHR ''H'', ''header''), (CHR ''p'', ''proxy''), (CHR ''l'', ''limit-rate''),
      (CHR ''s'', ''chunk-size''), (CHR ''L'', ''log'')]"

subsection \<open>Parsing a file\<close>

datatype config_error =
  NotInteger string | NotBoolean string | NoEquals nat | TooLong | OpenFailed

text \<open>bufio.Scanner over lines: a trailing carriage return goes, an empty last line is no line, a line that does not
  fit the buffer is an error.\<close>

fun break_lines :: "string \<Rightarrow> string \<Rightarrow> string list" where
  "break_lines acc [] = (if acc = [] then [] else [rev acc])"
| "break_lines acc (c # cs) = (if c = CHR 0x0A then rev acc # break_lines [] cs else break_lines (c # acc) cs)"

definition drop_cr :: "string \<Rightarrow> string" where
  "drop_cr l = (if l \<noteq> [] \<and> last l = CHR 0x0D then butlast l else l)"

text \<open>The lines up to the first that is too long, and whether there was one.\<close>

definition scan_lines :: "int \<Rightarrow> string \<Rightarrow> string list \<times> bool" where
  "scan_lines maxlen txt =
     (let raw = break_lines [] txt
      in (map drop_cr (takeWhile (\<lambda>l. int (length l) < maxlen) raw), list_ex (\<lambda>l. int (length l) \<ge> maxlen) raw))"

definition stripInlineComment :: "string \<Rightarrow> string" where
  "stripInlineComment val = (case str_cut val '' #'' of Some (before, _) \<Rightarrow> before | None \<Rightarrow> val)"

fun kv_put :: "string \<Rightarrow> string \<Rightarrow> (string \<times> string) list \<Rightarrow> (string \<times> string) list" where
  "kv_put k v [] = [(k, v)]"
| "kv_put k v ((k', v') # m) = (if k = k' then (k, v) # m else (k', v') # kv_put k v m)"

fun parse_lines :: "nat \<Rightarrow> string list \<Rightarrow> (string \<times> string) list \<Rightarrow> config_error + (string \<times> string) list" where
  "parse_lines n [] m = Inr m"
| "parse_lines n (raw # ls) m =
     (let l = trim_space raw
      in if l = [] \<or> has_prefix l ''#'' then parse_lines (n + 1) ls m
         else case str_cut l ''='' of
           None \<Rightarrow> Inl (NoEquals n)
         | Some (key, val) \<Rightarrow>
             parse_lines (n + 1) ls (kv_put (trim_space key) (trim_space (stripInlineComment val)) m))"

definition Parse :: "string \<Rightarrow> config_error + (string \<times> string) list" where
  "Parse txt =
     (case scan_lines (1024 * 1024) txt of (ls, toolong) \<Rightarrow>
        case parse_lines 1 ls [] of
          Inl e \<Rightarrow> Inl e
        | Inr m \<Rightarrow> if toolong then Inl TooLong else Inr m)"

subsection \<open>Applying a file\<close>

definition setInt :: "string \<Rightarrow> string \<Rightarrow> config_error + int" where
  "setInt key s = (case parse_int (trim_space s) of ParsedInt v \<Rightarrow> Inr v | _ \<Rightarrow> Inl (NotInteger key))"

definition setBool :: "string \<Rightarrow> string \<Rightarrow> config_error + bool" where
  "setBool key s =
     (let t = to_lower (trim_space s)
      in if t \<in> {''true'', ''yes'', ''1'', ''on''} then Inr True
         else if t \<in> {''false'', ''no'', ''0'', ''off'', []} then Inr False
         else Inl (NotBoolean key))"

definition set_entry :: "string \<Rightarrow> string \<Rightarrow> entry \<Rightarrow> options \<Rightarrow> config_error + options" where
  "set_entry key val e opts =
     (case e of
        IntE get put \<Rightarrow> map_sum id (\<lambda>v. put v opts) (setInt key val)
      | SplitE get put \<Rightarrow> if val = [] then Inr (put 0 opts) else map_sum id (\<lambda>v. put v opts) (setInt key val)
      | BoolE get put \<Rightarrow> map_sum id (\<lambda>v. put v opts) (setBool key val)
      | StrE get put \<Rightarrow> Inr (put val opts)
      | ListE get put \<Rightarrow> Inr (put (get opts @ [val]) opts))"

definition setFromKey :: "string \<Rightarrow> string \<Rightarrow> options \<Rightarrow> config_error + options" where
  "setFromKey key val opts =
     (case map_of key_table key of None \<Rightarrow> Inr opts | Some e \<Rightarrow> set_entry key val e opts)"

text \<open>\<open>Apply\<close> over the entries in the order they are walked: the options as they are left, and the error if one stopped it.\<close>

fun Apply :: "(string \<times> string) list \<Rightarrow> options \<Rightarrow> config_error option \<times> options" where
  "Apply [] opts = (None, opts)"
| "Apply ((k, v) # kv) opts =
     (if IsSet k opts then Apply kv opts
      else case setFromKey k v opts of
        Inl e \<Rightarrow> (Some e, opts)
      | Inr opts1 \<Rightarrow> Apply kv opts1)"

subsection \<open>The command line\<close>

fun NormalizeArgs :: "string list \<Rightarrow> string list" where
  "NormalizeArgs [] = []"
| "NormalizeArgs (a # as) =
     (if a = ''-sf'' then ''--split-file'' # NormalizeArgs as
      else if has_prefix a ''-sf='' then (''--split-file='' @ drop 4 a) # NormalizeArgs as
      else a # NormalizeArgs as)"

datatype flag_value = IntV int | BoolV bool | StrV string | ListV "string list"

text \<open>What Parse writes through the pointer of a flag, and the record of the flags given.\<close>

definition write_flag :: "string \<times> flag_value \<Rightarrow> options \<Rightarrow> options" where
  "write_flag nv opts =
     (case (map_of flag_table (fst nv), snd nv) of
        (Some (IntE get put), IntV v) \<Rightarrow> put v opts
      | (Some (SplitE get put), IntV v) \<Rightarrow> put v opts
      | (Some (BoolE get put), BoolV v) \<Rightarrow> put v opts
      | (Some (StrE get put), StrV v) \<Rightarrow> put v opts
      | (Some (ListE get put), ListV v) \<Rightarrow> put v opts
      | _ \<Rightarrow> opts)"

definition CaptureChanged :: "(string \<times> flag_value) list \<Rightarrow> options \<Rightarrow> options" where
  "CaptureChanged given opts = fold changedFlag (map fst given) (opts\<lparr>o_changed := []\<rparr>)"

subsection \<open>Validation\<close>

datatype validate_error =
  BudgetTooSmall | NegativeSplitFile | SplitFileTooBig | TwoCollisionPolicies | PortOutOfRange | HalfTLS | BadLogLevel
| ChecksumFormat | ChecksumAlgo | BadProfile | SplitFileProfile | ChunkSizeBoth | SplitTooSmall | NegativeRetry | OdmSplit | OpenRPC

definition checksum_error_of :: "string \<Rightarrow> validate_error option" where
  "checksum_error_of c =
     (case str_cut c '':'' of
        None \<Rightarrow> Some ChecksumFormat
      | Some (algo, rest) \<Rightarrow>
          if rest = [] then Some ChecksumFormat
          else if to_lower algo \<notin> {''md5'', ''sha1'', ''sha256''} then Some ChecksumAlgo
          else None)"

definition Validate :: "options \<Rightarrow> validate_error option" where
  "Validate s =
     (if o_Connections s < 1 then Some BudgetTooSmall
      else if o_SplitFile s < 0 then Some NegativeSplitFile
      else if o_SplitFile s \<noteq> 0 \<and> o_SplitFile s > o_Connections s then Some SplitFileTooBig
      else if o_AutoRename s \<and> o_SkipExisting s then Some TwoCollisionPolicies
      else if o_RPCPort s < 1 \<or> o_RPCPort s > 65535 then Some PortOutOfRange
      else if (o_RPCTLSCert s = []) \<noteq> (o_RPCTLSKey s = []) then Some HalfTLS
      else if o_LogLevel s \<notin> {''debug'', ''info'', ''warn'', ''error''} then Some BadLogLevel
      else if o_Checksum s \<noteq> [] \<and> checksum_error_of (o_Checksum s) \<noteq> None then checksum_error_of (o_Checksum s)
      else if o_Profile s \<notin> {''odm'', ''aria2c'', ''both'', ''smart''} then Some BadProfile
      else if o_Profile s \<noteq> ''odm'' \<and> o_Profile s \<noteq> ''smart'' \<and> o_SplitFile s \<noteq> 0 then Some SplitFileProfile
      else if o_Profile s = ''both'' \<and> o_ChunkSize s \<noteq> ''4M'' then Some ChunkSizeBoth
      else if o_Split s < 0 \<or> o_MaxConnPerServer s < 1 then Some SplitTooSmall
      else if o_Retry s < 0 \<or> o_RetryWait s < 0 then Some NegativeRetry
      else if o_Profile s = ''odm'' \<and> (o_Split s \<noteq> 5 \<or> o_MinSplitSize s \<noteq> ''20M'' \<or> o_MaxConnPerServer s \<noteq> 1) then Some OdmSplit
      else if o_RPCListenAll s \<and> o_RPCSecret s = [] \<and> o_RPCTLSCert s = [] \<and> o_RPCTLSKey s = [] then Some OpenRPC
      else None)"

subsection \<open>Entries are independent\<close>

text \<open>The value of a setting, by name, and what a file's text makes of it.\<close>

definition value_in :: "entry \<Rightarrow> options \<Rightarrow> flag_value" where
  "value_in e opts =
     (case e of IntE get _ \<Rightarrow> IntV (get opts) | SplitE get _ \<Rightarrow> IntV (get opts) | BoolE get _ \<Rightarrow> BoolV (get opts)
      | StrE get _ \<Rightarrow> StrV (get opts) | ListE get _ \<Rightarrow> ListV (get opts))"

definition setting :: "string \<Rightarrow> options \<Rightarrow> flag_value option" where
  "setting k opts = map_option (\<lambda>e. value_in e opts) (map_of flag_table k)"

definition read_value :: "string \<Rightarrow> string \<Rightarrow> flag_value \<Rightarrow> flag_value option" where
  "read_value k v old =
     (case map_of key_table k of
        None \<Rightarrow> None
      | Some (IntE _ _) \<Rightarrow> (case setInt k v of Inr i \<Rightarrow> Some (IntV i) | Inl _ \<Rightarrow> None)
      | Some (SplitE _ _) \<Rightarrow> if v = [] then Some (IntV 0) else (case setInt k v of Inr i \<Rightarrow> Some (IntV i) | Inl _ \<Rightarrow> None)
      | Some (BoolE _ _) \<Rightarrow> (case setBool k v of Inr b \<Rightarrow> Some (BoolV b) | Inl _ \<Rightarrow> None)
      | Some (StrE _ _) \<Rightarrow> Some (StrV v)
      | Some (ListE _ _) \<Rightarrow> (case old of ListV vs \<Rightarrow> Some (ListV (vs @ [v])) | _ \<Rightarrow> None))"

definition writes :: "entry \<Rightarrow> (options \<Rightarrow> options) set" where
  "writes e =
     (case e of IntE _ put \<Rightarrow> range put | SplitE _ put \<Rightarrow> range put | BoolE _ put \<Rightarrow> range put
      | StrE _ put \<Rightarrow> range put | ListE _ put \<Rightarrow> range put)"

fun lens :: "entry \<Rightarrow> bool" where
  "lens (IntE get put) \<longleftrightarrow> (\<forall>v s. get (put v s) = v)"
| "lens (SplitE get put) \<longleftrightarrow> (\<forall>v s. get (put v s) = v)"
| "lens (BoolE get put) \<longleftrightarrow> (\<forall>v s. get (put v s) = v)"
| "lens (StrE get put) \<longleftrightarrow> (\<forall>v s. get (put v s) = v)"
| "lens (ListE get put) \<longleftrightarrow> (\<forall>v s. get (put v s) = v)"

definition apart :: "entry \<Rightarrow> entry \<Rightarrow> bool" where
  "apart e f \<longleftrightarrow> (\<forall>w \<in> writes f. \<forall>s. value_in e (w s) = value_in e s)"

lemma table_keys: "distinct (map fst flag_table)"
  by (simp add: flag_table_def key_table_def flag_only_def)

lemma table_lens: "list_all (\<lambda>(k, e). lens e) flag_table"
  by (simp add: flag_table_def key_table_def flag_only_def)

lemma table_changed: "list_all (\<lambda>(k, e). \<forall>w \<in> writes e. \<forall>s. o_changed (w s) = o_changed s) flag_table"
  by (simp add: flag_table_def key_table_def flag_only_def writes_def)

fun pairwise_apart :: "(string \<times> entry) list \<Rightarrow> bool" where
  "pairwise_apart [] = True"
| "pairwise_apart ((k, e) # t) = (list_all (\<lambda>(k', f). apart e f \<and> apart f e) t \<and> pairwise_apart t)"

lemma table_apart: "pairwise_apart flag_table"
  by (simp add: flag_table_def key_table_def flag_only_def apart_def writes_def value_in_def)

lemma map_of_apart:
  "pairwise_apart t \<Longrightarrow> map_of t k = Some e \<Longrightarrow> map_of t k' = Some f \<Longrightarrow> k \<noteq> k' \<Longrightarrow> apart e f"
proof (induction t rule: pairwise_apart.induct)
  case (2 k0 e0 t)
  then show ?case by (auto simp: list_all_iff split: if_splits dest!: map_of_SomeD)
qed simp

lemma key_flag: "map_of key_table k = Some e \<Longrightarrow> map_of flag_table k = Some e"
  by (simp add: flag_table_def)

lemma flag_lens: "map_of flag_table k = Some e \<Longrightarrow> lens e"
  using table_lens by (auto simp: list_all_iff dest: map_of_SomeD)

text \<open>A successful write goes through the writer of the entry.\<close>

lemma set_entry_writes: "set_entry k v e s = Inr s' \<Longrightarrow> \<exists>w \<in> writes e. s' = w s"
  by (cases e) (auto simp: set_entry_def writes_def map_sum_def split: sum.splits if_splits)

lemma set_entry_value:
  assumes "map_of key_table k = Some e" "set_entry k v e s = Inr s'"
  shows "read_value k v (value_in e s) = Some (value_in e s')"
  using assms flag_lens [OF key_flag [OF assms(1)]]
  by (cases e) (auto simp: set_entry_def read_value_def value_in_def map_sum_def split: sum.splits if_splits)

lemma setFromKey_frame:
  assumes "setFromKey k v s = Inr s'"
  shows "k' \<noteq> k \<Longrightarrow> setting k' s' = setting k' s" and "o_changed s' = o_changed s"
proof -
  consider "s' = s" | e w where "map_of key_table k = Some e" "w \<in> writes e" "s' = w s"
    using assms set_entry_writes by (fastforce simp: setFromKey_def split: option.splits)
  then have "(k' \<noteq> k \<longrightarrow> setting k' s' = setting k' s) \<and> o_changed s' = o_changed s"
  proof cases
    case 2
    have "apart f e" if "map_of flag_table k' = Some f" "k' \<noteq> k" for f
      using map_of_apart [OF table_apart that(1) key_flag [OF 2(1)] that(2)] .
    moreover have "o_changed (w s) = o_changed s"
      using table_changed map_of_SomeD [OF key_flag [OF 2(1)]] 2(2) by (fastforce simp: list_all_iff)
    ultimately show ?thesis using 2 by (cases "map_of flag_table k'") (auto simp: setting_def apart_def)
  qed simp
  then show "k' \<noteq> k \<Longrightarrow> setting k' s' = setting k' s" "o_changed s' = o_changed s" by simp_all
qed

lemma setFromKey_value:
  assumes "setFromKey k v s = Inr s'" "map_of key_table k = Some e"
  shows "setting k s' = read_value k v (the (setting k s))"
  using assms set_entry_value [OF assms(2)] by (simp add: setFromKey_def setting_def key_flag [OF assms(2)])

text \<open>The fields that are no plain setting of a file do not disturb one.\<close>

lemma other_fields:
  "k \<notin> {''checksum'', ''mirror''} \<Longrightarrow> setting k (s\<lparr>o_Checksum := c, o_Mirrors := ms\<rparr>) = setting k s"
  "k \<noteq> ''mirror'' \<Longrightarrow> setting k (s\<lparr>o_Mirrors := ms\<rparr>) = setting k s"
  "setting k (s\<lparr>o_URLs := us\<rparr>) = setting k s"
  "k \<noteq> ''header'' \<Longrightarrow> setting k (s\<lparr>o_Headers := hs\<rparr>) = setting k s"
proof -
  have t: "list_all (\<lambda>(k, e). (k \<notin> {''checksum'', ''mirror''} \<longrightarrow> value_in e (s\<lparr>o_Checksum := c, o_Mirrors := ms\<rparr>) = value_in e s) \<and>
      (k \<noteq> ''mirror'' \<longrightarrow> value_in e (s\<lparr>o_Mirrors := ms\<rparr>) = value_in e s) \<and> value_in e (s\<lparr>o_URLs := us\<rparr>) = value_in e s \<and>
      (k \<noteq> ''header'' \<longrightarrow> value_in e (s\<lparr>o_Headers := hs\<rparr>) = value_in e s)) flag_table"
    by (simp add: flag_table_def key_table_def flag_only_def value_in_def)
  show "k \<notin> {''checksum'', ''mirror''} \<Longrightarrow> setting k (s\<lparr>o_Checksum := c, o_Mirrors := ms\<rparr>) = setting k s"
    "k \<noteq> ''mirror'' \<Longrightarrow> setting k (s\<lparr>o_Mirrors := ms\<rparr>) = setting k s" "setting k (s\<lparr>o_URLs := us\<rparr>) = setting k s"
    "k \<noteq> ''header'' \<Longrightarrow> setting k (s\<lparr>o_Headers := hs\<rparr>) = setting k s"
    using t by (cases "map_of flag_table k"; fastforce simp: setting_def list_all_iff dest: map_of_SomeD)+
qed

subsection \<open>What a file does to the settings\<close>

definition parses :: "string \<Rightarrow> string \<Rightarrow> bool" where
  "parses k v =
     (case map_of key_table k of
        Some (IntE _ _) \<Rightarrow> (case setInt k v of Inr _ \<Rightarrow> True | Inl _ \<Rightarrow> False)
      | Some (SplitE _ _) \<Rightarrow> v = [] \<or> (case setInt k v of Inr _ \<Rightarrow> True | Inl _ \<Rightarrow> False)
      | Some (BoolE _ _) \<Rightarrow> (case setBool k v of Inr _ \<Rightarrow> True | Inl _ \<Rightarrow> False)
      | _ \<Rightarrow> True)"

lemma parses_sets: "parses k v \<Longrightarrow> \<exists>s'. setFromKey k v s = Inr s'"
  by (auto simp: parses_def setFromKey_def set_entry_def split: option.splits entry.splits sum.splits if_splits)

definition file_value :: "string \<Rightarrow> (string \<times> string) list \<Rightarrow> options \<Rightarrow> flag_value option" where
  "file_value k kv s =
     (if IsSet k s \<or> map_of key_table k = None then setting k s
      else case map_of kv k of None \<Rightarrow> setting k s | Some v \<Rightarrow> read_value k v (the (setting k s)))"

lemma settings_of_file:
  assumes "distinct (map fst kv)" and "list_all (\<lambda>(k, v). parses k v) kv"
  shows "fst (Apply kv s) = None \<and> o_changed (snd (Apply kv s)) = o_changed s
    \<and> (\<forall>k. setting k (snd (Apply kv s)) = file_value k kv s)"
  using assms
proof (induction kv arbitrary: s)
  case (Cons kv0 kv)
  obtain k v where kv0: "kv0 = (k, v)" by (cases kv0)
  have fresh: "map_of kv k = None" using Cons.prems(1) by (simp add: kv0 map_of_eq_None_iff)
  show ?case
  proof (cases "IsSet k s")
    case True
    then show ?thesis using Cons by (auto simp: kv0 file_value_def)
  next
    case False
    obtain s1 where s1: "setFromKey k v s = Inr s1" using parses_sets Cons.prems(2) kv0 by fastforce
    note f = setFromKey_frame [OF s1]
    have ih: "fst (Apply kv s1) = None" "o_changed (snd (Apply kv s1)) = o_changed s1"
      "setting j (snd (Apply kv s1)) = file_value j kv s1" for j
      using Cons.IH [of s1] Cons.prems by auto
    have "file_value j kv s1 = file_value j (kv0 # kv) s" for j
    proof (cases "j = k")
      case True
      show ?thesis
      proof (cases "map_of key_table k")
        case None
        then have "s1 = s" using s1 by (simp add: setFromKey_def)
        then show ?thesis using None True by (simp add: file_value_def)
      next
        case (Some e)
        then show ?thesis using True False fresh setFromKey_value [OF s1 Some] f(2) by (simp add: file_value_def kv0 IsSet_def)
      qed
    next
      case False
      then show ?thesis using f(1) [OF False] f(2) by (simp add: file_value_def kv0 IsSet_def cong: option.case_cong)
    qed
    then show ?thesis using ih f(2) False s1 by (simp add: kv0)
  qed
qed (simp add: file_value_def)

text \<open>A configuration file that parses does what it says, whatever the order Go walks it in. Each setting it names takes
  the value of its text, unless the flag of that name was given on the command line; nothing else changes.\<close>

theorem Apply_settings:
  assumes "distinct (map fst kv)" and "list_all (\<lambda>(k, v). parses k v) kv"
  shows "fst (Apply kv s) = None \<and> o_changed (snd (Apply kv s)) = o_changed s
    \<and> (\<forall>k. setting k (snd (Apply kv s)) = file_value k kv s)"
  by (rule settings_of_file [OF assms])

theorem Apply_settings_witness:
  "setting ''retry'' (snd (Apply [(''retry'', ''7''), (''connections'', ''9'')] (DefaultPtr\<lparr>o_changed := [''connections'']\<rparr>))) = Some (IntV 7)
   \<and> setting ''connections'' (snd (Apply [(''retry'', ''7''), (''connections'', ''9'')] (DefaultPtr\<lparr>o_changed := [''connections'']\<rparr>))) = Some (IntV 5)"
proof -
  have p: "parse_int ''7'' = ParsedInt 7" "parse_int ''9'' = ParsedInt 9"
    by (simp_all add: parse_int_def digit_val_def)
  have "distinct (map fst [(''retry'', ''7''), (''connections'', ''9'')])"
    "list_all (\<lambda>(k, v). parses k v) [(''retry'', ''7''), (''connections'', ''9'')]"
    by (simp_all add: parses_def key_table_def setInt_def go_eval p)
  note A = Apply_settings [OF this, of "DefaultPtr\<lparr>o_changed := [''connections'']\<rparr>"]
  have "file_value ''retry'' [(''retry'', ''7''), (''connections'', ''9'')] (DefaultPtr\<lparr>o_changed := [''connections'']\<rparr>) = Some (IntV 7)"
    "file_value ''connections'' [(''retry'', ''7''), (''connections'', ''9'')] (DefaultPtr\<lparr>o_changed := [''connections'']\<rparr>) = Some (IntV 5)"
    by code_simp+
  then show ?thesis using A by metis
qed

text \<open>A file with one bad value is applied in part, and which part is up to Go: the same two lines leave the time-out
  set or unset, depending on the order in which the map is walked. The callers drop the error.\<close>

theorem Apply_partial:
  "o_Timeout (snd (Apply [(''timeout'', ''60''), (''retry'', ''x'')] DefaultPtr)) = 60 \<and>
   o_Timeout (snd (Apply [(''retry'', ''x''), (''timeout'', ''60'')] DefaultPtr)) = 30 \<and>
   fst (Apply [(''timeout'', ''60''), (''retry'', ''x'')] DefaultPtr) = Some (NotInteger ''retry'')"
  by code_simp

subsection \<open>Valid options and the balancer\<close>

text \<open>What validation lets through, the balancer can plan. With at least one file, a validated budget never meets one of
  the balancer's errors, the plan has a live file, and its live connections stay within the budget.\<close>

theorem validated_plans:
  assumes "Validate s = None" and "files \<noteq> []"
  shows "\<exists>p. Compute (o_Connections s) files (o_SplitFile s) (o_MaxConnection s) = Inr p \<and> Parallel p \<noteq> []
    \<and> total_connections (Parallel p) \<le> o_Connections s"
proof -
  have "\<not> o_Connections s < 1" "\<not> o_SplitFile s < 0" "o_SplitFile s = 0 \<or> \<not> o_Connections s < o_SplitFile s"
    using assms(1) by (simp_all add: Validate_def split: if_splits)
  then have v: "1 \<le> o_Connections s" "0 \<le> o_SplitFile s" "o_SplitFile s \<le> o_Connections s" by linarith+
  obtain p where p: "Compute (o_Connections s) files (o_SplitFile s) (o_MaxConnection s) = Inr p"
  proof (cases "Compute (o_Connections s) files (o_SplitFile s) (o_MaxConnection s)")
    case (Inl e)
    then show ?thesis using Compute_errors [of "o_Connections s" files "o_SplitFile s" "o_MaxConnection s"] v assms(2)
      by (cases e) auto
  qed (use that in blast)
  then show ?thesis using plan_budget [OF p v(2)] by blast
qed

theorem validated_plans_witness:
  "Validate DefaultPtr = None \<and>
   (\<exists>p. Compute 5 [\<lparr>fi_URL = ''u'', fi_SupportsRange = True\<rparr>] 0 32 = Inr p \<and> Parallel p \<noteq> [])"
proof -
  have "Validate DefaultPtr = None" by code_simp
  then show ?thesis
    using validated_plans [of DefaultPtr "[\<lparr>fi_URL = ''u'', fi_SupportsRange = True\<rparr>]"]
    by (auto simp: DefaultPtr_def)
qed

end
