(* ===== verification/Config_Load.thy ===== *)
theory Config_Load imports Config Filename begin

section \<open>Loading the configuration (internal/config/load.go)\<close>

text \<open>
  The layering of the configuration files, the URL list, the Metalink document, the cookie file, and \<open>Setup\<close>, which
  ties them to the command line. The environment gives what each file holds, the user's configuration directory, the
  time, what encoding/xml makes of a Metalink text, what pflag makes of the arguments, and the order in which Go walks
  a parsed file. A run-time panic is an outcome of its own.
\<close>

datatype file_read = Absent | Denied | Contents string

record metalink_file =
  ml_Name :: string
  ml_Hashes :: "(string \<times> string) list"
  ml_URLs :: "string list"

record load_env =
  le_fs :: "string \<Rightarrow> file_read"
  le_userdir :: "string option"
  le_now :: int
  le_xml :: "string \<Rightarrow> metalink_file list option"
  le_flags :: "string list \<Rightarrow> ((string \<times> flag_value) list \<times> string list) option"
  le_order :: "(string \<times> string) list \<Rightarrow> (string \<times> string) list"

datatype load_error =
  BadFlags | SystemConfig config_error | ExplicitConfig config_error | InputUnreadable | MetalinkUnreadable | MetalinkSyntax
| NoMetalinkFile | NoMetalinkURL | Invalid validate_error | CookiesUnreadable | NoCookies

datatype 'a outcome = Done 'a | Failed load_error | Panic

subsection \<open>Files\<close>

datatype parsed_file = Missing | Broken config_error | Parsed "(string \<times> string) list"

definition ParseFile :: "load_env \<Rightarrow> string \<Rightarrow> parsed_file" where
  "ParseFile env path =
     (case le_fs env path of
        Absent \<Rightarrow> Missing
      | Denied \<Rightarrow> Broken OpenFailed
      | Contents txt \<Rightarrow> (case Parse txt of Inl e \<Rightarrow> Broken e | Inr kv \<Rightarrow> Parsed (le_order env kv)))"

definition UserConfigPath :: "load_env \<Rightarrow> string option" where
  "UserConfigPath env = map_option (\<lambda>base. path_join base UserConfigRelPath) (le_userdir env)"

definition apply_file :: "parsed_file \<Rightarrow> options \<Rightarrow> options" where
  "apply_file f opts = (case f of Parsed kv \<Rightarrow> snd (Apply kv opts) | _ \<Rightarrow> opts)"

subsection \<open>The URL list\<close>

definition isMetalinkName :: "string \<Rightarrow> bool" where
  "isMetalinkName path \<longleftrightarrow> has_suffix (to_lower path) ''.meta4'' \<or> has_suffix (to_lower path) ''.metalink''"

fun pick_hash :: "string \<Rightarrow> (string \<times> string) list \<Rightarrow> string" where
  "pick_hash pick [] = pick"
| "pick_hash pick ((ty, val) # hs) =
     (let t = to_lower (trim_space ty);
          spec = t @ '':'' @ to_lower (trim_space val)
      in if t = ''sha256'' then pick_hash spec hs
         else if t = ''sha1'' then pick_hash (if pick = [] \<or> has_prefix pick ''md5:'' then spec else pick) hs
         else if t = ''md5'' then pick_hash (if pick = [] then spec else pick) hs
         else pick_hash pick hs)"

definition parseMetalink :: "load_env \<Rightarrow> string \<Rightarrow> options \<Rightarrow> load_error + string list \<times> options" where
  "parseMetalink env path opts =
     (case le_fs env path of
        Contents txt \<Rightarrow>
          (case le_xml env txt of
             None \<Rightarrow> Inl MetalinkSyntax
           | Some [] \<Rightarrow> Inl NoMetalinkFile
           | Some (f0 # _) \<Rightarrow>
               let urls = filter (\<lambda>u. u \<noteq> []) (map trim_space (ml_URLs f0));
                   pick = pick_hash [] (ml_Hashes f0);
                   opts1 = (if pick \<noteq> [] then opts\<lparr>o_Checksum := pick\<rparr> else opts)
               in if urls = [] then Inl NoMetalinkURL
                  else Inr (take 1 urls, opts1\<lparr>o_Mirrors := o_Mirrors opts1 @ drop 1 urls\<rparr>))
      | _ \<Rightarrow> Inl MetalinkUnreadable)"

definition url_lines :: "string list \<Rightarrow> string list" where
  "url_lines ls = filter (\<lambda>l. l \<noteq> [] \<and> \<not> has_prefix l ''#'') (map trim_space ls)"

definition resolveURLs :: "load_env \<Rightarrow> options \<Rightarrow> string list \<Rightarrow> load_error + string list \<times> options" where
  "resolveURLs env opts positional =
     (let out = filter (\<lambda>a. a \<noteq> []) positional;
          path = o_InputFile opts
      in if path \<noteq> [] \<and> isMetalinkName path then parseMetalink env path opts
         else if path \<noteq> [] then
           (case le_fs env path of
              Contents txt \<Rightarrow>
                (case scan_lines (1024 * 1024) txt of (ls, toolong) \<Rightarrow>
                   if toolong then Inl InputUnreadable else Inr (out @ url_lines ls, opts))
            | _ \<Rightarrow> Inl InputUnreadable)
         else Inr (out, opts))"

subsection \<open>The cookie file\<close>

text \<open>strings.SplitN with one character.\<close>

fun split_n :: "nat \<Rightarrow> char \<Rightarrow> string \<Rightarrow> string list" where
  "split_n 0 sep s = []"
| "split_n (Suc 0) sep s = [s]"
| "split_n (Suc (Suc n)) sep s =
     (case str_cut s [sep] of None \<Rightarrow> [s] | Some (a, b) \<Rightarrow> a # split_n (Suc n) sep b)"

definition tab :: char where "tab = CHR 0x09"

definition blank_or_tab :: "char \<Rightarrow> bool" where
  "blank_or_tab c \<longleftrightarrow> c = CHR '' '' \<or> c = tab"

definition first_field :: "string \<Rightarrow> string option" where
  "first_field s =
     (let t = takeWhile (\<lambda>c. \<not> blank_or_tab c) (dropWhile blank_or_tab s) in if t = [] then None else Some t)"

text \<open>One row: skipped, a pair, or an index out of range when the expiry field has no text.\<close>

datatype cookie_row = Skip | Pair string | RowPanic

definition cookie_row :: "int \<Rightarrow> string \<Rightarrow> cookie_row" where
  "cookie_row now raw =
     (let l = trim_space raw
      in if l = [] \<or> has_prefix l ''# '' then Skip
         else
           let fs = split_n 7 tab (trim_prefix l ''#HttpOnly_'')
           in if length fs \<noteq> 7 then Skip
              else
                let name = fs ! 5; val = trim_space (fs ! 6)
                in if name = [] \<or> val = [] then Skip
                   else case first_field (fs ! 4) of
                     None \<Rightarrow> RowPanic
                   | Some e \<Rightarrow>
                       (case parse_int e of
                          ParsedInt x \<Rightarrow> if x > 0 \<and> now \<ge> x then Skip else Pair (name @ ''='' @ val)
                        | _ \<Rightarrow> Pair (name @ ''='' @ val)))"

fun cookie_pairs :: "int \<Rightarrow> string list \<Rightarrow> string list option" where
  "cookie_pairs now [] = Some []"
| "cookie_pairs now (l # ls) =
     (case cookie_row now l of
        RowPanic \<Rightarrow> None
      | Skip \<Rightarrow> cookie_pairs now ls
      | Pair p \<Rightarrow> map_option ((#) p) (cookie_pairs now ls))"

definition cookieHeader :: "load_env \<Rightarrow> string \<Rightarrow> string outcome" where
  "cookieHeader env path =
     (case le_fs env path of
        Contents txt \<Rightarrow>
          (case scan_lines (64 * 1024) txt of (ls, toolong) \<Rightarrow>
             case cookie_pairs (le_now env) ls of
               None \<Rightarrow> Panic
             | Some ps \<Rightarrow>
                 if toolong then Failed CookiesUnreadable
                 else if ps = [] then Failed NoCookies
                 else Done (''Cookie: '' @ join_with ''; '' ps))
      | _ \<Rightarrow> Failed CookiesUnreadable)"

subsection \<open>The layers\<close>

definition finish_load :: "load_env \<Rightarrow> string list \<Rightarrow> options \<Rightarrow> options outcome" where
  "finish_load env positional s =
     (case resolveURLs env s positional of
        Inl e \<Rightarrow> Failed e
      | Inr (urls, s1) \<Rightarrow>
          let s2 = s1\<lparr>o_URLs := urls\<rparr>
          in case Validate s2 of
               Some e \<Rightarrow> Failed (Invalid e)
             | None \<Rightarrow>
                 if o_LoadCookie s2 = [] then Done s2
                 else case cookieHeader env (o_LoadCookie s2) of
                   Done hdr \<Rightarrow> Done (s2\<lparr>o_Headers := o_Headers s2 @ [hdr]\<rparr>)
                 | Failed e \<Rightarrow> Failed e
                 | Panic \<Rightarrow> Panic)"

definition LoadLayers :: "load_env \<Rightarrow> bool \<Rightarrow> string list \<Rightarrow> options \<Rightarrow> options outcome" where
  "LoadLayers env config_given positional s =
     (let sysPath = o_ConfigFile s
      in case ParseFile env sysPath of
           Broken e \<Rightarrow> Failed (SystemConfig e)
         | f \<Rightarrow>
             let s1 = apply_file f s;
                 s2 = (case UserConfigPath env of None \<Rightarrow> s1 | Some up \<Rightarrow> apply_file (ParseFile env up) s1)
             in if config_given \<and> o_ConfigFile s2 \<noteq> sysPath
                then (case ParseFile env (o_ConfigFile s2) of
                        Broken e \<Rightarrow> Failed (ExplicitConfig e)
                      | g \<Rightarrow> finish_load env positional (apply_file g s2))
                else finish_load env positional s2)"

definition Load :: "load_env \<Rightarrow> bool \<Rightarrow> string list \<Rightarrow> options outcome" where
  "Load env config_given args = LoadLayers env config_given args DefaultPtr"

definition Setup :: "load_env \<Rightarrow> string list \<Rightarrow> options outcome" where
  "Setup env argv =
     (case le_flags env (NormalizeArgs argv) of
        None \<Rightarrow> Failed BadFlags
      | Some (given, positional) \<Rightarrow>
          let s = CaptureChanged given (fold write_flag given DefaultPtr)
          in LoadLayers env (IsSet ''config'' s) positional s)"

subsection \<open>Precedence\<close>

definition file_kv :: "load_env \<Rightarrow> string \<Rightarrow> (string \<times> string) list" where
  "file_kv env path = (case ParseFile env path of Parsed kv \<Rightarrow> kv | _ \<Rightarrow> [])"

definition user_kv :: "load_env \<Rightarrow> (string \<times> string) list" where
  "user_kv env = (case UserConfigPath env of None \<Rightarrow> [] | Some up \<Rightarrow> file_kv env up)"

definition clean :: "(string \<times> string) list \<Rightarrow> bool" where
  "clean kv \<longleftrightarrow> distinct (map fst kv) \<and> list_all (\<lambda>(k, v). parses k v) kv"

lemma apply_file_kv: "apply_file (ParseFile env path) s = snd (Apply (file_kv env path) s)"
  by (cases "ParseFile env path") (simp_all add: apply_file_def file_kv_def)

lemma clean_apply: "clean kv \<Longrightarrow> setting k (snd (Apply kv s)) = file_value k kv s"
  "clean kv \<Longrightarrow> o_changed (snd (Apply kv s)) = o_changed s"
  using settings_of_file by (auto simp: clean_def)

text \<open>No file can move \<open>ConfigFile\<close>, so the branch for an explicit \<open>--config\<close> is never taken.\<close>

lemma config_file_setting: "setting ''config'' s = Some (StrV (o_ConfigFile s))"
  by (simp add: setting_def flag_table_def key_table_def flag_only_def value_in_def)

lemma Apply_config_file: "o_ConfigFile (snd (Apply kv s)) = o_ConfigFile s"
proof (induction kv arbitrary: s)
  case (Cons kv0 kv)
  obtain k v where k: "kv0 = (k, v)" by (cases kv0)
  have "o_ConfigFile s1 = o_ConfigFile s" if s1: "setFromKey k v s = Inr s1" for s1
  proof (cases "k = ''config''")
    case True
    then have "s1 = s" using s1 by (simp add: setFromKey_def key_table_def)
    then show ?thesis by simp
  next
    case False
    then show ?thesis using setFromKey_frame(1) [OF s1, of "''config''"] config_file_setting by simp
  qed
  then show ?case using Cons.IH by (simp add: k split: sum.split)
qed simp

lemma LoadLayers_eq:
  "LoadLayers env config_given positional s =
     (case ParseFile env (o_ConfigFile s) of
        Broken e \<Rightarrow> Failed (SystemConfig e)
      | _ \<Rightarrow> finish_load env positional (snd (Apply (user_kv env) (snd (Apply (file_kv env (o_ConfigFile s)) s)))))"
  by (auto simp: LoadLayers_def Let_def apply_file_kv Apply_config_file user_kv_def apply_file_def file_kv_def
      split: parsed_file.split option.split)

lemma parseMetalink_options:
  assumes "parseMetalink env path s = Inr (urls, s1)"
  shows "\<exists>c ms. s1 = s\<lparr>o_Checksum := c, o_Mirrors := ms\<rparr> \<or> s1 = s\<lparr>o_Mirrors := ms\<rparr>"
proof (cases "le_fs env path")
  case (Contents body)
  show ?thesis
  proof (cases "le_xml env body")
    case (Some fs)
    then obtain f0 rest where f0: "fs = f0 # rest" using assms Contents by (cases fs) (simp_all add: parseMetalink_def)
    let ?p = "pick_hash [] (ml_Hashes f0)"
    let ?ms = "o_Mirrors s @ drop 1 (filter (\<lambda>u. u \<noteq> []) (map trim_space (ml_URLs f0)))"
    have "s1 = (if ?p \<noteq> [] then s\<lparr>o_Checksum := ?p, o_Mirrors := ?ms\<rparr> else s\<lparr>o_Mirrors := ?ms\<rparr>)"
    proof (cases "?p = []")
      case True
      then show ?thesis using assms by (simp add: parseMetalink_def Contents Some f0 Let_def split: if_split_asm)
    next
      case False
      then show ?thesis using assms by (simp add: parseMetalink_def Contents Some f0 Let_def split: if_split_asm)
    qed
    then show ?thesis by (cases "?p = []") (simp_all, blast+)
  qed (use assms Contents in \<open>simp add: parseMetalink_def\<close>)
qed (use assms in \<open>simp_all add: parseMetalink_def\<close>)

lemma resolveURLs_options:
  assumes "resolveURLs env s positional = Inr (urls, s1)"
  shows "s1 = s \<or> (\<exists>c ms. s1 = s\<lparr>o_Checksum := c, o_Mirrors := ms\<rparr> \<or> s1 = s\<lparr>o_Mirrors := ms\<rparr>)"
proof (cases "o_InputFile s \<noteq> [] \<and> isMetalinkName (o_InputFile s)")
  case True
  then show ?thesis using assms parseMetalink_options by (simp add: resolveURLs_def Let_def)
next
  case False
  then have "s1 = s"
    using assms by (cases "le_fs env (o_InputFile s)") (simp_all add: resolveURLs_def Let_def split: if_splits prod.splits)
  then show ?thesis by simp
qed

lemma no_list_key:
  assumes "map_of key_table k \<noteq> None" "k \<noteq> ''mirror''"
  shows "map_of key_table k \<noteq> Some (ListE get put)"
proof -
  have "list_all (\<lambda>(k, e). k \<noteq> ''mirror'' \<longrightarrow> (case e of ListE _ _ \<Rightarrow> False | _ \<Rightarrow> True)) key_table" by (simp add: key_table_def)
  then show ?thesis using assms by (auto simp: list_all_iff dest!: map_of_SomeD)
qed

lemma finish_setting:
  assumes "finish_load env positional s = Done s'" "k \<notin> {''checksum'', ''mirror'', ''header''}"
  shows "setting k s' = setting k s"
proof -
  have m: "setting k s1 = setting k s" if "resolveURLs env s positional = Inr (urls, s1)" for urls s1
    using resolveURLs_options [OF that] assms(2) other_fields(1,2) by auto
  show ?thesis
    using assms m other_fields
    by (auto simp: finish_load_def Let_def split: sum.splits prod.splits option.splits if_splits outcome.splits)
qed


definition demo_env :: load_env where
  "demo_env =
     \<lparr>le_fs = (\<lambda>p. if p = ''/h/.config/odm/config.conf'' then Contents ''retry = 4'' else if p = ''/x.conf'' then Contents ''retry = 9'' else Absent),
      le_userdir = Some ''/h/.config'', le_now = 1000, le_xml = (\<lambda>_. None),
      le_flags = (\<lambda>_. Some ([(''config'', StrV ''/x.conf'')], [''http://h/f''])), le_order = id\<rparr>"

lemma demo_files: "user_kv demo_env = [(''retry'', ''4'')]" "file_kv demo_env ''/x.conf'' = [(''retry'', ''9'')]"
  by code_simp+

lemma demo_clean: "clean [(''retry'', ''4'')]" "clean [(''retry'', ''9'')]"
  by code_simp+

text \<open>An explicit \<open>--config\<close> does not win. Setup with \<open>--config /x.conf\<close>, where that file says retry = 9 and the user's
  own file says retry = 4, loads retry = 4: the flag has already replaced the path the loader takes for the system file.\<close>

theorem explicit_config_loses:
  "\<exists>s. Setup demo_env [''--config'', ''/x.conf'', ''http://h/f''] = Done s \<and> o_ConfigFile s = ''/x.conf'' \<and> o_Retry s = 4"
proof -
  have "case Setup demo_env [''--config'', ''/x.conf'', ''http://h/f''] of
      Done s \<Rightarrow> o_ConfigFile s = ''/x.conf'' \<and> o_Retry s = 4 | _ \<Rightarrow> False"
    by code_simp
  then show ?thesis by (simp split: outcome.splits)
qed


subsection \<open>The Metalink document\<close>

definition is_sha256 :: "string \<times> string \<Rightarrow> bool" where
  "is_sha256 h \<longleftrightarrow> to_lower (trim_space (fst h)) = ''sha256''"

lemma pick_hash_strongest:
  "list_ex is_sha256 hs \<or> has_prefix pick ''sha256:'' \<Longrightarrow> has_prefix (pick_hash pick hs) ''sha256:''"
proof (induction pick hs rule: pick_hash.induct)
  case (2 pick ty val hs)
  define t where "t = to_lower (trim_space ty)"
  have n: "pick \<noteq> [] \<and> \<not> has_prefix pick ''md5:''" if "has_prefix pick ''sha256:''"
    using that by (cases pick) auto
  consider "t = ''sha256''" | "t = ''sha1''" | "t = ''md5''" | "t \<notin> {''sha256'', ''sha1'', ''md5''}" by blast
  then show ?case
  proof cases
    case 1
    then show ?thesis using "2.IH"(1) by (simp add: Let_def t_def)
  next
    case 2
    then show ?thesis using "2.IH"(2) "2.prems" n by (auto simp: Let_def t_def is_sha256_def)
  next
    case 3
    then show ?thesis using "2.IH"(3) "2.prems" n by (auto simp: Let_def t_def is_sha256_def)
  next
    case 4
    then show ?thesis using "2.IH"(4) "2.prems" by (simp add: Let_def t_def is_sha256_def)
  qed
qed simp

text \<open>A Metalink input becomes one task with mirrors. When it resolves, the URL list is exactly its first location, the
  other locations are appended to the mirrors in order, nothing else but the checksum changes, and if the document has a
  SHA-256 hash, the checksum to verify is a SHA-256.\<close>

theorem metalink_one_task:
  assumes "o_InputFile s \<noteq> []" and "isMetalinkName (o_InputFile s)" and "resolveURLs env s positional = Inr (urls, s')"
  shows "\<exists>body f0 rest us. le_fs env (o_InputFile s) = Contents body \<and> le_xml env body = Some (f0 # rest)
    \<and> urls @ us = filter (\<lambda>u. u \<noteq> []) (map trim_space (ml_URLs f0)) \<and> length urls = 1 \<and> o_Mirrors s' = o_Mirrors s @ us
    \<and> s' = s\<lparr>o_Checksum := o_Checksum s', o_Mirrors := o_Mirrors s'\<rparr>
    \<and> (list_ex is_sha256 (ml_Hashes f0) \<longrightarrow> has_prefix (o_Checksum s') ''sha256:'')"
proof -
  have pm: "parseMetalink env (o_InputFile s) s = Inr (urls, s')" using assms by (simp add: resolveURLs_def Let_def)
  then obtain body where b: "le_fs env (o_InputFile s) = Contents body"
    by (cases "le_fs env (o_InputFile s)") (simp_all add: parseMetalink_def)
  obtain fs where "le_xml env body = Some fs" using pm b by (cases "le_xml env body") (simp_all add: parseMetalink_def)
  moreover from this obtain f0 rest where "fs = f0 # rest" using pm b by (cases fs) (simp_all add: parseMetalink_def)
  ultimately have x: "le_xml env body = Some (f0 # rest)" by simp
  let ?p = "pick_hash [] (ml_Hashes f0)"
  define us where "us = filter (\<lambda>u. u \<noteq> []) (map trim_space (ml_URLs f0))"
  have u: "urls = take 1 us" "us \<noteq> []"
    and s': "s' = (if ?p \<noteq> [] then s\<lparr>o_Checksum := ?p\<rparr> else s)\<lparr>o_Mirrors := o_Mirrors s @ drop 1 us\<rparr>"
    using pm by (cases "?p = []"; simp add: parseMetalink_def b x Let_def us_def split: if_split_asm)+
  have "has_prefix (o_Checksum s') ''sha256:''" if h: "list_ex is_sha256 (ml_Hashes f0)"
  proof -
    have "has_prefix ?p ''sha256:''" using pick_hash_strongest [of "ml_Hashes f0" "[]"] h by blast
    then have "?p \<noteq> []" by auto
    then show ?thesis using \<open>has_prefix ?p ''sha256:''\<close> by (simp add: s')
  qed
  moreover have "urls @ drop 1 us = us" "length urls = 1" using u by (simp_all add: Suc_le_eq)
  moreover have "o_Mirrors s' = o_Mirrors s @ drop 1 us" "s' = s\<lparr>o_Checksum := o_Checksum s', o_Mirrors := o_Mirrors s'\<rparr>"
    by (simp_all add: s')
  ultimately show ?thesis using b x us_def by metis
qed

definition demo_metalink :: load_env where
  "demo_metalink = demo_env\<lparr>le_fs := (\<lambda>p. if p = ''f.meta4'' then Contents ''<metalink/>'' else Absent),
     le_xml := (\<lambda>_. Some [\<lparr>ml_Name = ''f'', ml_Hashes = [(''md5'', ''00''), (''SHA256'', ''AB'')], ml_URLs = [''http://a/f'', ''http://b/f'']\<rparr>])\<rparr>"

theorem metalink_one_task_witness:
  "\<exists>urls s'. resolveURLs demo_metalink (DefaultPtr\<lparr>o_InputFile := ''f.meta4''\<rparr>) [] = Inr (urls, s') \<and> length urls = 1
     \<and> o_Checksum s' = ''sha256:ab''"
proof -
  let ?s = "DefaultPtr\<lparr>o_InputFile := ''f.meta4''\<rparr>"
  have "case resolveURLs demo_metalink ?s [] of Inr (urls, s') \<Rightarrow> o_Checksum s' = ''sha256:ab'' | _ \<Rightarrow> False" by code_simp
  then obtain urls s' where r: "resolveURLs demo_metalink ?s [] = Inr (urls, s')" "o_Checksum s' = ''sha256:ab''"
    by (auto split: sum.splits)
  have "isMetalinkName (o_InputFile ?s)" by code_simp
  then show ?thesis using metalink_one_task [OF _ _ r(1)] r by auto
qed

subsection \<open>The cookie file\<close>

record cookie =
  ck_domain :: string
  ck_flag :: string
  ck_path :: string
  ck_secure :: string
  ck_expiry :: int
  ck_name :: string
  ck_value :: string

definition plain :: "string \<Rightarrow> bool" where
  "plain s \<longleftrightarrow> s \<noteq> [] \<and> list_all (\<lambda>c. \<not> is_space c) s"

definition good_cookie :: "cookie \<Rightarrow> bool" where
  "good_cookie c \<longleftrightarrow> plain (ck_domain c) \<and> hd (ck_domain c) \<noteq> CHR ''#'' \<and> plain (ck_flag c) \<and> plain (ck_path c) \<and> plain (ck_secure c)
     \<and> 0 \<le> ck_expiry c \<and> ck_expiry c < 2 ^ 63 \<and> plain (ck_name c) \<and> plain (ck_value c)"

definition cookie_line :: "cookie \<Rightarrow> string" where
  "cookie_line c = ck_domain c @ tab # ck_flag c @ tab # ck_path c @ tab # ck_secure c @ tab # itoa (ck_expiry c) @ tab
     # ck_name c @ tab # ck_value c"

definition cookie_file :: "cookie list \<Rightarrow> string" where
  "cookie_file cs = concat (map (\<lambda>c. cookie_line c @ [CHR 0x0A]) cs)"

definition live_cookie :: "int \<Rightarrow> cookie \<Rightarrow> bool" where
  "live_cookie now c \<longleftrightarrow> \<not> (0 < ck_expiry c \<and> ck_expiry c \<le> now)"

lemma plain_no_tab: "plain s \<Longrightarrow> tab \<notin> set s"
  by (auto simp: plain_def list_all_iff tab_def is_space_def)

lemma plain_itoa: "0 \<le> i \<Longrightarrow> plain (itoa i)"
proof -
  have "\<not> is_space c" if "digit_val c \<noteq> None" for c
  proof
    assume "is_space c"
    then show False using that by (auto simp: is_space_def digit_val_def)
  qed
  then show "0 \<le> i \<Longrightarrow> plain (itoa i)" using nat_digits_are_digits by (auto simp: plain_def itoa_def list_all_iff)
qed

lemma plain_trim: "plain s \<Longrightarrow> trim_space s = s"
  by (intro trim_id) (auto simp: plain_def list_all_iff)

lemma plain_first_field: "plain s \<Longrightarrow> first_field s = Some s"
proof -
  assume p: "plain s"
  have n: "\<not> blank_or_tab c" if "c \<in> set s" for c
    using p that by (auto simp: plain_def list_all_iff blank_or_tab_def tab_def is_space_def)
  have "dropWhile blank_or_tab s = s" using n p by (cases s) (auto simp: plain_def)
  moreover have "takeWhile (\<lambda>c. \<not> blank_or_tab c) s = s" using n by (simp add: takeWhile_eq_all_conv)
  moreover have "s \<noteq> []" using p by (simp add: plain_def)
  ultimately show ?thesis unfolding first_field_def Let_def by (simp only: if_False)
qed

lemma cookie_row_line:
  assumes g: "good_cookie c"
  shows "cookie_row now (cookie_line c) = (if live_cookie now c then Pair (ck_name c @ ''='' @ ck_value c) else Skip)"
proof -
  note p = g [unfolded good_cookie_def]
  have e: "plain (itoa (ck_expiry c))" using p plain_itoa by blast
  have ne: "cookie_line c \<noteq> []" "hd (cookie_line c) = hd (ck_domain c)" "last (cookie_line c) = last (ck_value c)"
    using p by (auto simp: cookie_line_def plain_def)
  have sp: "\<not> is_space (hd (ck_domain c))" "\<not> is_space (last (ck_value c))" using p by (auto simp: plain_def list_all_iff)
  have t: "trim_space (cookie_line c) = cookie_line c" using trim_id ne sp by metis
  have h: "\<not> has_prefix (cookie_line c) (CHR ''#'' # x)" for x using ne p by (cases "cookie_line c") auto
  have "split_n 7 tab (cookie_line c) =
      [ck_domain c, ck_flag c, ck_path c, ck_secure c, itoa (ck_expiry c), ck_name c, ck_value c]"
    using p e by (simp add: cookie_line_def plain_no_tab str_cut_first numeral_eq_Suc)
  then show ?thesis
    using p e t h ne(1)
    by (simp add: cookie_row_def Let_def trim_prefix_def plain_trim plain_first_field parse_int_itoa live_cookie_def plain_def [of "ck_name c"]
      plain_def [of "ck_value c"])
qed

lemma break_lines_line: "CHR 0x0A \<notin> set l \<Longrightarrow> break_lines acc (l @ CHR 0x0A # r) = (rev acc @ l) # break_lines [] r"
  by (induction l arbitrary: acc) auto

lemma cookie_line_chars:
  assumes "good_cookie c"
  shows "CHR 0x0A \<notin> set (cookie_line c)" and "drop_cr (cookie_line c) = cookie_line c"
proof -
  have n: "CHR 0x0A \<notin> set s" if "plain s" for s using that by (auto simp: plain_def list_all_iff is_space_def)
  show "CHR 0x0A \<notin> set (cookie_line c)"
    using assms n plain_itoa [of "ck_expiry c"] by (auto simp: good_cookie_def cookie_line_def tab_def)
  have "last (cookie_line c) = last (ck_value c)" "\<not> is_space (last (ck_value c))"
    using assms by (auto simp: good_cookie_def cookie_line_def plain_def list_all_iff)
  then show "drop_cr (cookie_line c) = cookie_line c" by (auto simp: drop_cr_def is_space_def)
qed

lemma scan_cookie_file:
  assumes "list_all (\<lambda>c. good_cookie c \<and> int (length (cookie_line c)) < n) cs"
  shows "scan_lines n (cookie_file cs) = (map cookie_line cs, False)"
proof -
  have "break_lines [] (cookie_file cs) = map cookie_line cs" using assms
  proof (induction cs)
    case (Cons c cs)
    then show ?case using break_lines_line [OF cookie_line_chars(1) [of c], of "[]" "cookie_file cs"] by (simp add: cookie_file_def)
  qed (simp add: cookie_file_def)
  moreover have "takeWhile (\<lambda>l. int (length l) < n) (map cookie_line cs) = map cookie_line cs"
    using assms by (auto simp: takeWhile_eq_all_conv list_all_iff)
  moreover have "map drop_cr (map cookie_line cs) = map cookie_line cs"
    using assms cookie_line_chars(2) by (auto simp: list_all_iff)
  moreover have "list_ex (\<lambda>l. n \<le> int (length l)) (map cookie_line cs) = False"
    using assms by (auto simp: list_all_iff list_ex_iff)
  ultimately show ?thesis unfolding scan_lines_def Let_def by (simp only:)
qed

lemma cookie_pairs_lines:
  "list_all good_cookie cs \<Longrightarrow>
   cookie_pairs now (map cookie_line cs) = Some (map (\<lambda>c. ck_name c @ ''='' @ ck_value c) (filter (live_cookie now) cs))"
  by (induction cs) (simp_all add: cookie_row_line)

text \<open>C39: A cookie file is read back: for a Netscape file written from a list of cookies, the header that is sent holds
  exactly the cookies that have not expired, as name=value pairs in the order of the file, and there is an error just when
  none is left.\<close>

theorem cookie_file_roundtrip:
  assumes "list_all good_cookie cs" and "list_all (\<lambda>c. length (cookie_line c) < 65536) cs"
    and "le_fs env path = Contents (cookie_file cs)"
  shows "cookieHeader env path =
    (case filter (live_cookie (le_now env)) cs of
       [] \<Rightarrow> Failed NoCookies
     | l \<Rightarrow> Done (''Cookie: '' @ join_with ''; '' (map (\<lambda>c. ck_name c @ ''='' @ ck_value c) l)))"
proof -
  have "scan_lines 65536 (cookie_file cs) = (map cookie_line cs, False)"
    by (rule scan_cookie_file) (use assms(1,2) in \<open>auto simp: list_all_iff\<close>)
  then show ?thesis using assms cookie_pairs_lines by (simp add: cookieHeader_def split: list.split)
qed

definition demo_cookies :: "cookie list" where
  "demo_cookies =
     [\<lparr>ck_domain = ''h'', ck_flag = ''TRUE'', ck_path = ''/'', ck_secure = ''FALSE'', ck_expiry = 0, ck_name = ''sid'', ck_value = ''1''\<rparr>,
      \<lparr>ck_domain = ''h'', ck_flag = ''TRUE'', ck_path = ''/'', ck_secure = ''FALSE'', ck_expiry = 999, ck_name = ''old'', ck_value = ''2''\<rparr>]"

theorem cookie_file_roundtrip_witness:
  "cookieHeader (demo_env\<lparr>le_fs := (\<lambda>_. Contents (cookie_file demo_cookies))\<rparr>) ''c.txt'' = Done ''Cookie: sid=1''"
proof -
  have "list_all good_cookie demo_cookies" "list_all (\<lambda>c. int (length (cookie_line c)) < 65536) demo_cookies" by code_simp+
  then show ?thesis
    using cookie_file_roundtrip [of demo_cookies "demo_env\<lparr>le_fs := (\<lambda>_. Contents (cookie_file demo_cookies))\<rparr>" "''c.txt''"]
    by (simp add: demo_cookies_def live_cookie_def demo_env_def list_all_iff)
qed

text \<open>A row whose expiry field is blank stops the program.\<close>

lemma blank_expiry_panics: "cookie_row 0 (''h'' @ tab # ''TRUE'' @ tab # ''/'' @ tab # ''FALSE'' @ tab # tab # ''sid'' @ tab # ''1'') = RowPanic"
  by code_simp

end
