(* ===== verification/Update.thy ===== *)
theory Update imports Config_Load "HOL-Library.Product_Lexorder" begin

section \<open>Self-update (internal/update/update.go)\<close>

text \<open>
  Version comparison, the detection of the install method, the dispatch of the update and the cached hint. What the
  machine answers is the record below: the files and commands present, what the curl of the releases page prints and what
  encoding/json reads as its tag_name, and whether a command run succeeds.
\<close>

subsection \<open>Versions\<close>

definition parseSemver :: "string \<Rightarrow> int \<times> int \<times> int" where
  "parseSemver s0 =
     (let s = trim_prefix (trim_prefix s0 ''v'') ''odm/'';
          parts = map (\<lambda>p. int_or_bound (parse_int p)) (split_n 3 (CHR ''.'') s);
          at = (\<lambda>i. if i < length parts then parts ! i else 0)
      in (at 0, at 1, at 2))"

fun compare_parts :: "int list \<Rightarrow> int list \<Rightarrow> int" where
  "compare_parts (a # as) (b # bs) = (if a < b then - 1 else if a > b then 1 else compare_parts as bs)"
| "compare_parts _ _ = 0"

definition CompareVersions :: "string \<Rightarrow> string \<Rightarrow> int" where
  "CompareVersions a b =
     (case (parseSemver a, parseSemver b) of ((a0, a1, a2), (b0, b1, b2)) \<Rightarrow> compare_parts [a0, a1, a2] [b0, b1, b2])"

subsection \<open>The machine\<close>

record machine =
  mc_pacman :: bool
  mc_pacman_knows :: bool
  mc_exe :: "string option"
  mc_evalSymlinks :: "string \<Rightarrow> string"
  mc_home :: "string option"
  mc_curl :: "string option"
  mc_tag_name :: "string \<Rightarrow> string option"
  mc_lookPath :: "string \<Rightarrow> bool"
  mc_runs :: "string list \<Rightarrow> bool"
  mc_TMPDIR :: string
  mc_tempDir :: string
  mc_mkdir :: "string \<Rightarrow> bool"
  mc_createTemp :: "string \<Rightarrow> string option"
  mc_writable :: bool

datatype update_error = NoRelease | BadRelease | EmptyTag | NoTempFile | DownloadFailed | ScriptFailed | HelperFailed

text \<open>The version of the latest release; the download URL beside it is not used by any caller.\<close>

definition CheckLatest :: "machine \<Rightarrow> update_error + string" where
  "CheckLatest m =
     (case mc_curl m of
        None \<Rightarrow> Inl NoRelease
      | Some out \<Rightarrow>
          (case mc_tag_name m out of
             None \<Rightarrow> Inl BadRelease
           | Some tag \<Rightarrow> let ver = trim_prefix tag ''v'' in if ver = [] then Inl EmptyTag else Inr ver))"

subsection \<open>The install method\<close>

datatype InstallMethod = MethodSelf | MethodAUR | MethodManual

definition isAUR :: "machine \<Rightarrow> bool" where
  "isAUR m = (if \<not> mc_pacman m then False else mc_pacman_knows m)"

text \<open>filepath.Dir, and filepath.Join of several elements.\<close>

definition path_dir :: "string \<Rightarrow> string" where
  "path_dir p = path_clean (take (length p - length (after_last slash p)) p)"

definition path_joins :: "string list \<Rightarrow> string" where
  "path_joins es = (let ne = dropWhile (\<lambda>e. e = []) es in if ne = [] then [] else path_clean (join_with [slash] ne))"

definition home_dir :: "machine \<Rightarrow> string" where
  "home_dir m = (case mc_home m of None \<Rightarrow> [] | Some h \<Rightarrow> h)"

definition DetectInstallMethod :: "machine \<Rightarrow> InstallMethod" where
  "DetectInstallMethod m =
     (if isAUR m then MethodAUR
      else case mc_exe m of
        None \<Rightarrow> MethodManual
      | Some exe \<Rightarrow>
          let dir = path_dir (mc_evalSymlinks m exe)
          in if \<exists>d \<in> set [path_joins [home_dir m, ''.local'', ''bin''], ''/usr/local/bin'']. path_clean dir = path_clean d
             then MethodSelf else MethodManual)"

subsection \<open>Running the update\<close>

text \<open>The commands run, in order, and the error.\<close>

definition runAUR :: "machine \<Rightarrow> string list list \<times> update_error option" where
  "runAUR m =
     (case filter (mc_lookPath m) [''yay'', ''paru''] of
        [] \<Rightarrow> ([], None)
      | helper # _ \<Rightarrow> let c = [helper, ''-S'', ''odm-bin''] in ([c], if mc_runs m c then None else Some HelperFailed))"

definition installScriptURL :: string where "installScriptURL = ''https://odm.orynix.id/install.sh''"

definition script_dir :: "machine \<Rightarrow> string" where
  "script_dir m =
     (let d = (if mc_TMPDIR m = [] then mc_tempDir m else mc_TMPDIR m)
      in if mc_mkdir m d then d else path_joins [home_dir m, ''.odm-tmp''])"

definition runInstallScript :: "machine \<Rightarrow> string list list \<times> update_error option" where
  "runInstallScript m =
     (case mc_createTemp m (script_dir m) of
        None \<Rightarrow> ([], Some NoTempFile)
      | Some tmp \<Rightarrow>
          let fetch = [''curl'', ''-fsSL'', ''-o'', tmp, installScriptURL]; script = [''bash'', tmp, ''--update'']
          in if \<not> mc_runs m fetch then ([fetch], Some DownloadFailed)
             else ([fetch, script], if mc_runs m script then None else Some ScriptFailed))"

definition Run_update :: "string \<Rightarrow> machine \<Rightarrow> string list list \<times> update_error option" where
  "Run_update currentVersion m =
     (case CheckLatest m of
        Inl e \<Rightarrow> ([], Some e)
      | Inr latest \<Rightarrow>
          if CompareVersions currentVersion latest \<ge> 0 then ([], None)
          else case DetectInstallMethod m of
            MethodAUR \<Rightarrow> runAUR m
          | MethodSelf \<Rightarrow> runInstallScript m
          | MethodManual \<Rightarrow> runInstallScript m)"

subsection \<open>The hint\<close>

definition hintCacheMaxAge :: int where "hintCacheMaxAge = 24 * 60 * 60"

definition hint_text :: "string \<Rightarrow> string" where
  "hint_text ver = [CHR 0xE2, CHR 0x86, CHR 0x92] @ '' update available: v'' @ ver @ '' (odm update)''"

definition hint_for :: "string \<Rightarrow> string \<Rightarrow> string" where
  "hint_for currentVersion latest = (if CompareVersions currentVersion latest < 0 then hint_text latest else [])"

definition cache_line :: char where "cache_line = CHR 0x0A"

text \<open>The version of a cache that is not too old.\<close>

definition cached_version :: "int \<Rightarrow> string option \<Rightarrow> string option" where
  "cached_version now cache =
     (case cache of
        None \<Rightarrow> None
      | Some data \<Rightarrow>
          (case split_n 2 cache_line data of
             [stamp, ver] \<Rightarrow> if w64 (now - int_or_bound (parse_int stamp)) < hintCacheMaxAge then Some ver else None
           | _ \<Rightarrow> None))"

text \<open>The hint, whether the releases page was asked, and the cache file afterwards.\<close>

definition Hint :: "string \<Rightarrow> machine \<Rightarrow> int \<Rightarrow> string option \<Rightarrow> string \<times> bool \<times> string option" where
  "Hint currentVersion m now cache0 =
     (let cache = (if mc_home m = None then None else cache0)
      in case cached_version now cache of
           Some ver \<Rightarrow> (hint_for currentVersion ver, False, cache0)
         | None \<Rightarrow>
             (case CheckLatest m of
                Inl e \<Rightarrow> ([], True, cache0)
              | Inr latest \<Rightarrow>
                  (hint_for currentVersion latest, True,
                   if mc_home m \<noteq> None \<and> mc_writable m then Some (itoa now @ cache_line # latest) else cache0)))"

subsection \<open>The order of versions, and what an update does\<close>

text \<open>Versions are ordered lexicographically by their three numbers.\<close>

lemma CompareVersions_lex:
  "CompareVersions a b =
     (if parseSemver a < parseSemver b then - 1 else if parseSemver b < parseSemver a then 1 else 0)"
  by (auto simp: CompareVersions_def less_prod_def split: prod.split)

text \<open>C37: An update never goes backwards. A command is run only when the latest release was read and is newer, in the
  lexicographic order of the three version numbers, than the running program; the script is run only after its download
  succeeded, from the file it was downloaded to; and the helper only on a machine where the package is installed by pacman.\<close>

theorem update_only_newer:
  assumes "Run_update current m = (commands, err)" and "c \<in> set commands"
  shows "\<exists>latest. CheckLatest m = Inr latest \<and> parseSemver current < parseSemver latest
    \<and> (isAUR m \<and> (c = [''yay'', ''-S'', ''odm-bin''] \<or> c = [''paru'', ''-S'', ''odm-bin''])
      \<or> \<not> isAUR m \<and> (\<exists>tmp. mc_createTemp m (script_dir m) = Some tmp
          \<and> (c = [''curl'', ''-fsSL'', ''-o'', tmp, installScriptURL]
             \<or> c = [''bash'', tmp, ''--update''] \<and> mc_runs m [''curl'', ''-fsSL'', ''-o'', tmp, installScriptURL])))"
proof -
  obtain latest where l: "CheckLatest m = Inr latest" using assms by (auto simp: Run_update_def split: sum.splits)
  then have n: "CompareVersions current latest < 0" using assms by (auto simp: Run_update_def split: if_splits)
  then have lex: "parseSemver current < parseSemver latest" by (auto simp: CompareVersions_lex split: if_splits)
  have r: "Run_update current m = (case DetectInstallMethod m of MethodAUR \<Rightarrow> runAUR m | _ \<Rightarrow> runInstallScript m)"
    using l n by (auto simp: Run_update_def split: InstallMethod.split)
  have d: "DetectInstallMethod m = MethodAUR \<longleftrightarrow> isAUR m" by (auto simp: DetectInstallMethod_def Let_def split: option.split)
  have aur: "c = [''yay'', ''-S'', ''odm-bin''] \<or> c = [''paru'', ''-S'', ''odm-bin'']" if "c \<in> set (fst (runAUR m))"
    using that by (auto simp: runAUR_def Let_def split: if_splits)
  have script: "\<exists>tmp. mc_createTemp m (script_dir m) = Some tmp
      \<and> (c = [''curl'', ''-fsSL'', ''-o'', tmp, installScriptURL]
         \<or> c = [''bash'', tmp, ''--update''] \<and> mc_runs m [''curl'', ''-fsSL'', ''-o'', tmp, installScriptURL])"
    if "c \<in> set (fst (runInstallScript m))"
    using that by (auto simp: runInstallScript_def Let_def split: option.splits if_splits)
  have f: "fst (Run_update current m) = commands" using assms(1) by simp
  show ?thesis using l lex r d f assms(2) aur script by (cases "DetectInstallMethod m") auto
qed

text \<open>The hint asks the releases page at most once a day. After a hint that asked and could write its cache, every hint
  within 24 hours answers the same from the cache and asks nothing.\<close>

theorem hint_throttled:
  assumes "Hint current m now cache = (text, True, cache1)" and "CheckLatest m = Inr latest"
    and "mc_home m = Some h" and "mc_writable m" and "mc_home m1 \<noteq> None"
    and "0 \<le> now" and "now \<le> later" and "later < now + hintCacheMaxAge" and "now < 2 ^ 62"
  shows "Hint current m1 later cache1 = (text, False, cache1)"
proof -
  have c: "cached_version now cache = None" using assms(1,3) by (auto simp: Hint_def split: option.splits)
  then have t: "text = hint_for current latest" "cache1 = Some (itoa now @ cache_line # latest)"
    using assms(1-4) by (auto simp: Hint_def)
  have "cache_line \<notin> set (itoa now)" using nat_digits_are_digits [of cache_line] assms(6) by (auto simp: itoa_def cache_line_def digit_val_def)
  then have "split_n 2 cache_line (itoa now @ cache_line # latest) = [itoa now, latest]" by (simp add: numeral_2_eq_2 str_cut_first)
  moreover have "int_or_bound (parse_int (itoa now)) = now" using parse_int_itoa assms(6,9) by simp
  moreover have "w64 (later - now) = later - now" using assms(6-9) by (simp add: hintCacheMaxAge_def)
  ultimately have "cached_version later cache1 = Some latest" using assms(8) by (simp add: cached_version_def t(2))
  then show ?thesis using assms(5) t by (auto simp: Hint_def)
qed

subsection \<open>A machine\<close>

definition demo_machine :: machine where
  "demo_machine = \<lparr>mc_pacman = False, mc_pacman_knows = False, mc_exe = Some ''/usr/local/bin/odm'', mc_evalSymlinks = id,
     mc_home = Some ''/root'', mc_curl = Some ''v1.10.0'', mc_tag_name = Some, mc_lookPath = (\<lambda>_. False), mc_runs = (\<lambda>_. True),
     mc_TMPDIR = [], mc_tempDir = ''/tmp'', mc_mkdir = (\<lambda>_. True), mc_createTemp = (\<lambda>d. Some (d @ ''/odm.sh'')), mc_writable = True\<rparr>"

lemma demo_run: "Run_update ''1.9.3'' demo_machine =
    ([[''curl'', ''-fsSL'', ''-o'', ''/tmp/odm.sh'', installScriptURL], [''bash'', ''/tmp/odm.sh'', ''--update'']], None)"
  by code_simp

theorem update_only_newer_witness: "\<exists>latest. CheckLatest demo_machine = Inr latest \<and> parseSemver ''1.9.3'' < parseSemver latest"
  using update_only_newer [OF demo_run, of "[''bash'', ''/tmp/odm.sh'', ''--update'']"] by auto

theorem hint_throttled_witness:
  "Hint ''1.9.3'' demo_machine 1700000060 (Some (itoa 1700000000 @ cache_line # ''1.10.0'')) =
     (hint_text ''1.10.0'', False, Some (itoa 1700000000 @ cache_line # ''1.10.0''))"
proof -
  have "CheckLatest demo_machine = Inr ''1.10.0''" "CompareVersions ''1.9.3'' ''1.10.0'' = - 1" by code_simp+
  moreover have "cached_version 1700000000 None = None" by (simp add: cached_version_def)
  ultimately have "Hint ''1.9.3'' demo_machine 1700000000 None = (hint_text ''1.10.0'', True, Some (itoa 1700000000 @ cache_line # ''1.10.0''))"
    by (simp add: Hint_def hint_for_def demo_machine_def)
  then show ?thesis
    using hint_throttled [of "''1.9.3''" demo_machine 1700000000 None _ _ "''1.10.0''" "''/root''" demo_machine 1700000060]
      \<open>CheckLatest demo_machine = Inr ''1.10.0''\<close> by (simp add: demo_machine_def hintCacheMaxAge_def)
qed

end
