(* ===== verification/Cli.thy ===== *)
theory Cli imports Rpc Smart_Profile Prompt Logging Update begin

section \<open>The program (cmd/odm/main.go)\<close>

text \<open>
  The run of the binary: the early exits, the options of the engine, the parallel probe pass, the plan, the prompt, the
  tasks, and the exit status; and the start of the RPC daemon. The network enters by what a probe of a URL returns (None
  when it fails), whether a server speaks HTTP/2, and what building a transport client returns; the terminal by the lines
  the user types. The scheduler's run is the step relation of \<open>Scheduler\<close>, started from the plan. The text of an error
  that comes out of another package is a tag or a parameter.
\<close>

subsection \<open>Exit status\<close>

datatype run_error = ErrExit int string | PlainError string

definition errExit_Error :: "int \<Rightarrow> string \<Rightarrow> string" where
  "errExit_Error code msg = (if msg = [] then ''exit code '' @ itoa code else msg)"

fun main_status :: "run_error option \<Rightarrow> int" where
  "main_status None = 0"
| "main_status (Some (ErrExit code msg)) = code"
| "main_status (Some (PlainError msg)) = ExitGeneral"

subsection \<open>Early exits\<close>

datatype early = ShowHelp | ShowVersion | SelfUpdate

fun preHelpOrVersion :: "string list \<Rightarrow> early option" where
  "preHelpOrVersion [] = None"
| "preHelpOrVersion (a # as) =
     (if a = ''--'' then None
      else if a = ''-h'' \<or> a = ''--help'' then Some ShowHelp
      else if a = ''-V'' \<or> a = ''--version'' then Some ShowVersion
      else if a = ''update'' then Some SelfUpdate
      else preHelpOrVersion as)"

subsection \<open>The options of the engine\<close>

fun dedupe_from :: "string set \<Rightarrow> string list \<Rightarrow> string list" where
  "dedupe_from seen [] = []"
| "dedupe_from seen (u # us) = (if u \<in> seen then dedupe_from seen us else u # dedupe_from (insert u seen) us)"

definition dedupeURLs :: "string list \<Rightarrow> string list" where
  "dedupeURLs urls = dedupe_from {} urls"

definition batchChecksumWarning :: "options \<Rightarrow> string" where
  "batchChecksumWarning s =
     (if length (o_URLs s) > 1 \<and> o_Checksum s \<noteq> [] \<and> \<not> o_Quiet s
      then ''warning: --checksum ignored when downloading multiple URLs (one hash cannot cover multiple files)'' else [])"

definition collisionPolicy :: "options \<Rightarrow> string" where
  "collisionPolicy s = (if o_AutoRename s then ''rename'' else if o_SkipExisting s then ''skip'' else [])"

datatype size_error = BadSize rate_error | BelowKiB int

definition parseChunkSize :: "string \<Rightarrow> size_error + int" where
  "parseChunkSize s0 =
     (let s = trim_space s0
      in if s = [] then Inr (4 * 1024 * 1024)
         else case ParseRate s of
           Inl e \<Rightarrow> Inl (BadSize e)
         | Inr n \<Rightarrow> if n < 1024 then Inl (BelowKiB n) else Inr n)"

definition buildExecOptions :: "string \<Rightarrow> options \<Rightarrow> size_error + exec_opts" where
  "buildExecOptions cwd s =
     (case parseChunkSize (o_ChunkSize s) of
        Inl e \<Rightarrow> Inl e
      | Inr chunk \<Rightarrow>
          (case parseChunkSize (o_MinSplitSize s) of
             Inl e \<Rightarrow> Inl e
           | Inr minSplit \<Rightarrow> Inr
               \<lparr>eo_Dir = (if o_Dir s = [] then cwd else o_Dir s), eo_OutFile = o_OutFile s, eo_Connections = o_Connections s,
                eo_SplitFile = o_SplitFile s, eo_Retry = o_Retry s, eo_RetryWait = w64 (o_RetryWait s * second),
                eo_Continue = o_Continue s, eo_ChunkSize = chunk, eo_Timeout = w64 (o_Timeout s * second),
                eo_Checksum = o_Checksum s, eo_ChecksumURL = o_ChecksumURL s, eo_Mirrors = o_Mirrors s,
                eo_LimitRate = o_LimitRate s, eo_TaskLimitRate = o_TaskLimitRate s, eo_UserAgent = o_UserAgent s,
                eo_Headers = o_Headers s, eo_Referer = o_Referer s, eo_Proxy = o_Proxy s, eo_CheckCert = o_CheckCertificate s,
                eo_MaxRedirect = o_MaxRedirect s, eo_Profile = o_Profile s, eo_Split = o_Split s, eo_MinSplitSize = minSplit,
                eo_MaxConnPerServer = o_MaxConnPerServer s, eo_Collision = collisionPolicy s\<rparr>))"

subsection \<open>The probe pass\<close>

text \<open>A worker's share: every n-th URL from its own number on.\<close>

function stride :: "nat \<Rightarrow> nat \<Rightarrow> 'a list \<Rightarrow> 'a list" where
  "stride i n us = (if n = 0 \<or> length us \<le> i then [] else us ! i # stride (i + n) n us)"
  by pat_completeness auto
termination
  by (relation "measure (\<lambda>(i, n, us). length us - i)") auto

declare stride.simps [simp del]

definition probe_workers :: "string list \<Rightarrow> nat" where
  "probe_workers us = (let w = min (length us) 8 in if w < 1 then 1 else w)"

text \<open>The URLs each worker still has to probe, and the results received; the workers deliver in any order.\<close>

inductive probe_step :: "string list list \<times> string list \<Rightarrow> string list list \<times> string list \<Rightarrow> bool" where
  deliver: "shares = xs @ (u # us) # ys \<Longrightarrow> probe_step (shares, received) (xs @ us # ys, received @ [u])"

definition probe_start :: "string list \<Rightarrow> string list list \<times> string list" where
  "probe_start us = (map (\<lambda>w. stride w (probe_workers us) us) [0..<probe_workers us], [])"

record probed =
  pb_files :: "file_input list"
  pb_sizes :: "string \<Rightarrow> int option"
  pb_probes :: "string \<Rightarrow> probe_result option"

definition add_result :: "(string \<Rightarrow> probe_result option) \<Rightarrow> string \<Rightarrow> probed \<Rightarrow> probed" where
  "add_result probe u p =
     (case probe u of
        None \<Rightarrow> p\<lparr>pb_files := pb_files p @ [\<lparr>fi_URL = u, fi_SupportsRange = False\<rparr>], pb_sizes := (pb_sizes p)(u \<mapsto> - 1)\<rparr>
      | Some pr \<Rightarrow> p\<lparr>pb_files := pb_files p @ [\<lparr>fi_URL = u, fi_SupportsRange = SupportsRange pr\<rparr>],
                     pb_sizes := (pb_sizes p)(u \<mapsto> TotalSize pr), pb_probes := (pb_probes p)(u \<mapsto> pr)\<rparr>)"

definition collect :: "(string \<Rightarrow> probe_result option) \<Rightarrow> string list \<Rightarrow> probed" where
  "collect probe received =
     (let p = fold (add_result probe) received \<lparr>pb_files = [], pb_sizes = Map.empty, pb_probes = Map.empty\<rparr>
      in p\<lparr>pb_files := sort_key fi_URL (pb_files p)\<rparr>)"

subsection \<open>The engine of each file\<close>

definition resolveProfile :: "options \<Rightarrow> probe_result option \<Rightarrow> int \<Rightarrow> (string \<Rightarrow> bool) option \<Rightarrow> string \<times> string" where
  "resolveProfile s pr n h2 =
     (if o_Profile s \<noteq> ''smart'' then (o_Profile s, [])
      else case pr of
        None \<Rightarrow> (''odm'', ''probe failed'')
      | Some p \<Rightarrow> ChooseProfile \<lparr>cap_TotalSize = TotalSize p, cap_SupportsRange = SupportsRange p, cap_SingleStream = SingleStream p,
          cap_HTTP2Ready = (case h2 of None \<Rightarrow> False | Some ready \<Rightarrow> ready (FinalURL p)), cap_Conns = n\<rparr>)"

definition resolve_all ::
  "options \<Rightarrow> (string \<Rightarrow> probe_result option) \<Rightarrow> (string \<Rightarrow> bool) option \<Rightarrow> allocation list \<Rightarrow> (string \<Rightarrow> string option) \<times> (string \<Rightarrow> string option)" where
  "resolve_all s probes h2 as =
     fold (\<lambda>a (profiles, reasons).
       case probes (al_URL a) of
         None \<Rightarrow> (profiles, reasons)
       | Some pr \<Rightarrow>
           let (p, reason) = resolveProfile s (Some pr) (al_Connections a) h2
           in (profiles(al_URL a \<mapsto> p), if reason \<noteq> [] then reasons(al_URL a \<mapsto> reason) else reasons))
       as (Map.empty, Map.empty)"

subsection \<open>Preparing the one-shot run\<close>

record prepared =
  pp_urls :: "string list"
  pp_mgr :: manager
  pp_probed :: probed
  pp_plan :: plan
  pp_profiles :: "string \<Rightarrow> string option"
  pp_reasons :: "string \<Rightarrow> string option"

definition no_urls_msg :: string where "no_urls_msg = ''no URLs provided (pass URLs as args, -i <file>, or use --rpc)''"
definition output_msg :: string where
  "output_msg = ''--output/-o is only valid with a single URL (every task would write the same file)''"

text \<open>Up to the probe pass: the URLs, and the manager.\<close>

definition before_probe :: "(bool \<Rightarrow> 'e option) \<Rightarrow> string \<Rightarrow> options \<Rightarrow> run_error + string list \<times> manager" where
  "before_probe new_client cwd s =
     (if o_URLs s = [] then Inl (ErrExit ExitGeneral no_urls_msg)
      else if o_OutFile s \<noteq> [] \<and> length (o_URLs s) > 1 then Inl (ErrExit ExitGeneral output_msg)
      else
        let urls = dedupeURLs (o_URLs s); s1 = s\<lparr>o_URLs := urls\<rparr>
        in case buildExecOptions cwd s1 of
             Inl e \<Rightarrow> Inl (PlainError ''--chunk-size'')
           | Inr ex \<Rightarrow>
               (case NewManager new_client (if length urls > 1 then ex\<lparr>eo_Checksum := []\<rparr> else ex) of
                  Inl e \<Rightarrow> Inl (PlainError ''manager'')
                | Inr m \<Rightarrow> Inr (urls, m)))"

text \<open>From the results on: the plan and the engine of each file. The probe pass is cancelled when a result is missing.\<close>

fun compute_msg :: "compute_error \<Rightarrow> string" where
  "compute_msg NoURLs = ''no URLs provided''"
| "compute_msg BudgetBelowOne = ''connection budget (-c) must be at least 1''"
| "compute_msg SplitFileAboveBudget = ''split-file (-sf) cannot be greater than the total connection budget (-c)''"

definition after_probe ::
  "options \<Rightarrow> (string \<Rightarrow> bool) \<Rightarrow> (string \<Rightarrow> probe_result option) \<Rightarrow> string list \<Rightarrow> manager \<Rightarrow> string list \<Rightarrow> run_error + prepared" where
  "after_probe s h2ready probe urls m received =
     (if length received < length urls then Inl (ErrExit ExitCancelled ''cancelled during probe'')
      else
        let pb = collect probe received
        in case Compute (o_Connections s) (pb_files pb) (o_SplitFile s) (o_MaxConnection s) of
             Inl e \<Rightarrow> Inl (ErrExit ExitGeneral (compute_msg e))
           | Inr p \<Rightarrow>
               let (profiles, reasons) =
                 (if o_Profile s = ''smart''
                  then resolve_all s (pb_probes pb) (if mg_hasH2 m then Some h2ready else None) (Parallel p @ Queued p)
                  else (Map.empty, Map.empty))
               in Inr \<lparr>pp_urls = urls, pp_mgr = m, pp_probed = pb, pp_plan = p, pp_profiles = profiles, pp_reasons = reasons\<rparr>)"

text \<open>The task maker the scheduler calls, and the tasks of a list of allocations in order.\<close>

definition maker :: "prepared \<Rightarrow> string \<Rightarrow> manager \<Rightarrow> string \<times> manager" where
  "maker pp url m =
     (case NewTask url m of (i, n, m1) \<Rightarrow>
        case mg_heap m1 i of
          None \<Rightarrow> (i, m1)
        | Some t \<Rightarrow> (i, m1\<lparr>mg_heap := (mg_heap m1)(i \<mapsto>
            SetProfile (at_or [] (pp_profiles pp) url) (SetProbe (pb_probes (pp_probed pp) url) t))\<rparr>))"

fun make_all :: "prepared \<Rightarrow> string list \<Rightarrow> manager \<Rightarrow> string list \<times> manager" where
  "make_all pp [] m = ([], m)"
| "make_all pp (u # us) m = (case maker pp u m of (i, m1) \<Rightarrow> case make_all pp us m1 of (is, m2) \<Rightarrow> (i # is, m2))"

text \<open>The scheduler's state when its loop starts: the queue is built first, then the first tasks are admitted.\<close>

definition run_start :: "prepared \<Rightarrow> sched" where
  "run_start pp =
     (let p = pp_plan pp; (queue_ids, m1) = make_all pp (map al_URL (Queued p)) (pp_mgr pp)
      in run_setup p (map Some queue_ids) (map Some (fst (make_all pp (map al_URL (Parallel p)) m1))))"

text \<open>What \<open>run\<close> returns once the scheduler has: the cancelled loop returns the context's error.\<close>

definition run_result :: "sched \<Rightarrow> run_error option" where
  "run_result s =
     Some (ErrExit (if sc_windingDown s then ExitCancelled else ExitCodeFrom (sc_succeeded s) (sc_failed s) 0) [])"

subsection \<open>The prompt, the dry run and the summary\<close>

datatype out_stream = Stdout | StderrStream

definition progressWriter :: "bool \<Rightarrow> bool \<Rightarrow> out_stream" where
  "progressWriter stdout_tty stderr_tty = (if stdout_tty then Stdout else if stderr_tty then StderrStream else Stdout)"

definition writer_is_tty :: "bool \<Rightarrow> bool \<Rightarrow> bool" where
  "writer_is_tty stdout_tty stderr_tty =
     (case progressWriter stdout_tty stderr_tty of Stdout \<Rightarrow> stdout_tty | StderrStream \<Rightarrow> stderr_tty)"

definition confirmPlan :: "options \<Rightarrow> prepared \<Rightarrow> bool \<Rightarrow> string list \<Rightarrow> 'e option \<Rightarrow> (('e + bool) \<times> string) option" where
  "confirmPlan s pp useColor typed err =
     (let p = pp_plan pp; sizes = pb_sizes (pp_probed pp)
      in case pp_urls pp of
           [url] \<Rightarrow>
             let n = (case Parallel p of [] \<Rightarrow> 1 | a # _ \<Rightarrow> al_Connections a);
                 name = ResolveDest (eo_Dir (mg_opts (pp_mgr pp))) (eo_OutFile (mg_opts (pp_mgr pp))) url;
                 smart = (o_Profile s = ''smart'')
             in Some (ConfirmSingle (after_last slash name) name (at_or 0 sizes url) n
                  (if smart then at_or [] (pp_profiles pp) url else []) (if smart then at_or [] (pp_reasons pp) url else [])
                  useColor typed err)
         | _ \<Rightarrow>
             let rows = RowsFromPlan p sizes (pp_profiles pp) (pp_reasons pp) (o_Profile s = ''smart'');
                 connsPerFile = (if o_SplitFile s > 0 then o_SplitFile s
                   else case Parallel p of [] \<Rightarrow> 1 | a # _ \<Rightarrow> al_Connections a)
             in ConfirmBatch rows connsPerFile (int (length (Parallel p))) (int (length (pp_urls pp))) useColor typed err)"

definition shortURL :: "string \<Rightarrow> string" where
  "shortURL u = after_last (CHR ''/'') u"

definition dry_row :: "plan \<Rightarrow> (string \<Rightarrow> int option) \<Rightarrow> nat \<times> allocation \<Rightarrow> string" where
  "dry_row p sizes = (\<lambda>(i, a).
     let s = at_or 0 sizes (al_URL a);
         shown = (if s \<ge> 0 then FormatFileSize s else ''?'')
     in ''  ['' @ itoa (int i + 1) @ ''] x'' @ itoa (al_Connections a) @ ''  '' @ shown @ spaces (10 - int (length shown)) @ '' '' @
        shortURL (al_URL a) @ (if i \<ge> length (Parallel p) then '' [queued]'' else []) @ newline)"

definition printDryRun :: "options \<Rightarrow> plan \<Rightarrow> (string \<Rightarrow> int option) \<Rightarrow> string" where
  "printDryRun s p sizes =
     (let planned = Parallel p @ Queued p;
          sized = filter (\<lambda>n. n > 0) (map (\<lambda>a. at_or 0 sizes (al_URL a)) planned);
          n = itoa (int (length planned));
          mode = (if length planned = 1 then ''A'' else if o_SplitFile s > 0 then ''C'' else ''B'')
      in ''dry-run: probe + allocation only, nothing downloaded'' @ newline @
         (if length sized = length planned \<and> planned \<noteq> []
          then ''would download '' @ n @ '' file(s), total '' @ FormatFileSize (fold (\<lambda>x acc. w64 (acc + x)) sized 0)
          else ''would download '' @ n @ '' file(s), total unknown ('' @ itoa (int (length sized)) @ ''/'' @ n @ '' sized)'') @ newline @
         ''balancer mode '' @ mode @ '': '' @ itoa (int (length (Parallel p))) @ '' parallel'' @
         (if Queued p \<noteq> [] then '', '' @ itoa (int (length (Queued p))) @ '' queued'' else []) @ newline @
         concat (map (dry_row p sizes) (enumerate 0 planned)) @
         (if Warning p \<noteq> [] then ''note: '' @ Warning p @ newline else []))"

definition printSummary :: "int \<Rightarrow> int \<Rightarrow> int \<Rightarrow> bool \<Rightarrow> string" where
  "printSummary ok bad n stopped =
     (if stopped
      then newline @ ''odm: cancelled '' @ em_dash @ '' '' @ itoa ok @ ''/'' @ itoa n @
        '' files done; partial progress kept, re-run with --continue to resume'' @ newline
      else newline @ ''odm: '' @ itoa ok @ ''/'' @ itoa n @ '' files succeeded ('' @ itoa bad @ '' failed)'' @ newline)"

text \<open>The session log: one JSON object a line, its members sorted as encoding/json sorts the keys of a map. None is the nil log.\<close>

definition view_event :: "ProgressView \<Rightarrow> json" where
  "view_event v = JObj [(''bytes'', JNum (pv_BytesDone v)), (''errors'', JNum (pv_Errors v)), (''event'', JStr ''progress''),
     (''file'', JStr (pv_Filename v)), (''id'', JStr (pv_ID v)), (''retries'', JNum (pv_Retries v)), (''speed'', JNum (pv_Speed v)),
     (''state'', JStr (TaskState_String (pv_State v))), (''total'', JNum (pv_TotalSize v)), (''url'', JStr (pv_URL v))]"

definition log_views :: "ProgressView list \<Rightarrow> json list option \<Rightarrow> json list option" where
  "log_views vs slog = map_option (\<lambda>ls. ls @ map view_event vs) slog"

definition log_summary :: "string \<Rightarrow> int \<Rightarrow> int \<Rightarrow> int \<Rightarrow> json list option \<Rightarrow> json list option" where
  "log_summary ev ok bad n slog = map_option (\<lambda>ls. ls @ [JObj [(''event'', JStr ev), (''failed'', JNum bad), (''succeeded'', JNum ok),
     (''total'', JNum n)]]) slog"

subsection \<open>The RPC daemon\<close>

definition DefaultConnections :: int where "DefaultConnections = 5"

definition secretWord :: "string \<Rightarrow> string" where
  "secretWord s = (if s = [] then ''off'' else ''on'')"

record listener =
  ls_server :: server
  ls_addr :: string
  ls_tls :: bool

definition runRPC_start ::
  "(bool \<Rightarrow> 'e option) \<Rightarrow> string \<Rightarrow> ((string \<times> json) list \<Rightarrow> (string \<times> json) list) \<Rightarrow> options \<Rightarrow> run_error + listener" where
  "runRPC_start new_client cwd ord s =
     (case buildExecOptions cwd s of
        Inl e \<Rightarrow> Inl (PlainError ''--chunk-size'')
      | Inr ex \<Rightarrow>
          (case NewManager new_client (ex\<lparr>eo_OutFile := []\<rparr>) of
             Inl e \<Rightarrow> Inl (PlainError ''manager'')
           | Inr m \<Rightarrow>
               let slots = (if o_Connections s < 1 then DefaultConnections else o_Connections s);
                   d = OnDead 0 (Start (NewDaemon (NewEmptyScheduler (nat slots)) m));
                   host = (if o_RPCListenAll s then ''0.0.0.0'' else ''127.0.0.1'')
               in Inr \<lparr>ls_server = NewServer d (o_RPCSecret s) ord, ls_addr = host @ '':'' @ itoa (o_RPCPort s),
                       ls_tls = (o_RPCTLSCert s \<noteq> [] \<and> o_RPCTLSKey s \<noteq> [])\<rparr>))"

datatype serve_end = DaemonDead | Interrupted | ServeFailed run_error

fun runRPC_result :: "serve_end \<Rightarrow> run_error option" where
  "runRPC_result DaemonDead = None"
| "runRPC_result Interrupted = Some (ErrExit ExitCancelled ''rpc server interrupted'')"
| "runRPC_result (ServeFailed e) = Some e"

subsection \<open>The run\<close>

text \<open>What the program does with its arguments: it ends, serves, or goes on to probe; and what it does once the plan is
  there: it ends, or starts the downloads. pflag's own help error is told apart from the other flag errors by a parameter.\<close>

datatype start_action = Ends "run_error option" | Crashes | Serves listener | Probes options "string list" manager

definition run_begin ::
  "(bool \<Rightarrow> 'e option) \<Rightarrow> string \<Rightarrow> ((string \<times> json) list \<Rightarrow> (string \<times> json) list) \<Rightarrow> load_env \<Rightarrow> bool \<Rightarrow> (load_error \<Rightarrow> string) \<Rightarrow>
   bool \<Rightarrow> string list \<Rightarrow> start_action" where
  "run_begin new_client cwd ord env help_asked load_msg log_opens argv =
     (if preHelpOrVersion argv \<noteq> None then Ends None
      else case Setup env argv of
        Panic \<Rightarrow> Crashes
      | Failed e \<Rightarrow> Ends (if help_asked then None else Some (ErrExit ExitGeneral (load_msg e @ '' (run 'odm -h' for usage)'')))
      | Done s \<Rightarrow>
          if New_Logger (case ParseLevel (o_LogLevel s) of None \<Rightarrow> LevelInfo | Some lv \<Rightarrow> lv) (o_LogFile s) log_opens = None
          then Ends (Some (PlainError ''--log''))
          else if o_RPC s then
            (case runRPC_start new_client cwd ord s of Inl e \<Rightarrow> Ends (Some e) | Inr l \<Rightarrow> Serves l)
          else
            (case before_probe new_client cwd s of
               Inl e \<Rightarrow> Ends (Some e)
             | Inr (urls, m) \<Rightarrow> Probes (s\<lparr>o_URLs := urls\<rparr>) urls m))"

datatype run_action = Stops "run_error option" string | Crash | Downloads sched string

definition run_prepared ::
  "options \<Rightarrow> bool \<Rightarrow> string list \<Rightarrow> run_error option \<Rightarrow> bool \<Rightarrow> prepared \<Rightarrow> run_action" where
  "run_prepared s useColor typed read_err session_opens pp =
     (if o_DryRun s then Stops None (printDryRun s (pp_plan pp) (pb_sizes (pp_probed pp)))
      else
        let launch_it = (\<lambda>written. if o_SessionLog s \<noteq> [] \<and> \<not> session_opens then Stops (Some (PlainError ''session-log'')) written
                                  else Downloads (run_start pp) written)
        in if \<not> o_Yes s \<and> \<not> o_Quiet s then
             (case confirmPlan s pp useColor typed read_err of
                None \<Rightarrow> Crash
              | Some (Inl e, out) \<Rightarrow> Stops (Some e) out
              | Some (Inr ok, out) \<Rightarrow> if ok then launch_it out else Stops (Some (ErrExit ExitCancelled ''cancelled by user'')) out)
           else launch_it [])"

subsection \<open>Every URL is probed once\<close>

lemma dedupe_facts: "set (dedupe_from seen us) = set us - seen \<and> distinct (dedupe_from seen us)"
  by (induction seen us rule: dedupe_from.induct) auto

lemma dedupeURLs_facts: "set (dedupeURLs us) = set us" "distinct (dedupeURLs us)"
  using dedupe_facts [of "{}" us] by (simp_all add: dedupeURLs_def)

lemma stride_mset: "0 < n \<Longrightarrow> mset (stride i n us) = image_mset ((!) us) (mset_set {j. j < length us \<and> i \<le> j \<and> j mod n = i mod n})"
proof (induction i n us rule: stride.induct)
  case (1 i n us)
  show ?case
  proof (cases "length us \<le> i")
    case False
    have "{j. j < length us \<and> i \<le> j \<and> j mod n = i mod n} = insert i {j. j < length us \<and> i + n \<le> j \<and> j mod n = (i + n) mod n}"
      using False by (auto simp: mod_eq_dvd_iff_nat dest!: dvd_imp_le)
    moreover have "i \<notin> {j. j < length us \<and> i + n \<le> j \<and> j mod n = (i + n) mod n}" using 1(2) by simp
    ultimately show ?thesis using 1 False by (simp add: stride.simps [of i])
  next
    case True
    then have "{j. j < length us \<and> i \<le> j \<and> j mod n = i mod n} = {}" by auto
    then have "mset_set {j. j < length us \<and> i \<le> j \<and> j mod n = i mod n} = {#}" by (simp only: mset_set.empty)
    then show ?thesis using True by (simp add: stride.simps [of i])
  qed
qed

lemma strides_mset:
  assumes "0 < n"
  shows "mset (concat (map (\<lambda>w. stride w n us) [0..<n])) = mset us"
proof -
  have "mset (concat (map (\<lambda>w. stride w n us) [0..<k])) = image_mset ((!) us) (mset_set {j. j < length us \<and> j mod n < k})" if "k \<le> n" for k
    using that
  proof (induction k)
    case (Suc k)
    have "{j. j < length us \<and> j mod n < Suc k} = {j. j < length us \<and> j mod n < k} \<union> {j. j < length us \<and> k \<le> j \<and> j mod n = k mod n}"
      using Suc.prems by (auto simp: less_Suc_eq)
    moreover have "{j. j < length us \<and> j mod n < k} \<inter> {j. j < length us \<and> k \<le> j \<and> j mod n = k mod n} = {}" using Suc.prems by auto
    ultimately show ?case using Suc by (simp add: stride_mset [OF assms] mset_set_Union)
  qed simp
  from this [of n] assms have "mset (concat (map (\<lambda>w. stride w n us) [0..<n])) = image_mset ((!) us) (mset_set {..<length us})"
    by (simp add: lessThan_def)
  also have "\<dots> = mset (map ((!) us) [0..<length us])" by (simp only: mset_map mset_upt atLeast0LessThan)
  finally show ?thesis by (simp add: map_nth)
qed

lemma probe_reach:
  assumes "probe_step\<^sup>*\<^sup>* (probe_start us) st"
  shows "mset (snd st) + mset (concat (fst st)) = mset us"
  using assms
proof (induction rule: rtranclp_induct)
  case base
  have "0 < probe_workers us" by (simp add: probe_workers_def Let_def)
  then show ?case using strides_mset by (simp add: probe_start_def)
qed (auto elim!: probe_step.cases)

lemma collect_facts:
  fixes probe :: "string \<Rightarrow> probe_result option"
  assumes "p = fold (add_result probe) received \<lparr>pb_files = [], pb_sizes = Map.empty, pb_probes = Map.empty\<rparr>"
  shows "pb_files p = map (\<lambda>u. \<lparr>fi_URL = u, fi_SupportsRange = (case probe u of None \<Rightarrow> False | Some pr \<Rightarrow> SupportsRange pr)\<rparr>) received"
    and "pb_sizes p = (\<lambda>u. if u \<in> set received then Some (case probe u of None \<Rightarrow> - 1 | Some pr \<Rightarrow> TotalSize pr) else None)"
    and "pb_probes p = (\<lambda>u. if u \<in> set received then probe u else None)"
  unfolding assms by (induction received rule: rev_induct) (auto simp: add_result_def fun_eq_iff split: option.split)

lemma sort_key_map: "sort_key g (map f xs) = map f (sort_key (\<lambda>x. g (f x)) xs)"
proof -
  have "insort_key g (f x) (map f ys) = map f (insort_key (\<lambda>x. g (f x)) x ys)" for x ys by (induction ys) auto
  then show ?thesis by (induction xs) auto
qed

text \<open>C29: Each URL is probed exactly once, and what the pass hands on does not depend on the order in which the parallel
  workers answer. As long as a result is missing some worker can deliver one; when none is missing the files are the
  URLs in sorted order, each with the size and the range support of its own probe (size -1 and no ranges if it failed).\<close>

theorem probe_pass:
  assumes "distinct us" and "probe_step\<^sup>*\<^sup>* (probe_start us) (shares, received)"
  shows "mset received + mset (concat shares) = mset us
    \<and> (length received < length us \<longleftrightarrow> (\<exists>st. probe_step (shares, received) st))
    \<and> (length received = length us \<longrightarrow> collect probe received =
        \<lparr>pb_files = map (\<lambda>u. \<lparr>fi_URL = u, fi_SupportsRange = (case probe u of None \<Rightarrow> False | Some pr \<Rightarrow> SupportsRange pr)\<rparr>) (sort us),
         pb_sizes = (\<lambda>u. if u \<in> set us then Some (case probe u of None \<Rightarrow> - 1 | Some pr \<Rightarrow> TotalSize pr) else None),
         pb_probes = (\<lambda>u. if u \<in> set us then probe u else None)\<rparr>)"
proof -
  let ?f = "\<lambda>u. \<lparr>fi_URL = u, fi_SupportsRange = (case probe u of None \<Rightarrow> False | Some pr \<Rightarrow> SupportsRange pr)\<rparr>"
  have m: "mset received + mset (concat shares) = mset us" using probe_reach [OF assms(2)] by simp
  then have "length received + length (concat shares) = length us" by (metis size_mset size_union)
  then have left: "concat shares = [] \<longleftrightarrow> length received = length us" "concat shares \<noteq> [] \<longleftrightarrow> length received < length us"
    using length_0_conv [of "concat shares"] by linarith+
  have step: "concat shares \<noteq> [] \<longleftrightarrow> (\<exists>st. probe_step (shares, received) st)"
  proof
    assume "concat shares \<noteq> []"
    then obtain s where "s \<in> set shares" "s \<noteq> []" by auto
    then obtain xs u us' ys where "shares = xs @ (u # us') # ys" by (metis list.exhaust split_list)
    then show "\<exists>st. probe_step (shares, received) st" using deliver by blast
  qed (auto elim!: probe_step.cases)
  have "collect probe received = \<lparr>pb_files = map ?f (sort us),
      pb_sizes = (\<lambda>u. if u \<in> set us then Some (case probe u of None \<Rightarrow> - 1 | Some pr \<Rightarrow> TotalSize pr) else None),
      pb_probes = (\<lambda>u. if u \<in> set us then probe u else None)\<rparr>" if "concat shares = []"
  proof -
    have r: "mset received = mset us" using m that by simp
    then have s: "set received = set us" by (metis set_mset_mset)
    have "sort_key fi_URL (map ?f received) = map ?f (sort received)" by (simp add: sort_key_map)
    moreover have "sort received = sort us" using r by (intro properties_for_sort) auto
    ultimately show ?thesis by (simp add: collect_def Let_def collect_facts [OF refl] s)
  qed
  then show ?thesis using m left step by blast
qed

subsection \<open>The exit status of a one-shot run\<close>

lemma mg_nextID_track [simp]: "mg_nextID (track i t m) = mg_nextID m" by (simp add: track_def Let_def)

lemma maker_id: "maker pp u m = (i, m1) \<Longrightarrow> i = task_id (mg_nextID m + 1) \<and> mg_nextID m1 = mg_nextID m + 1"
  by (auto simp: maker_def NewTask_def Let_def split: option.splits)

lemma make_all_ids:
  "make_all pp us m = (is, m1) \<Longrightarrow> 0 \<le> mg_nextID m \<Longrightarrow>
   is = map task_id [mg_nextID m + 1..mg_nextID m + int (length us)] \<and> mg_nextID m1 = mg_nextID m + int (length us)"
proof (induction us arbitrary: m "is" m1)
  case (Cons u us)
  obtain i m2 where i: "maker pp u m = (i, m2)" by (cases "maker pp u m")
  obtain js m3 where j: "make_all pp us m2 = (js, m3)" by (cases "make_all pp us m2")
  have "[mg_nextID m + 1..mg_nextID m + int (length (u # us))] = (mg_nextID m + 1) # [mg_nextID m + 2..mg_nextID m + int (length (u # us))]"
    by (simp add: upto_rec1 algebra_simps)
  then show ?case using Cons.IH [OF j] Cons.prems i j maker_id [OF i] by (auto simp: algebra_simps)
qed auto

lemma made_zip: "length xs = length js \<Longrightarrow> made (zip xs (map Some js)) = js"
  by (induction xs js rule: list_induct2) auto

lemma distinct_task_ids: "0 \<le> a \<Longrightarrow> distinct (map task_id [a + 1..b])"
  by (auto simp: distinct_map inj_on_def task_id_inj)

text \<open>The scheduler starts with every live entry of the plan launched under an id of its own.\<close>

lemma run_start_eq:
  assumes "Queued (pp_plan pp) = []" and "0 \<le> mg_nextID (pp_mgr pp)"
  shows "run_start pp = run_setup (pp_plan pp) [] (map Some (map task_id
    [mg_nextID (pp_mgr pp) + 1..mg_nextID (pp_mgr pp) + int (length (Parallel (pp_plan pp)))]))"
  using make_all_ids [OF surjective_pairing assms(2), of pp "map al_URL (Parallel (pp_plan pp))"] assms(1)
  by (simp add: run_start_def Let_def)

lemma run_start_batch:
  assumes "Queued (pp_plan pp) = []" and "0 \<le> mg_nextID (pp_mgr pp)"
  shows "batch_inv (run_start pp)" "sc_begun (run_start pp) = int (length (Parallel (pp_plan pp)))"
proof -
  let ?p = "pp_plan pp"
  define js where "js = map task_id [mg_nextID (pp_mgr pp) + 1..mg_nextID (pp_mgr pp) + int (length (Parallel ?p))]"
  have l: "length js = length (Parallel ?p)" by (simp add: js_def)
  have r: "run_start pp = run_setup ?p [] (map Some js)" unfolding js_def by (rule run_start_eq [OF assms])
  have "made (zip (Parallel ?p) (map Some js)) = js" using l by (simp add: made_zip)
  moreover have "distinct js" unfolding js_def by (rule distinct_task_ids [OF assms(2)])
  ultimately have "distinct (made (zip (Queued ?p) []) @ made (zip (Parallel ?p) (map Some js)))" by simp
  note si = setup_inv [OF this]
  have "sc_queued (run_start pp) = []" using si(4) assms(1) by (simp add: r)
  moreover have "sched_inv (run_start pp)" "sc_phase (run_start pp) = Selecting" "\<not> sc_doneClosed (run_start pp)" "\<not> sc_isIdle (run_start pp)"
    unfolding r using si by blast+
  ultimately show "batch_inv (run_start pp)" by (auto simp: batch_inv_def)
  have "sc_begun (admit_initial (zip (Parallel ?p) (map Some js)) 0 (NewScheduler ?p)) = sc_begun (NewScheduler ?p) + int (length js)"
    by (rule admit_initial_begun) (simp_all add: NewScheduler_def l)
  moreover have "sc_begun (NewScheduler ?p) = 0" by (simp add: NewScheduler_def)
  ultimately show "sc_begun (run_start pp) = int (length (Parallel ?p))"
    unfolding r run_setup_def assms(1) by (simp only: zip.simps queue_plan.simps l)
qed

lemma before_probe_facts:
  assumes "before_probe new_client cwd s = Inr (urls, m)"
  shows "urls = dedupeURLs (o_URLs s)" "urls \<noteq> []" "mg_nextID m = 0"
    "\<exists>ex. buildExecOptions cwd (s\<lparr>o_URLs := urls\<rparr>) = Inr ex \<and> mg_opts m = (if length urls > 1 then ex\<lparr>eo_Checksum := []\<rparr> else ex)"
    "o_OutFile s \<noteq> [] \<Longrightarrow> length (o_URLs s) = 1"
proof -
  show u: "urls = dedupeURLs (o_URLs s)" and "mg_nextID m = 0"
    and "\<exists>ex. buildExecOptions cwd (s\<lparr>o_URLs := urls\<rparr>) = Inr ex \<and> mg_opts m = (if length urls > 1 then ex\<lparr>eo_Checksum := []\<rparr> else ex)"
    using assms by (auto simp: before_probe_def NewManager_def Let_def split: if_splits sum.splits option.splits)
  have o: "o_URLs s \<noteq> []" "o_OutFile s \<noteq> [] \<longrightarrow> \<not> length (o_URLs s) > 1" using assms by (auto simp: before_probe_def split: if_splits)
  show "urls \<noteq> []" using u o(1) dedupeURLs_facts(1) [of "o_URLs s"] by (metis set_empty)
  show "o_OutFile s \<noteq> [] \<Longrightarrow> length (o_URLs s) = 1" using o by (cases "o_URLs s") auto
qed

lemma after_probe_plan:
  assumes "after_probe s h2ready probe urls m received = Inr pp"
  shows "length (Parallel (pp_plan pp)) + length (Queued (pp_plan pp)) = length received" "pp_mgr pp = m" "pp_urls pp = urls"
    "Compute (o_Connections s) (pb_files (pp_probed pp)) (o_SplitFile s) (o_MaxConnection s) = Inr (pp_plan pp)"
    "pp_probed pp = collect probe received"
proof -
  show c: "Compute (o_Connections s) (pb_files (pp_probed pp)) (o_SplitFile s) (o_MaxConnection s) = Inr (pp_plan pp)"
    and "pp_mgr pp = m" "pp_urls pp = urls" and pb: "pp_probed pp = collect probe received"
    using assms by (auto simp: after_probe_def Let_def split: if_splits sum.splits prod.splits)
  have "length (pb_files (pp_probed pp)) = length received"
    unfolding pb by (simp add: collect_def Let_def collect_facts(1) [OF refl])
  then show "length (Parallel (pp_plan pp)) + length (Queued (pp_plan pp)) = length received"
    using arg_cong [OF Compute_partition [OF c], of length] by simp
qed

text \<open>C4: The program reports success exactly when everything was downloaded. When the plan queues nothing, however the
  workers of the probe pass, the tasks and a cancellation interleave, every URL has been counted once when the run
  returns, and the exit status is 0 just in case the run was not cancelled and each URL succeeded.\<close>

theorem exit_status_honest:
  assumes "before_probe new_client cwd s = Inr (urls, m)"
    and "probe_step\<^sup>*\<^sup>* (probe_start urls) (shares, received)"
    and "after_probe s h2ready probe urls m received = Inr pp" and "Queued (pp_plan pp) = []"
    and "sched_step\<^sup>*\<^sup>* (run_start pp) sc" and "sc_phase sc = Returned"
  shows "sc_succeeded sc + sc_failed sc = int (length urls)
    \<and> (main_status (run_result sc) = 0 \<longleftrightarrow> \<not> sc_windingDown sc \<and> sc_succeeded sc = int (length urls))"
proof -
  note b = before_probe_facts [OF assms(1)] and a = after_probe_plan [OF assms(3)]
  have "\<not> length received < length urls" using assms(3) by (auto simp: after_probe_def)
  moreover have "length received + length (concat shares) = length urls"
    using probe_reach [OF assms(2)] by (metis fst_conv size_mset size_union snd_conv)
  ultimately have n: "length (Parallel (pp_plan pp)) = length urls" using a(1) assms(4) by simp
  note r = run_start_batch [OF assms(4)]
  have i: "batch_inv (run_start pp)" and g: "sc_begun (run_start pp) = int (length urls)" using r b(3) a(2) n by simp_all
  have "batch_inv sc" "sc_begun sc = int (length urls)" using batch_reach [OF assms(5) i] batch_begun [OF assms(5) i] g by simp_all
  then have t: "sc_succeeded sc + sc_failed sc = int (length urls)"
    using assms(6) unfolding batch_inv_def sched_inv_def by (elim conjE) simp
  moreover have "0 < length urls" using b(2) by simp
  ultimately show ?thesis
    by (auto simp: run_result_def ExitCancelled_def ExitCodeFrom_def ExitGeneral_def ExitOK_def ExitNetwork_def ExitPartial_def)
qed

subsection \<open>Consent\<close>

text \<open>What a user means by a line, spelled out: yes is an empty line, y or yes, and no is n or no, in any case and with any blanks
  around it.\<close>

definition bare :: "string \<Rightarrow> string" where
  "bare l = (let blank = (\<lambda>c. c \<in> {CHR '' '', CHR 0x09, CHR 0x0A, CHR 0x0B, CHR 0x0C, CHR 0x0D})
             in rev (dropWhile blank (rev (dropWhile blank l))))"

definition means_yes :: "string \<Rightarrow> bool" where
  "means_yes l \<longleftrightarrow> bare l \<in> {[], ''y'', ''Y'', ''yes'', ''yeS'', ''yEs'', ''yES'', ''Yes'', ''YeS'', ''YEs'', ''YES''}"

definition means_no :: "string \<Rightarrow> bool" where
  "means_no l \<longleftrightarrow> bare l \<in> {''n'', ''N'', ''no'', ''nO'', ''No'', ''NO''}"

definition consents :: "string list \<Rightarrow> bool" where
  "consents typed \<longleftrightarrow> (case dropWhile (\<lambda>l. \<not> means_yes l \<and> \<not> means_no l) typed of [] \<Rightarrow> False | l # _ \<Rightarrow> means_yes l)"

text \<open>That a screen shows the plan: the destination and the size of a single file, or one line for each planned file, in
  the order of the plan, with its name (cut to 40 cells) and its size.\<close>

definition shows_plan :: "prepared \<Rightarrow> string \<Rightarrow> bool" where
  "shows_plan pp out \<longleftrightarrow>
     (let sizes = pb_sizes (pp_probed pp); planned = Parallel (pp_plan pp) @ Queued (pp_plan pp)
      in case pp_urls pp of
           [url] \<Rightarrow> sublist (ResolveDest (eo_Dir (mg_opts (pp_mgr pp))) (eo_OutFile (mg_opts (pp_mgr pp))) url) out \<and>
             sublist (FormatFileSize (at_or 0 sizes url)) out
         | _ \<Rightarrow> \<exists>before ls after. out = before @ concat ls @ after \<and>
             list_all2 (\<lambda>a l. sublist (padToCells (truncateNameTo (shortName (al_URL a)) 40) 40) l \<and>
               sublist (FormatFileSize (at_or 0 sizes (al_URL a))) l) planned ls)"

lemma dropWhile_map': "dropWhile P (map f xs) = map f (dropWhile (\<lambda>x. P (f x)) xs)"
  by (induction xs) auto

lemma char_of_inj: "a < 256 \<Longrightarrow> b < 256 \<Longrightarrow> (char_of (a::nat) = char_of b) = (a = b)"
  by (metis of_char_of mod_less)

lemma to_lower_char_letter:
  "97 \<le> m \<Longrightarrow> m \<le> 122 \<Longrightarrow> to_lower_char c = char_of (m::nat) \<longleftrightarrow> c = char_of m \<or> c = char_of (m - 32)"
proof -
  assume m: "97 \<le> m" "m \<le> 122"
  obtain n where n: "c = char_of (n::nat)" "n < 256" by (metis char_of_char nat_of_char_less_256)
  then show ?thesis using m by (auto simp: to_lower_char_def char_of_inj)
qed

lemma letter_codes:
  "char_of (121::nat) = CHR ''y''" "char_of (89::nat) = CHR ''Y''" "char_of (101::nat) = CHR ''e''" "char_of (69::nat) = CHR ''E''"
  "char_of (115::nat) = CHR ''s''" "char_of (83::nat) = CHR ''S''" "char_of (110::nat) = CHR ''n''" "char_of (78::nat) = CHR ''N''"
  "char_of (111::nat) = CHR ''o''" "char_of (79::nat) = CHR ''O''" "char_of (32::nat) = CHR '' ''" "char_of (9::nat) = CHR 0x09"
  "char_of (10::nat) = CHR 0x0A" "char_of (11::nat) = CHR 0x0B" "char_of (12::nat) = CHR 0x0C" "char_of (13::nat) = CHR 0x0D"
  by code_simp+

lemma lower_letters:
  "to_lower_char c = CHR ''y'' \<longleftrightarrow> c = CHR ''y'' \<or> c = CHR ''Y''" "to_lower_char c = CHR ''e'' \<longleftrightarrow> c = CHR ''e'' \<or> c = CHR ''E''"
  "to_lower_char c = CHR ''s'' \<longleftrightarrow> c = CHR ''s'' \<or> c = CHR ''S''" "to_lower_char c = CHR ''n'' \<longleftrightarrow> c = CHR ''n'' \<or> c = CHR ''N''"
  "to_lower_char c = CHR ''o'' \<longleftrightarrow> c = CHR ''o'' \<or> c = CHR ''O''"
  using to_lower_char_letter [of 121 c] to_lower_char_letter [of 101 c] to_lower_char_letter [of 115 c]
    to_lower_char_letter [of 110 c] to_lower_char_letter [of 111 c] by (simp_all add: letter_codes)

lemma space_lower: "is_space (to_lower_char c) = is_space c"
proof -
  obtain n where n: "c = char_of (n::nat)" "n < 256" by (metis char_of_char nat_of_char_less_256)
  have s: "is_space (char_of k) \<longleftrightarrow> k \<in> {9, 10, 11, 12, 13, 32}" if "k < 256" for k :: nat
  proof -
    have "{CHR '' '', CHR 0x09, CHR 0x0A, CHR 0x0B, CHR 0x0C, CHR 0x0D} = char_of ` {9, 10, 11, 12, 13, 32 :: nat}"
      by (simp add: letter_codes) blast
    then show ?thesis using that by (auto simp: is_space_def char_of_inj)
  qed
  show ?thesis using n s [of n] s [of "n + 32"] by (auto simp: to_lower_char_def)
qed

lemma trim_lower: "trim_space (to_lower l) = to_lower (bare l)"
proof -
  have "is_space = (\<lambda>c. c \<in> {CHR '' '', CHR 0x09, CHR 0x0A, CHR 0x0B, CHR 0x0C, CHR 0x0D})"
    by (auto simp: is_space_def fun_eq_iff)
  then have b: "bare l = rev (dropWhile is_space (rev (dropWhile is_space l)))" by (simp add: bare_def Let_def)
  have "dropWhile is_space (map to_lower_char xs) = map to_lower_char (dropWhile is_space xs)" for xs
    by (simp add: dropWhile_map' space_lower)
  then show ?thesis by (simp add: b trim_space_def trim_left_def to_lower_def rev_map)
qed

lemma lower_words:
  "to_lower w = [] \<longleftrightarrow> w = []" "to_lower w = ''y'' \<longleftrightarrow> w \<in> {''y'', ''Y''}" "to_lower w = ''n'' \<longleftrightarrow> w \<in> {''n'', ''N''}"
  "to_lower w = ''yes'' \<longleftrightarrow> w \<in> {''yes'', ''yeS'', ''yEs'', ''yES'', ''Yes'', ''YeS'', ''YEs'', ''YES''}"
  "to_lower w = ''no'' \<longleftrightarrow> w \<in> {''no'', ''nO'', ''No'', ''NO''}"
proof -
  show "to_lower w = [] \<longleftrightarrow> w = []" "to_lower w = ''y'' \<longleftrightarrow> w \<in> {''y'', ''Y''}" "to_lower w = ''n'' \<longleftrightarrow> w \<in> {''n'', ''N''}"
    by (auto simp: to_lower_def map_eq_Cons_conv lower_letters)
  have "to_lower w = ''yes'' \<longleftrightarrow> (\<exists>a b c. w = [a, b, c] \<and> to_lower_char a = CHR ''y'' \<and> to_lower_char b = CHR ''e'' \<and> to_lower_char c = CHR ''s'')"
    by (auto simp: to_lower_def map_eq_Cons_conv)
  then show "to_lower w = ''yes'' \<longleftrightarrow> w \<in> {''yes'', ''yeS'', ''yEs'', ''yES'', ''Yes'', ''YeS'', ''YEs'', ''YES''}"
    unfolding lower_letters by auto
  have "to_lower w = ''no'' \<longleftrightarrow> (\<exists>a b. w = [a, b] \<and> to_lower_char a = CHR ''n'' \<and> to_lower_char b = CHR ''o'')"
    by (auto simp: to_lower_def map_eq_Cons_conv)
  then show "to_lower w = ''no'' \<longleftrightarrow> w \<in> {''no'', ''nO'', ''No'', ''NO''}"
    unfolding lower_letters by auto
qed

text \<open>The reader of the prompt understands a line as its user means it.\<close>

lemma read_answer_meant:
  "read_answer l = Yes \<longleftrightarrow> means_yes l" "read_answer l = No \<longleftrightarrow> means_no l"
  by (auto simp: read_answer_def Let_def trim_lower means_yes_def means_no_def lower_words)

lemma ConfirmAsk_consents: "fst (ConfirmAsk prompt typed err) = Inr True \<Longrightarrow> consents typed"
proof (induction typed)
  case (Cons l rest)
  then show ?case using read_answer_meant [of l]
    by (cases "read_answer l") (auto simp: consents_def split: prod.splits)
qed (simp add: consents_def split: option.splits)

lemma fst_ask_after: "fst (ask_after w useColor typed err) = fst (ConfirmAsk (continue_prompt useColor) typed err)"
  by (simp add: ask_after_def split: prod.split)

lemma ConfirmBatch_asks: "ConfirmBatch rows c f n useColor typed err = Some x \<Longrightarrow> fst x = fst (ConfirmAsk (continue_prompt useColor) typed err)"
  using fst_ask_after by (auto simp: ConfirmBatch_def)

lemma confirmPlan_asks:
  assumes "confirmPlan s pp useColor typed err = Some x"
  shows "fst x = fst (ConfirmAsk (continue_prompt useColor) typed err)"
proof (cases "\<exists>u. pp_urls pp = [u]")
  case True
  then show ?thesis using assms by (auto simp: confirmPlan_def ConfirmSingle_def Let_def fst_ask_after)
next
  case False
  then show ?thesis using assms by (auto simp: confirmPlan_def Let_def split: list.splits dest!: ConfirmBatch_asks)
qed

lemma those_Some: "those xs = Some ys \<longleftrightarrow> xs = map Some ys"
  by (induction xs arbitrary: ys) (auto split: option.splits)

lemma batch_row_shows:
  "batch_row useColor (i, r) = Some l \<Longrightarrow>
   sublist (padToCells (truncateNameTo (fr_Name r) 40) 40) l \<and> sublist (FormatFileSize (fr_Size r)) l"
  by (auto simp: batch_row_def Let_def paint_def sublist_append sublist_Cons_right)

lemma ConfirmBatch_shows:
  assumes "ConfirmBatch rows c f n useColor typed err = Some (r, out)"
  shows "\<exists>before ls after. out = before @ concat ls @ after \<and>
    list_all2 (\<lambda>r l. sublist (padToCells (truncateNameTo (fr_Name r) 40) 40) l \<and> sublist (FormatFileSize (fr_Size r)) l) rows ls"
proof -
  obtain ls where ls: "those (map (batch_row useColor) (enumerate 0 rows)) = Some ls"
    and out: "ask_after (batch_head rows c f n useColor @ concat ls) useColor typed err = (r, out)"
    using assms by (auto simp: ConfirmBatch_def)
  have m: "map (batch_row useColor) (enumerate 0 rows) = map Some ls" using ls by (simp add: those_Some)
  then have "length rows = length ls" by (metis length_map length_enumerate)
  moreover have "batch_row useColor (i, rows ! i) = Some (ls ! i)" if "i < length rows" for i
    using arg_cong [OF m, of "\<lambda>xs. xs ! i"] that calculation by (simp add: nth_enumerate_eq)
  ultimately have "list_all2 (\<lambda>r l. sublist (padToCells (truncateNameTo (fr_Name r) 40) 40) l \<and> sublist (FormatFileSize (fr_Size r)) l) rows ls"
    by (auto simp: list_all2_conv_all_nth dest!: batch_row_shows)
  moreover have "\<exists>after. out = batch_head rows c f n useColor @ concat ls @ after"
    using out by (auto simp: ask_after_def split: prod.splits)
  ultimately show ?thesis by blast
qed

lemma confirmPlan_shows:
  assumes "confirmPlan s pp useColor typed err = Some (r, out)"
  shows "shows_plan pp out"
proof (cases "\<exists>u. pp_urls pp = [u]")
  case True
  then obtain u where u: "pp_urls pp = [u]" by blast
  show ?thesis using assms
    by (auto simp: u confirmPlan_def Let_def shows_plan_def ConfirmSingle_def ask_after_def single_text_def paint_def sublist_append sublist_Cons_right
        split: prod.splits if_splits)
next
  case False
  obtain c f n where b: "ConfirmBatch (RowsFromPlan (pp_plan pp) (pb_sizes (pp_probed pp)) (pp_profiles pp) (pp_reasons pp)
      (o_Profile s = ''smart'')) c f n useColor typed err = Some (r, out)"
    using assms False by (auto simp: confirmPlan_def Let_def split: list.splits)
  obtain before ls after where o: "out = before @ concat ls @ after"
    and l: "list_all2 (\<lambda>a l. sublist (padToCells (truncateNameTo (shortName (al_URL a)) 40) 40) l \<and>
      sublist (FormatFileSize (at_or 0 (pb_sizes (pp_probed pp)) (al_URL a))) l) (Parallel (pp_plan pp) @ Queued (pp_plan pp)) ls"
    using ConfirmBatch_shows [OF b] unfolding RowsFromPlan_def list_all2_map1 by auto
  then have "\<exists>before ls after. out = before @ concat ls @ after \<and>
     list_all2 (\<lambda>a l. sublist (padToCells (truncateNameTo (shortName (al_URL a)) 40) 40) l \<and>
      sublist (FormatFileSize (at_or 0 (pb_sizes (pp_probed pp)) (al_URL a))) l) (Parallel (pp_plan pp) @ Queued (pp_plan pp)) ls"
    by blast
  then show ?thesis using False by (auto simp: shows_plan_def Let_def split: list.split)
qed

text \<open>C22: Nothing is downloaded without consent. Once the plan is made, the downloads start only if this is not a dry run and
  the user waived the question (--yes, --quiet) or was shown the plan and consented: the first line typed that means yes
  or no means yes. An empty line means yes; the end of the input does not. What was shown is the destination and size of a
  single file, or a line with the name and size of every planned file, in the order of the plan; and the downloads start
  from exactly that plan.\<close>

theorem download_needs_consent:
  assumes "run_prepared s useColor typed read_err session_opens pp = Downloads sc out"
  shows "sc = run_start pp \<and> \<not> o_DryRun s \<and> (o_Yes s \<or> o_Quiet s \<or> (consents typed \<and> shows_plan pp out))"
proof -
  have sc: "sc = run_start pp" "\<not> o_DryRun s"
    using assms by (auto simp: run_prepared_def Let_def split: if_splits option.splits sum.splits)
  have "consents typed \<and> shows_plan pp out" if ask: "\<not> o_Yes s" "\<not> o_Quiet s"
  proof -
    have c: "confirmPlan s pp useColor typed read_err = Some (Inr True, out)"
      using assms ask sc(2) unfolding run_prepared_def Let_def by (auto split: if_splits option.splits sum.splits)
    then have "fst (ConfirmAsk (continue_prompt useColor) typed read_err) = Inr True" using confirmPlan_asks by fastforce
    then show ?thesis using ConfirmAsk_consents confirmPlan_shows [OF c] by blast
  qed
  then show ?thesis using sc by blast
qed

subsection \<open>From valid options to the run and to the daemon\<close>

lemma Setup_valid: "Setup env argv = Done s \<Longrightarrow> Validate s = None"
proof -
  have v: "Validate (s\<lparr>o_Headers := h\<rparr>) = Validate s" for s h by (simp add: Validate_def)
  have f: "finish_load env pos s0 = Done s1 \<Longrightarrow> Validate s1 = None" for pos s0 s1
    by (auto simp: finish_load_def v Let_def split: sum.splits option.splits if_splits outcome.splits)
  assume "Setup env argv = Done s"
  then show "Validate s = None"
    by (auto simp: Setup_def LoadLayers_def Let_def f split: option.splits parsed_file.splits if_splits)
qed

lemma Validate_facts:
  assumes "Validate s = None"
  shows "1 \<le> o_Connections s" "1 \<le> o_MaxConnPerServer s" "0 \<le> o_Retry s" "0 \<le> o_Split s"
    "o_Profile s \<in> {''odm'', ''aria2c'', ''both'', ''smart''}" "o_SplitFile s \<le> o_Connections s"
    "1 \<le> o_RPCPort s" "o_RPCPort s \<le> 65535" "(o_RPCTLSCert s = []) = (o_RPCTLSKey s = [])"
    "o_RPCListenAll s \<Longrightarrow> o_RPCSecret s \<noteq> [] \<or> o_RPCTLSCert s \<noteq> []"
proof -
  have "o_SplitFile s = 0 \<or> \<not> o_Connections s < o_SplitFile s" "\<not> o_Connections s < 1"
    using assms by (simp_all add: Validate_def split: if_splits)
  then show "o_SplitFile s \<le> o_Connections s" by linarith
qed (use assms in \<open>auto simp: Validate_def split: if_splits\<close>)

lemma parseChunkSize_bound: "parseChunkSize z = Inr n \<Longrightarrow> 1024 \<le> n"
  by (auto simp: parseChunkSize_def Let_def split: if_splits sum.splits)

lemma buildExecOptions_facts:
  assumes "buildExecOptions cwd s = Inr ex"
  shows "1024 \<le> eo_ChunkSize ex" "1024 \<le> eo_MinSplitSize ex" "eo_Connections ex = o_Connections s" "eo_Retry ex = o_Retry s"
    "eo_Checksum ex = o_Checksum s" "eo_OutFile ex = o_OutFile s" "eo_RetryWait ex = w64 (o_RetryWait s * second)"
    "eo_Split ex = o_Split s" "eo_MaxConnPerServer ex = o_MaxConnPerServer s" "eo_Profile ex = o_Profile s"
    "eo_Collision ex = collisionPolicy s"
  using assms by (auto simp: buildExecOptions_def parseChunkSize_bound split: sum.splits)

lemma run_begin_probes:
  assumes "run_begin new_client cwd ord env help_asked load_msg log_opens argv = Probes s urls m"
  shows "\<exists>s0. Setup env argv = Done s0 \<and> s = s0\<lparr>o_URLs := urls\<rparr> \<and> before_probe new_client cwd s0 = Inr (urls, m) \<and> Validate s0 = None"
  using assms Setup_valid by (auto simp: run_begin_def split: if_splits outcome.splits sum.splits)

text \<open>C31: What reaches the engine is in range. When the program goes on to probe, the URLs are distinct and not empty, chunks
  and segments have at least a KiB, the budget and the per-server cap are positive, the retries are not negative, the
  engine is one of the four, at most one collision policy is set; and an output name or a checksum is kept only for a
  single URL. The balancer then has a plan for every list of files.\<close>

theorem run_options_in_range:
  assumes "run_begin new_client cwd ord env help_asked load_msg log_opens argv = Probes s urls m" and "mg_opts m = ex"
  shows "urls \<noteq> [] \<and> distinct urls \<and> 1024 \<le> eo_ChunkSize ex \<and> 1024 \<le> eo_MinSplitSize ex \<and> 1 \<le> eo_Connections ex
    \<and> 1 \<le> eo_MaxConnPerServer ex \<and> 0 \<le> eo_Retry ex \<and> 0 \<le> eo_Split ex
    \<and> eo_Profile ex \<in> {''odm'', ''aria2c'', ''both'', ''smart''} \<and> eo_Collision ex \<in> {[], ''rename'', ''skip''}
    \<and> (1 < length urls \<longrightarrow> eo_OutFile ex = [] \<and> eo_Checksum ex = [])
    \<and> (\<forall>files. files = [] \<or> (\<exists>p. Compute (o_Connections s) files (o_SplitFile s) (o_MaxConnection s) = Inr p))"
proof -
  obtain s0 where s: "s = s0\<lparr>o_URLs := urls\<rparr>" and b: "before_probe new_client cwd s0 = Inr (urls, m)" and v: "Validate s0 = None"
    using run_begin_probes [OF assms(1)] by blast
  obtain ex0 where ex0: "buildExecOptions cwd (s0\<lparr>o_URLs := urls\<rparr>) = Inr ex0" "ex = (if length urls > 1 then ex0\<lparr>eo_Checksum := []\<rparr> else ex0)"
    using before_probe_facts(4) [OF b] assms(2) by auto
  note u = before_probe_facts(1,2,5) [OF b] and f = buildExecOptions_facts [OF ex0(1)]
  note r = Validate_facts [OF v]
  have plan: "\<exists>p. Compute (o_Connections s) files (o_SplitFile s) (o_MaxConnection s) = Inr p" if "files \<noteq> []" for files
  proof (cases "Compute (o_Connections s) files (o_SplitFile s) (o_MaxConnection s)")
    case (Inl e)
    then have False using Compute_errors [of "o_Connections s" files "o_SplitFile s" "o_MaxConnection s"] r(1,6) that by (cases e) (auto simp: s)
    then show ?thesis ..
  qed blast
  have "length urls \<le> length (o_URLs s0)"
    using u(1) dedupeURLs_facts [of "o_URLs s0"] by (metis card_length distinct_card)
  then have "1 < length urls \<Longrightarrow> o_OutFile s0 = []" using u(3) by fastforce
  moreover have "collisionPolicy s0' \<in> {[], ''rename'', ''skip''}" for s0' by (simp add: collisionPolicy_def)
  ultimately show ?thesis using u(1,2) dedupeURLs_facts(2) f r ex0(2) plan by auto
qed

lemma server_secret: "server_step\<^sup>*\<^sup>* sv sv1 \<Longrightarrow> sv_secret sv1 = sv_secret sv"
proof (induction rule: rtranclp_induct)
  case (step b c)
  then show ?case using server_step_moves [OF step.hyps(2)] by (simp add: server_moves_def)
qed simp

text \<open>C21: The daemon is never open to the network without protection. When the program serves RPC, it listens on a valid port
  of the loopback address, or of every address and then with a secret or with TLS; whatever clients send, the secret stays
  the one configured; it has at least one slot; and no task inherits an output name.\<close>

theorem rpc_exposure:
  assumes "run_begin new_client cwd ord env help_asked load_msg log_opens argv = Serves l"
    and "server_step\<^sup>*\<^sup>* (ls_server l) sv"
  shows "\<exists>s port. Setup env argv = Done s \<and> 1 \<le> port \<and> port \<le> 65535 \<and> sv_secret sv = o_RPCSecret s
    \<and> (ls_addr l = ''127.0.0.1:'' @ itoa port \<or> ls_addr l = ''0.0.0.0:'' @ itoa port \<and> (o_RPCSecret s \<noteq> [] \<or> ls_tls l))
    \<and> 1 \<le> sc_slots (dm_sched (sv_daemon (ls_server l)))
    \<and> eo_OutFile (mg_opts (dm_mgr (sv_daemon (ls_server l)))) = []"
proof -
  obtain s where s: "Setup env argv = Done s" "runRPC_start new_client cwd ord s = Inr l"
    using assms(1) by (auto simp: run_begin_def split: if_splits outcome.splits sum.splits)
  note v = Validate_facts [OF Setup_valid [OF s(1)]]
  obtain ex m where m: "NewManager new_client (ex\<lparr>eo_OutFile := []\<rparr>) = Inr m"
    and l: "l = \<lparr>ls_server = NewServer (OnDead 0 (Start (NewDaemon (NewEmptyScheduler (nat (if o_Connections s < 1 then DefaultConnections
        else o_Connections s))) m))) (o_RPCSecret s) ord,
      ls_addr = (if o_RPCListenAll s then ''0.0.0.0'' else ''127.0.0.1'') @ '':'' @ itoa (o_RPCPort s),
      ls_tls = (o_RPCTLSCert s \<noteq> [] \<and> o_RPCTLSKey s \<noteq> [])\<rparr>"
    using s(2) by (auto simp: runRPC_start_def Let_def split: sum.splits)
  have "eo_OutFile (mg_opts m) = []" using m by (auto simp: NewManager_def Let_def split: option.splits sum.splits if_splits)
  moreover have "sv_secret sv = o_RPCSecret s" using server_secret [OF assms(2)] by (simp add: l NewServer_def)
  moreover have "dm_mgr (OnDead h (Start d)) = dm_mgr d" "dm_sched (OnDead h (Start d)) = dm_sched d" for h d
    by (simp_all add: OnDead_def Start_def Let_def)
  moreover have "1 \<le> nat (o_Connections s)" using v(1) by simp
  ultimately show ?thesis using s(1) v
    by (intro exI [of _ s] exI [of _ "o_RPCPort s"]) (auto simp: l NewServer_def NewDaemon_def NewEmptyScheduler_def)
qed

subsection \<open>Examples\<close>

definition demo_url :: string where "demo_url = ''http://h/f''"

definition demo_load :: "(string \<times> flag_value) list \<Rightarrow> load_env" where
  "demo_load flags = \<lparr>le_fs = (\<lambda>_. Absent), le_userdir = None, le_now = 0, le_xml = (\<lambda>_. None),
     le_flags = (\<lambda>_. Some (flags, [demo_url])), le_order = id\<rparr>"

lemma demo_sizes: "parseChunkSize ''4M'' = Inr 4194304" "parseChunkSize ''20M'' = Inr 20971520"
proof -
  have "nat_digits 4 @ ''M'' = ''4M''" "nat_digits 20 @ ''M'' = ''20M''" by code_simp+
  then have "ParseRate ''4M'' = Inr 4194304" "ParseRate ''20M'' = Inr 20971520"
    using ParseRate_units [of 4 "''M''" "1024 ^ 2"] ParseRate_units [of 20 "''M''" "1024 ^ 2"] by (simp_all add: rate_units_def)
  moreover have "trim_space ''4M'' = ''4M''" "trim_space ''20M'' = ''20M''" by code_simp+
  ultimately show "parseChunkSize ''4M'' = Inr 4194304" "parseChunkSize ''20M'' = Inr 20971520" by (simp_all add: parseChunkSize_def)
qed

lemma demo_setup: "Setup (demo_load []) [demo_url] = Done (DefaultPtr\<lparr>o_URLs := [demo_url]\<rparr>)"
  "Setup (demo_load [(''rpc'', BoolV True), (''rpc-listen-all'', BoolV True), (''rpc-secret'', StrV ''k'')]) [demo_url] =
     Done (CaptureChanged [(''rpc'', BoolV True), (''rpc-listen-all'', BoolV True), (''rpc-secret'', StrV ''k'')]
       (DefaultPtr\<lparr>o_URLs := [demo_url], o_RPC := True, o_RPCListenAll := True, o_RPCSecret := ''k''\<rparr>))"
  by code_simp+

lemma demo_manager_of:
  assumes "o_ChunkSize s = ''4M''" "o_MinSplitSize s = ''20M''" "o_LimitRate s = []" "o_Profile s = ''odm''"
  shows "\<exists>ex. buildExecOptions cwd s = Inr ex"
    and "buildExecOptions cwd s = Inr ex \<Longrightarrow> eo_LimitRate ex1 = [] \<Longrightarrow> eo_Profile ex1 = ''odm'' \<Longrightarrow>
      \<exists>m. NewManager (\<lambda>_. None :: unit option) ex1 = Inr m \<and> mg_opts m = ex1 \<and> mg_nextID m = 0"
  using assms by (simp_all add: buildExecOptions_def demo_sizes go_eval)

definition demo_options :: options where "demo_options = DefaultPtr\<lparr>o_URLs := [demo_url]\<rparr>"

lemma demo_options_fields: "o_URLs demo_options = [demo_url]" "o_OutFile demo_options = []" "o_Profile demo_options = ''odm''"
  "o_LimitRate demo_options = []" "o_ChunkSize demo_options = ''4M''" "o_MinSplitSize demo_options = ''20M''"
  "o_LogLevel demo_options = ''info''" "o_LogFile demo_options = []" "\<not> o_RPC demo_options" "o_Connections demo_options = 5"
  "o_SplitFile demo_options = 0" "o_MaxConnection demo_options = 32" "demo_options\<lparr>o_URLs := [demo_url]\<rparr> = demo_options"
  "\<not> o_Yes demo_options" "\<not> o_Quiet demo_options" "\<not> o_DryRun demo_options" "o_SessionLog demo_options = []"
  by (simp_all add: demo_options_def DefaultPtr_def)

lemma demo_before: "\<exists>m. before_probe (\<lambda>_. None :: unit option) ''/d'' demo_options = Inr ([demo_url], m) \<and> mg_nextID m = 0"
proof -
  obtain ex where ex: "buildExecOptions ''/d'' demo_options = Inr ex" using demo_manager_of(1) demo_options_fields by blast
  have "eo_LimitRate ex = []" "eo_Profile ex = ''odm''"
    using ex by (auto simp: buildExecOptions_def demo_options_fields split: sum.splits)
  then obtain m where "NewManager (\<lambda>_. None :: unit option) ex = Inr m" "mg_nextID m = 0"
    using demo_manager_of(2) [OF _ _ _ _ ex] demo_options_fields by blast
  moreover have "dedupeURLs [demo_url] = [demo_url]" by (simp add: dedupeURLs_def)
  ultimately show ?thesis using ex by (simp add: before_probe_def demo_options_fields Let_def)
qed

lemma demo_after:
  "\<exists>pp. after_probe demo_options (\<lambda>_. False) (\<lambda>_. None) [demo_url] m [demo_url] = Inr pp \<and> pp_mgr pp = m \<and> Queued (pp_plan pp) = []
    \<and> Parallel (pp_plan pp) = [\<lparr>al_URL = demo_url, al_Connections = 1, al_SupportsRange = False\<rparr>]
    \<and> pp_urls pp = [demo_url]"
proof -
  have "case Compute 5 [\<lparr>fi_URL = demo_url, fi_SupportsRange = False\<rparr>] 0 32 of Inl _ \<Rightarrow> False | Inr p \<Rightarrow> Queued p = [] \<and>
      Parallel p = [\<lparr>al_URL = demo_url, al_Connections = 1, al_SupportsRange = False\<rparr>]" by code_simp
  then obtain p where "Compute 5 [\<lparr>fi_URL = demo_url, fi_SupportsRange = False\<rparr>] 0 32 = Inr p" "Queued p = []"
      "Parallel p = [\<lparr>al_URL = demo_url, al_Connections = 1, al_SupportsRange = False\<rparr>]" by (auto split: sum.splits)
  then show ?thesis by (simp add: after_probe_def collect_def add_result_def demo_options_fields Let_def)
qed

lemma demo_probe: "probe_step\<^sup>*\<^sup>* (probe_start [demo_url]) ([[]], [demo_url])"
proof -
  have "probe_start [demo_url] = ([[demo_url]], [])" by (simp add: probe_start_def probe_workers_def stride.simps [of 0] stride.simps [of "Suc 0"])
  then show ?thesis using deliver [of "[[demo_url]]" "[]" demo_url "[]" "[]" "[]"] by auto
qed

theorem probe_pass_witness: "pb_files (collect (\<lambda>_. None) [demo_url]) = [\<lparr>fi_URL = demo_url, fi_SupportsRange = False\<rparr>]"
  using probe_pass [OF _ demo_probe, of "\<lambda>_. None"] by simp

theorem exit_status_honest_witness:
  "\<exists>m pp sc. before_probe (\<lambda>_. None :: unit option) ''/d'' demo_options = Inr ([demo_url], m)
    \<and> after_probe demo_options (\<lambda>_. False) (\<lambda>_. None) [demo_url] m [demo_url] = Inr pp
    \<and> sched_step\<^sup>*\<^sup>* (run_start pp) sc \<and> sc_phase sc = Returned \<and> main_status (run_result sc) = 0"
proof -
  obtain m where m: "before_probe (\<lambda>_. None :: unit option) ''/d'' demo_options = Inr ([demo_url], m)" "mg_nextID m = 0"
    using demo_before by blast
  obtain pp where pp: "after_probe demo_options (\<lambda>_. False) (\<lambda>_. None) [demo_url] m [demo_url] = Inr pp" "pp_mgr pp = m"
      "Queued (pp_plan pp) = []" "Parallel (pp_plan pp) = [\<lparr>al_URL = demo_url, al_Connections = 1, al_SupportsRange = False\<rparr>]"
    using demo_after by blast
  have r: "run_start pp = run_setup (pp_plan pp) [] [Some (task_id 1)]" using run_start_eq [OF pp(3)] pp m by simp
  let ?t = "\<lparr>st_id = task_id 1, st_conns = 1, st_counted = False\<rparr>"
  have "sc_gor (run_start pp) = [(?t, Running)]" "sc_wg (run_start pp) = 1" "sc_compl (run_start pp) = []" "sc_phase (run_start pp) = Selecting"
    "sc_live (run_start pp) = [?t]" "\<not> sc_windingDown (run_start pp)" "sc_stopped (run_start pp) = []" "sc_succeeded (run_start pp) = 0"
    by (simp_all add: r run_setup_def pp NewScheduler_def AddCounter_def startOne_def launch_def live_put_def)
  from one_task_returns [OF this(1-7)] this(8) obtain sc where sc: "sched_step\<^sup>*\<^sup>* (run_start pp) sc" "sc_phase sc = Returned"
      "sc_succeeded sc = 1" "\<not> sc_windingDown sc" by auto
  then have "main_status (run_result sc) = 0" using exit_status_honest [OF m(1) demo_probe pp(1,3) sc(1,2)] by simp
  then show ?thesis using m pp sc by blast
qed

theorem download_needs_consent_witness:
  "\<exists>pp sc out. run_prepared demo_options False [''maybe'', '' Yes ''] None True pp = Downloads sc out \<and> sc = run_start pp
    \<and> consents [''maybe'', '' Yes ''] \<and> shows_plan pp out"
proof -
  have a: "read_answer ''maybe'' = Unclear" "read_answer '' Yes '' = Yes" by code_simp+
  obtain pp :: prepared where "pp_urls pp = [demo_url]" using demo_after [of demo_manager] by blast
  then obtain out where "run_prepared demo_options False [''maybe'', '' Yes ''] None True pp = Downloads (run_start pp) out"
    by (simp add: run_prepared_def confirmPlan_def ConfirmSingle_def ask_after_def a demo_options_fields Let_def)
  then show ?thesis
    using download_needs_consent [of demo_options False "[''maybe'', '' Yes '']" None True pp "run_start pp" out]
      demo_options_fields by blast
qed

theorem run_options_in_range_witness:
  "\<exists>m. run_begin (\<lambda>_. None :: unit option) ''/d'' id (demo_load []) False (\<lambda>_. []) True [demo_url] = Probes demo_options [demo_url] m
    \<and> 1024 \<le> eo_ChunkSize (mg_opts m)"
proof -
  obtain m where m: "before_probe (\<lambda>_. None :: unit option) ''/d'' demo_options = Inr ([demo_url], m)" using demo_before by blast
  have "preHelpOrVersion [demo_url] = None" "ParseLevel ''info'' = Some LevelInfo" by code_simp+
  then have b: "run_begin (\<lambda>_. None :: unit option) ''/d'' id (demo_load []) False (\<lambda>_. []) True [demo_url] = Probes demo_options [demo_url] m"
    using m demo_setup(1) by (simp add: run_begin_def demo_options_fields New_Logger_def flip: demo_options_def)
  then show ?thesis using run_options_in_range [OF b refl] by blast
qed

theorem rpc_exposure_witness:
  "\<exists>l. run_begin (\<lambda>_. None :: unit option) ''/d'' id
      (demo_load [(''rpc'', BoolV True), (''rpc-listen-all'', BoolV True), (''rpc-secret'', StrV ''k'')]) False (\<lambda>_. []) True [demo_url] = Serves l
    \<and> ls_addr l = ''0.0.0.0:'' @ itoa 6900 \<and> sv_secret (ls_server l) = ''k''"
proof -
  define s where "s = CaptureChanged [(''rpc'', BoolV True), (''rpc-listen-all'', BoolV True), (''rpc-secret'', StrV ''k'')]
       (DefaultPtr\<lparr>o_URLs := [demo_url], o_RPC := True, o_RPCListenAll := True, o_RPCSecret := ''k''\<rparr>)"
  have f: "o_LimitRate s = []" "o_Profile s = ''odm''" "o_ChunkSize s = ''4M''" "o_MinSplitSize s = ''20M''" "o_LogLevel s = ''info''"
    "o_LogFile s = []" "o_RPC s" "o_RPCListenAll s" "o_RPCSecret s = ''k''" "o_RPCPort s = 6900" "o_Connections s = 5"
    unfolding s_def by code_simp+
  obtain ex where ex: "buildExecOptions ''/d'' s = Inr ex" using demo_manager_of(1) f by blast
  have "eo_LimitRate ex = []" "eo_Profile ex = ''odm''" using ex by (auto simp: buildExecOptions_def f split: sum.splits)
  then obtain m where m: "NewManager (\<lambda>_. None :: unit option) (ex\<lparr>eo_OutFile := []\<rparr>) = Inr m"
    using demo_manager_of(2) [OF f(3,4,1,2) ex, of "ex\<lparr>eo_OutFile := []\<rparr>"] by auto
  have S: "Setup (demo_load [(''rpc'', BoolV True), (''rpc-listen-all'', BoolV True), (''rpc-secret'', StrV ''k'')]) [demo_url] = Done s"
    unfolding s_def by (rule demo_setup(2))
  have "preHelpOrVersion [demo_url] = None" "ParseLevel ''info'' = Some LevelInfo" by code_simp+
  then obtain l where l: "run_begin (\<lambda>_. None :: unit option) ''/d'' id
      (demo_load [(''rpc'', BoolV True), (''rpc-listen-all'', BoolV True), (''rpc-secret'', StrV ''k'')]) False (\<lambda>_. []) True [demo_url] = Serves l"
      "ls_addr l = ''0.0.0.0:'' @ itoa 6900"
    using S ex m f by (simp add: run_begin_def runRPC_start_def New_Logger_def Let_def)
  from rpc_exposure [OF l(1) rtranclp.rtrancl_refl] show ?thesis using l S f by auto
qed

end
