(* ===== verification/Task_Start.thy ===== *)
theory Task_Start imports Resume Smart_Profile begin

section \<open>Start: the life of one task (internal/download/task_start.go)\<close>

text \<open>
  \<open>Start\<close> in its phases, in the order of the code: what the task is (probe, checksum sidecar, smart
  profile, filename), where it goes (path, collision policy), the layout, the resume and its
  integrity check, completion without any transfer, the worker counts, and the verdict after the wait
  group. What the phases meet is the environment: the server's answers, the file system, the clock, for
  each save of the control file the system calls it gets through, and a change of the connection count that
  may reach the task once its layout is settled and before its workers are launched (\<open>en_early\<close>). The transfer itself is the worker
  pool started with the queues and counts of the launch. A constructor or a renaming loop that does not
  return makes the result None. Log lines and the progress sink are left out.
\<close>

record start_env =
  en_conns :: int
  en_early :: "int option"
  en_probe :: "probe_error + probe_result"
  en_sidecar :: "string option"
  en_h2_head :: "response option"
  en_stat :: "string \<Rightarrow> (bool \<times> int) option"
  en_readable :: bool
  en_open :: "open_error option"
  en_disk :: disk
  en_sha :: "byte list \<Rightarrow> string"
  en_server :: sample_server
  en_digest :: "string \<Rightarrow> string \<Rightarrow> string option"
  en_now :: "nat \<Rightarrow> int"
  en_text :: "int \<Rightarrow> string"
  en_saves :: "nat \<Rightarrow> nat"
  en_removable :: bool

datatype start_error =
  CancelledBeforeStart
| ProbeError probe_error
| ChecksumURLError
| OpenError open_error
| ChecksumError checksum_error
| ContextDone
| ChunkErrors int int int

text \<open>The text of the sidecar, if the GET delivered one, read as a checksum spec.\<close>

definition fetchChecksumSpec :: "start_env \<Rightarrow> string option" where
  "fetchChecksumSpec env =
     (case en_sidecar env of
        None \<Rightarrow> None
      | Some body \<Rightarrow> (case parseChecksumSidecar body of Inl _ \<Rightarrow> None | Inr spec \<Rightarrow> Some spec))"

subsection \<open>What the task is\<close>

definition set_state :: "TaskState \<Rightarrow> task \<Rightarrow> task" where
  "set_state st t = t\<lparr>tk_state := st\<rparr>"

definition set_profile :: "string \<Rightarrow> task \<Rightarrow> task" where
  "set_profile p t = t\<lparr>tk_opts := (tk_opts t)\<lparr>op_Profile := p\<rparr>\<rparr>"

definition smart_resolve :: "start_env \<Rightarrow> task \<Rightarrow> probe_result \<Rightarrow> task" where
  "smart_resolve env t pr =
     (if op_Profile (tk_opts t) = ''smart'' then
        let perFile = (if tk_conns t < 1 then en_conns env else tk_conns t)
        in set_profile (fst (ChooseProfile
             \<lparr>cap_TotalSize = TotalSize pr, cap_SupportsRange = SupportsRange pr, cap_SingleStream = SingleStream pr,
              cap_HTTP2Ready = (tk_hasH2 t \<and> SupportsHTTP2 (en_h2_head env)), cap_Conns = perFile\<rparr>)) t
      else t)"

definition refine_filename :: "task \<Rightarrow> probe_result \<Rightarrow> task \<times> probe_result" where
  "refine_filename t pr =
     (if Filename pr = [] \<or> op_OutputName (tk_opts t) \<noteq> [] then
        let pr2 = (if Filename pr = [] then pr\<lparr>Filename := deriveFilename (FinalURL pr) (op_OutputName (tk_opts t))\<rparr> else pr);
            pr3 = (if op_OutputName (tk_opts t) \<noteq> [] then pr2\<lparr>Filename := op_OutputName (tk_opts t)\<rparr> else pr2)
        in (t\<lparr>tk_probe := Some pr3\<rparr>, pr3)
      else (t, pr))"

definition identify :: "start_env \<Rightarrow> task \<Rightarrow> (start_error \<times> task) + (task \<times> probe_result)" where
  "identify env t0 =
     (if tk_cancelled t0 then Inl (CancelledBeforeStart, set_state StateError t0)
      else
        let t = set_state StateActive t0
        in case (case tk_probe t of Some pr \<Rightarrow> Inr pr | None \<Rightarrow> en_probe env) of
             Inl e \<Rightarrow> Inl (ProbeError e, set_state StateError t)
           | Inr pr \<Rightarrow>
               let t1 = t\<lparr>tk_probe := Some pr\<rparr>
               in if op_ChecksumURL (tk_opts t1) \<noteq> [] \<and> op_Checksum (tk_opts t1) = [] \<and> fetchChecksumSpec env = None
                  then Inl (ChecksumURLError, set_state StateError t1)
                  else
                    let t2 = (if op_ChecksumURL (tk_opts t1) \<noteq> [] \<and> op_Checksum (tk_opts t1) = []
                              then t1\<lparr>tk_opts := (tk_opts t1)\<lparr>op_Checksum := the (fetchChecksumSpec env)\<rparr>\<rparr> else t1)
                    in Inr (map_prod (set_state StateActive) id (refine_filename (smart_resolve env t2 pr) pr)))"

subsection \<open>Where it goes\<close>

datatype placement = AlreadyDownloaded task | Placed task probe_result string

definition resumable :: "start_env \<Rightarrow> task \<Rightarrow> files \<Rightarrow> bool" where
  "resumable env t fs \<longleftrightarrow> op_Continue (tk_opts t) \<and> 
     (case LoadControl (en_readable env) (tk_outPath t) fs of Inr cf \<Rightarrow> True | Inl e \<Rightarrow> False)"

definition place :: "start_env \<Rightarrow> files \<Rightarrow> task \<Rightarrow> probe_result \<Rightarrow> placement option" where
  "place env fs t0 pr =
     (let dir = op_Dir (tk_opts t0);
          outName = (let n = flattenFilename (Filename pr) in if n = [] then ''download.bin'' else n);
          t = t0\<lparr>tk_outPath := path_join dir outName\<rparr>
      in if resumable env t fs then Some (Placed t pr outName)
         else if op_Collision (tk_opts t) = ''skip'' then
           (case en_stat env (tk_outPath t) of
              Some (True, sz) \<Rightarrow>
                if TotalSize pr > 0 \<and> sz = TotalSize pr
                then Some (AlreadyDownloaded (set_state StateCompleted (t\<lparr>tk_bytesDone := sz\<rparr>)))
                else Some (Placed t pr outName)
            | _ \<Rightarrow> Some (Placed t pr outName))
         else if op_Collision (tk_opts t) = ''rename'' \<and> en_stat env (tk_outPath t) \<noteq> None then
           (case uniqueName (\<lambda>p. en_stat env p \<noteq> None) dir outName of
              None \<Rightarrow> None
            | Some n \<Rightarrow>
                let pr2 = pr\<lparr>Filename := n\<rparr>
                in Some (Placed (t\<lparr>tk_probe := Some pr2, tk_outPath := path_join dir n\<rparr>) pr2 n))
         else Some (Placed t pr outName))"

subsection \<open>Resume and integrity\<close>

definition take_control :: "start_env \<Rightarrow> files \<Rightarrow> probe_result \<Rightarrow> int \<Rightarrow> task \<Rightarrow> int \<times> task \<times> ControlFile option" where
  "take_control env fs pr effective t =
     (if op_Continue (tk_opts t) then
        (case LoadControl (en_readable env) (tk_outPath t) fs of
           Inl _ \<Rightarrow> (0, t, None)
         | Inr cf \<Rightarrow> (case resume_step cf pr effective t of (already, t') \<Rightarrow> (already, t', Some cf)))
      else (0, t, None))"

text \<open>A failed check: every queue is built anew with the arithmetic of the layout.\<close>

definition rebuild :: "probe_result \<Rightarrow> int \<Rightarrow> task \<Rightarrow> task option" where
  "rebuild pr effective t0 =
     (let t = clearChunkHashes (t0\<lparr>tk_bytesDone := 0\<rparr>); qs = layout_size pr
      in case tk_engines t of
           Some _ \<Rightarrow>
             let mid = tk_splitAt t; n2 = fst (AriaSplit (qs - mid) (op_Split (tk_opts t)) (op_MinSplitSize (tk_opts t)))
             in map_option (\<lambda>es. replace_queue (eng_q (fst es)) (t\<lparr>tk_engines := Some es\<rparr>)) (both_engines t qs mid n2)
         | None \<Rightarrow> map_option (\<lambda>q. replace_queue q t) (single_queue t qs effective))"

definition check_integrity ::
  "start_env \<Rightarrow> probe_result \<Rightarrow> int \<Rightarrow> disk \<Rightarrow> int \<times> task \<times> ControlFile option \<Rightarrow> (int \<times> task) option" where
  "check_integrity env pr effective d r =
     (case r of (already, t, cf) \<Rightarrow>
        if already > 0 then
          (case cf of
             None \<Rightarrow> Some (already, t)
           | Some c \<Rightarrow>
               (case verifyResumedData (en_sha env) (en_server env) t c d of
                  None \<Rightarrow> Some (already, t)
                | Some _ \<Rightarrow> map_option (Pair 0) (rebuild pr effective t)))
        else Some (already, t))"

subsection \<open>Launching the workers\<close>

definition persist_nth :: "start_env \<Rightarrow> nat \<Rightarrow> task \<times> files \<Rightarrow> task \<times> files" where
  "persist_nth env k s = persistControl (en_text env) (en_now env k) (en_saves env k) s"

definition finish_task :: "start_env \<Rightarrow> task \<times> files \<Rightarrow> task \<times> files" where
  "finish_task env s = finish (en_text env) (en_now env 9) (en_saves env 9) (en_removable env) s"

text \<open>An \<open>AdjustConns\<close> of the daemon that arrives between the layout and the launch: an increase caches the
  current engine and spawns workers on it; they are counted here, and stand at the top of their loop when
  the launch happens.\<close>

definition early_adjust :: "int option \<Rightarrow> task \<Rightarrow> nat \<times> task" where
  "early_adjust request t =
     (case request of
        None \<Rightarrow> (0, t)
      | Some target0 \<Rightarrow>
          let target = clamp1 target0; t1 = t\<lparr>tk_connTarget := w32 target\<rparr>
          in if target \<le> tk_connTarget t then (0, t1)
             else (nat (target - tk_connTarget t), snd (currentEngine t1)))"

text \<open>The connections after the clamps, and the workers of a single region.\<close>

definition launch_conns :: "start_env \<Rightarrow> task \<Rightarrow> probe_result \<Rightarrow> int" where
  "launch_conns env t pr =
     (if TotalSize pr \<le> 0 \<and> SingleStream pr then 1
      else if tk_connTarget t > en_conns env then tk_connTarget t else en_conns env)"

definition worker_count :: "task \<Rightarrow> probe_result \<Rightarrow> int \<Rightarrow> int" where
  "worker_count t pr conns0 =
     (if op_Profile (tk_opts t) = ''aria2c'' then
        let w1 = (if tk_ariaSplit t > 0 \<and> conns0 > tk_ariaSplit t then tk_ariaSplit t else conns0)
        in if TotalSize pr > 0 \<and> \<not> profileUsesH2 t \<and> op_MaxConnPerServer (tk_opts t) > 0 \<and> w1 > op_MaxConnPerServer (tk_opts t)
           then op_MaxConnPerServer (tk_opts t) else w1
      else conns0)"

record launch_data =
  la_task :: task
  la_files :: files
  la_disk :: disk
  la_queues :: "workQueue list"
  la_counts :: "nat list"
  la_early :: nat

definition launch_workers :: "start_env \<Rightarrow> files \<Rightarrow> probe_result \<Rightarrow> disk \<Rightarrow> nat \<Rightarrow> task \<Rightarrow> launch_data" where
  "launch_workers env fs pr d early t =
     (let c0 = launch_conns env t pr;
          t1 = (if TotalSize pr \<le> 0 \<and> SingleStream pr then t\<lparr>tk_conns := 1, tk_connTarget := 1\<rparr> else t\<lparr>tk_connTarget := w32 c0\<rparr>);
          (t2, fs2) = persist_nth env 0 (t1, fs);
          w = worker_count t2 pr c0;
          t3 = t2\<lparr>tk_conns := w32 w, tk_connTarget := w32 w\<rparr>;
          (engine, t4) = currentEngine t3
      in \<lparr>la_task = t4, la_files = fs2, la_disk = d,
          la_queues = (case tk_engines t3 of Some (e1, e2) \<Rightarrow> [eng_q e1, eng_q e2]
                       | None \<Rightarrow> (case engine of None \<Rightarrow> [] | Some e \<Rightarrow> [eng_q e])),
          la_counts = (case tk_engines t3 of Some _ \<Rightarrow> [nat (fst (tk_regionConns t3)), nat (snd (tk_regionConns t3))]
                       | None \<Rightarrow> [nat w]),
          la_early = early\<rparr>)"

text \<open>The pool at the launch, with the workers that were there before it.\<close>

definition launched_pool :: "launch_data \<Rightarrow> workQueue pool" where
  "launched_pool la =
     (let s = start_pool (la_queues la) (la_counts la)
      in s\<lparr>workers := workers s @ replicate (la_early la) (0, AtTop)\<rparr>)"

datatype start_phase = Ended "start_error option" task files | Launched launch_data

definition complete_on_disk :: "start_env \<Rightarrow> files \<Rightarrow> probe_result \<Rightarrow> task \<Rightarrow> start_phase" where
  "complete_on_disk env fs pr t0 =
     (let t = set_state StateCompleted (t0\<lparr>tk_bytesDone := TotalSize pr\<rparr>)
      in case Filename.verifyChecksum (en_digest env (tk_outPath t)) (op_Checksum (tk_opts t)) of
           Some e \<Rightarrow> Ended (Some (ChecksumError e)) (set_state StateError t) fs
         | None \<Rightarrow> (case finish_task env (t, fs) of (t', fs') \<Rightarrow> Ended None t' fs'))"

subsection \<open>Start up to the workers, and after them\<close>

definition start_before :: "start_env \<Rightarrow> files \<Rightarrow> task \<Rightarrow> start_phase option" where
  "start_before env fs t0 =
     (case identify env t0 of
        Inl (e, t) \<Rightarrow> Some (Ended (Some e) t fs)
      | Inr (t1, pr1) \<Rightarrow>
          (case place env fs t1 pr1 of
             None \<Rightarrow> None
           | Some (AlreadyDownloaded t) \<Rightarrow> Some (Ended None t fs)
           | Some (Placed t2 pr outName) \<Rightarrow>
               (case build_layout t2 pr (en_conns env) of
                  None \<Rightarrow> None
                | Some (t3', effective) \<Rightarrow>
                    let (early, t3) = early_adjust (en_early env) t3';
                        r = take_control env fs pr effective t3
                    in case OpenForWrite (en_open env) outName (TotalSize pr) (en_disk env) of
                         Inl e \<Rightarrow> Some (Ended (Some (OpenError e)) (set_state StateError (fst (snd r))) fs)
                       | Inr d \<Rightarrow>
                           (case check_integrity env pr effective d r of
                              None \<Rightarrow> None
                            | Some (already, t4) \<Rightarrow>
                                if already \<ge> TotalSize pr \<and> TotalSize pr > 0
                                then Some (complete_on_disk env fs pr t4)
                                else Some (Launched (launch_workers env fs pr d early t4))))))"

definition start_after :: "start_env \<Rightarrow> bool \<Rightarrow> task \<Rightarrow> files \<Rightarrow> start_error option \<times> task \<times> files" where
  "start_after env ctx_done t0 fs =
     (if ctx_done then (Some ContextDone, persist_nth env 1 (set_state StatePaused t0, fs))
      else if tk_errors t0 > 0 then
        (Some (ChunkErrors (tk_errors t0) (tk_bytesDone t0) (totalOrDone t0)), persist_nth env 1 (set_state StateError t0, fs))
      else
        let t = set_state StateCompleted t0
        in case Filename.verifyChecksum (en_digest env (tk_outPath t)) (op_Checksum (tk_opts t)) of
             Some e \<Rightarrow> (Some (ChecksumError e), persist_nth env 1 (set_state StateError t, fs))
           | None \<Rightarrow> (None, finish_task env (t, fs)))"

text \<open>The task after the wait group has returned: what the pool left in the queues and the counters.\<close>

definition after_pool :: "launch_data \<Rightarrow> workQueue pool \<Rightarrow> task" where
  "after_pool la s =
     (let t = (la_task la)\<lparr>tk_errors := errors s, tk_conns := conns s, tk_connTarget := connTarget s\<rparr>
      in case tk_engines t of
           Some (e1, e2) \<Rightarrow>
             t\<lparr>tk_engines := Some (e1\<lparr>eng_q := queues s ! 0\<rparr>, e2\<lparr>eng_q := queues s ! 1\<rparr>), tk_queue := Some (queues s ! 0)\<rparr>
         | None \<Rightarrow> (case tk_single t of
                     OnOld e \<Rightarrow> t\<lparr>tk_single := OnOld (e\<lparr>eng_q := queues s ! 0\<rparr>)\<rparr>
                   | _ \<Rightarrow> t\<lparr>tk_queue := Some (queues s ! 0)\<rparr>))"

subsection \<open>A queue that accounts for every chunk\<close>

definition queue_ok :: "workQueue \<Rightarrow> chunk list \<Rightarrow> bool" where
  "queue_ok q l \<longleftrightarrow> finite (wq_finished q) \<and>
     mset (map Start (wq_pending q)) + mset_set (wq_finished q) = mset_set (Start ` set l)"

lemma fresh_ok:
  assumes "fresh_queue q sz"
  shows "queue_ok q (wq_chunks q)"
  using assms mset_starts_split [of "wq_chunks q" "{}"] tiles_distinct [of "wq_chunks q" 0 sz]
  by (auto simp: fresh_queue_def queue_ok_def)

text \<open>Resetting a fresh queue with any offsets, those of the layout or not, keeps the account.\<close>

lemma reset_ok:
  assumes "fresh_queue q sz" "wq_ResetCompletedOffsets D sz' q = (r, q')" "0 \<le> sz'" "finite D"
  shows "queue_ok q' (wq_chunks q)"
proof (cases q)
  case (CQ c)
  obtain kept dn al where l: "reset_loop D sz' (chunks c) = (kept, dn, al)" by (metis prod_cases3)
  show ?thesis using assms CQ l reset_loop_facts [OF l] mset_starts_split [of "chunks c" D] mset_starts_split [of "chunks c" "{}"]
      tiles_distinct [of "chunks c" 0 sz]
    by (auto simp: fresh_queue_def queue_ok_def ResetCompletedOffsets_def Let_def split: if_splits)
next
  case (SQ c)
  define E where "E = Start ` {x \<in> set (sq_chunks c). Start x \<in> D}"
  have e: "E = D \<inter> Start ` set (sq_chunks c)" by (auto simp: E_def)
  have "q' = SQ (c\<lparr>sq_done := E, sq_next := skip_done E (sq_chunks c)\<rparr>)"
    using assms(1,2) SQ by (auto simp: static_ResetCompletedOffsets_def Let_def fresh_queue_def E_def)
  then show ?thesis using assms(1,4) SQ mset_starts_split [of "sq_chunks c" E] tiles_distinct [of "sq_chunks c" 0 sz]
      filter_drop_takeWhile [of "\<lambda>c. Start c \<in> E" "\<lambda>c. Start c \<notin> E" "sq_chunks c"]
    by (auto simp: fresh_queue_def queue_ok_def static_pending_def skip_done_def e Int_assoc)
qed

subsection \<open>One region, from the layout to the launch\<close>

text \<open>\<open>t\<close> has one region with all chunks of \<open>l\<close> accounted for, and still rebuilds to a fresh queue.\<close>

definition region_ok :: "task \<Rightarrow> probe_result \<Rightarrow> int \<Rightarrow> chunk list \<Rightarrow> bool" where
  "region_ok t pr effective l \<longleftrightarrow> tk_engines t = None \<and> tk_single t = NotBuilt \<and> (\<exists>q. tk_queue t = Some q \<and> queue_ok q l) \<and> tk_probe t = Some pr \<and>
     tiles l 0 (TotalSize pr) \<and>
     (\<exists>q. single_queue t (layout_size pr) effective = Some q \<and> fresh_queue q (TotalSize pr) \<and> wq_chunks q = l)"

lemma single_queue_cong:
  "tk_opts t = tk_opts t' \<Longrightarrow> tk_ariaSplit t = tk_ariaSplit t' \<Longrightarrow> single_queue t sz e = single_queue t' sz e"
  by (simp add: single_queue_def)

lemma layout_region_ok:
  assumes "layout_in_range (tk_opts t) (TotalSize pr)" "\<not> SingleStream pr" "tk_probe t = Some pr"
    and b: "build_layout t pr budget = Some (t1, eff)" and n: "tk_engines t1 = None"
  shows "\<exists>l. region_ok t1 pr eff l" and "single_queue t1 (layout_size pr) eff = tk_queue t1" and "op_Profile (tk_opts t1) = ''aria2c'' \<Longrightarrow> 1 \<le> tk_ariaSplit t1"
proof -
  note sh = build_layout_shape [OF assms(1-4)]
  obtain q where q: "tk_queue t1 = Some q" "fresh_queue q (TotalSize pr)"
    using sh(4) n by (auto simp: one_region_def two_regions_def)
  show s: "single_queue t1 (layout_size pr) eff = tk_queue t1"
  proof (cases "op_Profile (tk_opts t) = ''aria2c'' \<and> layout_size pr > 0")
    case True
    obtain k seg where "AriaSplit (layout_size pr) (op_Split (tk_opts t)) (op_MinSplitSize (tk_opts t)) = (k, seg)" by fastforce
    then show ?thesis using b n True
      by (auto simp: build_layout_def Let_def single_queue_def both_engines_def uses_both_def split: if_splits option.splits)
  next
    case False
    then show ?thesis using b n
      by (auto simp: build_layout_def Let_def single_queue_def both_engines_def split: if_splits option.splits)
  qed
  have "tk_single t1 = NotBuilt"
    using b by (auto simp: build_layout_def Let_def split: if_splits option.splits prod.splits)
  then have "region_ok t1 pr eff (wq_chunks q)"
    using q n s sh(2) fresh_ok [OF q(2)] by (auto simp: region_ok_def fresh_queue_def)
  then show "\<exists>l. region_ok t1 pr eff l" ..
  assume a: "op_Profile (tk_opts t1) = ''aria2c''"
  obtain k seg where k: "AriaSplit (TotalSize pr) (op_Split (tk_opts t)) (op_MinSplitSize (tk_opts t)) = (k, seg)" by fastforce
  show "1 \<le> tk_ariaSplit t1" using build_aria(1,3) [OF assms(1,2) _ k] a sh(1) b by auto
qed

lemma restore_keeps:
  "tk_queue (restoreChunkHashes cf t) = tk_queue t" "tk_engines (restoreChunkHashes cf t) = tk_engines t"
  "tk_opts (restoreChunkHashes cf t) = tk_opts t" "tk_probe (restoreChunkHashes cf t) = tk_probe t"
  "tk_single (restoreChunkHashes cf t) = tk_single t"
  "tk_ariaSplit (restoreChunkHashes cf t) = tk_ariaSplit t" "tk_outPath (restoreChunkHashes cf t) = tk_outPath t"
  by (auto simp: restoreChunkHashes_def split: option.splits)

lemma resume_region_ok:
  assumes r: "region_ok t pr eff l" "single_queue t (layout_size pr) eff = tk_queue t" "0 < TotalSize pr"
    and s: "resume_step cf pr eff t = (already, t')"
  shows "region_ok t' pr eff l \<and> tk_opts t' = tk_opts t \<and> tk_ariaSplit t' = tk_ariaSplit t"
proof -
  obtain q where q: "tk_engines t = None" "tk_queue t = Some q" "fresh_queue q (TotalSize pr)" "wq_chunks q = l"
    using r by (auto simp: region_ok_def)
  obtain ok al q' where w: "wq_ResetCompletedOffsets (cf_CompletedOffsets cf) (TotalSize pr) q = ((al, ok), q')"
    by (metis prod.exhaust)
  have k: "queue_ok q' l" using reset_ok [OF q(3) w] r(3) q(4) by (simp add: cf_CompletedOffsets_def)
  have z: "reset_queues cf t pr = ((al, ok), t\<lparr>tk_queue := Some q'\<rparr>)" using q w by (simp add: reset_queues_def)
  consider "t' = t" | "t' = t\<lparr>tk_queue := Some q'\<rparr>"
    | "t' = restoreChunkHashes cf (t\<lparr>tk_queue := Some q', tk_resumeETag := cf_ETag cf, tk_bytesDone := al\<rparr>)"
    using s z by (auto simp: resume_step_def split: if_splits)
  then show ?thesis
  proof cases
    case 1
    then show ?thesis using r(1) by simp
  next
    case 2
    then show ?thesis using r(1) k single_queue_cong [of t' t] by (auto simp: region_ok_def)
  next
    case 3
    then show ?thesis using r(1) k single_queue_cong [of t' t] by (auto simp: region_ok_def restore_keeps)
  qed
qed

lemma rebuild_region_ok:
  assumes "region_ok t pr eff l" "rebuild pr eff t = Some t'"
  shows "region_ok t' pr eff l \<and> tk_opts t' = tk_opts t \<and> tk_ariaSplit t' = tk_ariaSplit t"
proof -
  obtain q where q: "tk_engines t = None" "single_queue t (layout_size pr) eff = Some q" "fresh_queue q (TotalSize pr)" "wq_chunks q = l"
    using assms(1) by (auto simp: region_ok_def)
  have "single_queue (clearChunkHashes (t\<lparr>tk_bytesDone := 0\<rparr>)) (layout_size pr) eff = Some q"
    using q(2) single_queue_cong [of "clearChunkHashes (t\<lparr>tk_bytesDone := 0\<rparr>)" t] by (simp add: clearChunkHashes_def)
  then have t': "t' = replace_queue q (clearChunkHashes (t\<lparr>tk_bytesDone := 0\<rparr>))"
    using assms(2) q(1) by (simp add: rebuild_def Let_def clearChunkHashes_def)
  then show ?thesis using assms(1) q fresh_ok [OF q(3)] single_queue_cong [of t' t]
    by (auto simp: region_ok_def clearChunkHashes_def replace_queue_def)
qed

lemma reset_keeps:
  "reset_queues cf t pr = (r, t') \<Longrightarrow> tk_opts t' = tk_opts t \<and> tk_probe t' = tk_probe t"
  by (auto simp: reset_queues_def Let_def split: option.splits prod.splits)

lemma resume_keeps:
  assumes "resume_step cf pr eff t = (already, t')"
  shows "tk_opts t' = tk_opts t" "tk_probe t' = tk_probe t"
proof -
  obtain al ok tq where r: "reset_queues cf t pr = ((al, ok), tq)" by (metis prod.exhaust)
  show "tk_opts t' = tk_opts t" "tk_probe t' = tk_probe t"
    using assms r reset_keeps [OF r] by (auto simp: resume_step_def restore_keeps split: if_splits)
qed

lemma both_kept:
  "resume_step cf pr eff t = (already, t') \<Longrightarrow> tk_engines t' = None \<longleftrightarrow> tk_engines t = None"
  "rebuild pr eff t = Some t' \<Longrightarrow> tk_engines t' = None \<longleftrightarrow> tk_engines t = None"
  by (auto simp: resume_step_def reset_queues_def restore_keeps rebuild_def replace_queue_def clearChunkHashes_def Let_def
      split: if_splits option.splits prod.splits)

lemma persist_keeps:
  assumes "persistControl tx now n (t, fs) = (t', fs')"
  shows "tk_queue t' = tk_queue t" "tk_single t' = tk_single t" "tk_engines t' = tk_engines t" "tk_opts t' = tk_opts t" "tk_probe t' = tk_probe t"
    "tk_ariaSplit t' = tk_ariaSplit t" "tk_outPath t' = tk_outPath t" "tk_state t' = tk_state t" "tk_regionConns t' = tk_regionConns t"
  using assms by (auto simp: persistControl_def Let_def split: option.splits if_splits)

lemma launch_one_region:
  assumes r: "region_ok t pr eff l" "1 \<le> en_conns env" "op_Profile (tk_opts t) = ''aria2c'' \<Longrightarrow> 1 \<le> tk_ariaSplit t"
    and la_def: "la = launch_workers env fs pr d early t"
  shows "\<exists>q n. la_queues la = [q] \<and> queue_ok q l \<and> la_counts la = [n] \<and> 1 \<le> n"
    and "tk_engines (la_task la) = None" "tk_probe (la_task la) = Some pr" "tk_opts (la_task la) = tk_opts t"
    and "tk_outPath (la_task la) = tk_outPath t" "tk_single (la_task la) = OnQueue" "la_early la = early"
proof -
  obtain q where q: "tk_engines t = None" "tk_single t = NotBuilt" "tk_queue t = Some q" "queue_ok q l" "tk_probe t = Some pr"
    using r(1) by (auto simp: region_ok_def)
  define t1 where "t1 = (if TotalSize pr \<le> 0 \<and> SingleStream pr then t\<lparr>tk_conns := 1, tk_connTarget := 1\<rparr> else t\<lparr>tk_connTarget := w32 (launch_conns env t pr)\<rparr>)"
  obtain t2 fs2 where p: "persist_nth env 0 (t1, fs) = (t2, fs2)" by fastforce
  note k = persist_keeps [OF p [unfolded persist_nth_def]]
  have t2: "tk_queue t2 = Some q" "tk_single t2 = NotBuilt" "tk_engines t2 = None" "tk_opts t2 = tk_opts t" "tk_probe t2 = Some pr"
    "tk_ariaSplit t2 = tk_ariaSplit t" "tk_outPath t2 = tk_outPath t"
    using k q by (auto simp: t1_def)
  define w where "w = worker_count t2 pr (launch_conns env t pr)"
  have c: "1 \<le> launch_conns env t pr" using r(2) by (auto simp: launch_conns_def)
  have w: "1 \<le> w" using c r(3) t2 by (auto simp: w_def worker_count_def Let_def)
  have la: "la = \<lparr>la_task = t2\<lparr>tk_conns := w32 w, tk_connTarget := w32 w, tk_single := OnQueue\<rparr>,
      la_files = fs2, la_disk = d, la_queues = [q], la_counts = [nat w], la_early = early\<rparr>"
    using p t2 by (simp add: la_def launch_workers_def Let_def t1_def [symmetric] w_def currentEngine_def queue_engine_def)
  show "\<exists>q n. la_queues la = [q] \<and> queue_ok q l \<and> la_counts la = [n] \<and> 1 \<le> n" using la q(4) w by auto
  show "tk_engines (la_task la) = None" "tk_probe (la_task la) = Some pr" "tk_opts (la_task la) = tk_opts t" "tk_outPath (la_task la) = tk_outPath t"
    "tk_single (la_task la) = OnQueue" "la_early la = early"
    using la t2 by auto
qed

lemma identify_probe: "identify env t0 = Inr (t, pr) \<Longrightarrow> tk_probe t = Some pr"
  by (auto simp: identify_def Let_def refine_filename_def smart_resolve_def set_profile_def set_state_def
      split: if_splits option.splits sum.splits)

lemma place_probe: "place env fs t pr = Some (Placed t' pr' n) \<Longrightarrow> tk_probe t = Some pr \<Longrightarrow> tk_probe t' = Some pr'"
  by (auto simp: place_def Let_def split: if_splits option.splits prod.splits bool.splits)

lemma launch_task_keeps:
  "\<exists>u. la_task (launch_workers env fs pr d early t) = u \<and> tk_engines u = tk_engines t \<and> tk_opts u = tk_opts t \<and> tk_probe u = tk_probe t"
proof -
  define t1 where "t1 = (if TotalSize pr \<le> 0 \<and> SingleStream pr then t\<lparr>tk_conns := 1, tk_connTarget := 1\<rparr> else t\<lparr>tk_connTarget := w32 (launch_conns env t pr)\<rparr>)"
  obtain t2 fs2 where p: "persist_nth env 0 (t1, fs) = (t2, fs2)" by fastforce
  have "tk_engines t1 = tk_engines t \<and> tk_opts t1 = tk_opts t \<and> tk_probe t1 = tk_probe t" by (simp add: t1_def)
  then show ?thesis using persist_keeps [OF p [unfolded persist_nth_def]] p
    by (simp add: launch_workers_def Let_def t1_def [symmetric] currentEngine_def split: option.splits cached_engine.splits)
qed

text \<open>The phases of a Start that launches its workers and that no connection change reached before.\<close>

lemma start_before_launched:
  assumes "start_before env fs t0 = Some (Launched la)" "en_early env = None"
  obtains t2 pr t3 eff r d already t4 where
    "tk_probe t2 = Some pr" "build_layout t2 pr (en_conns env) = Some (t3, eff)"
    "r = take_control env fs pr eff t3" "check_integrity env pr eff d r = Some (already, t4)" "la = launch_workers env fs pr d 0 t4"
proof -
  obtain t1 pr1 where i: "identify env t0 = Inr (t1, pr1)"
    using assms by (auto simp: start_before_def split: sum.splits prod.splits)
  obtain t2 pr n where p: "place env fs t1 pr1 = Some (Placed t2 pr n)"
    using assms i by (auto simp: start_before_def split: option.splits placement.splits)
  obtain t3 eff where b: "build_layout t2 pr (en_conns env) = Some (t3, eff)"
    using assms i p by (auto simp: start_before_def split: option.splits)
  have e: "early_adjust (en_early env) t3 = (0, t3)" using assms(2) by (simp add: early_adjust_def)
  obtain d where d: "OpenForWrite (en_open env) n (TotalSize pr) (en_disk env) = Inr d"
    using assms(1) i p b e by (auto simp: start_before_def Let_def split: sum.splits)
  obtain already t4 where c: "check_integrity env pr eff d (take_control env fs pr eff t3) = Some (already, t4)"
    using assms(1) i p b d e by (auto simp: start_before_def Let_def split: option.splits)
  have "la = launch_workers env fs pr d 0 t4"
    using assms(1) i p b d c e by (auto simp: start_before_def Let_def complete_on_disk_def split: if_splits option.splits prod.splits)
  then show ?thesis using that [OF place_probe [OF p identify_probe [OF i]] b refl c] by blast
qed

lemma take_control_cases:
  assumes "take_control env fs pr eff t = (already, t', cf)"
  shows "t' = t \<or> (\<exists>c. resume_step c pr eff t = (already, t'))"
  using assms by (auto simp: take_control_def split: if_splits sum.splits prod.splits)

lemma check_integrity_cases:
  assumes "check_integrity env pr eff d (already, t, cf) = Some (already', t')"
  shows "t' = t \<or> rebuild pr eff t = Some t'"
  using assms by (auto simp: check_integrity_def split: if_splits option.splits)

lemma pool_errors:
  assumes "task_steps retry (start_pool qs [n]) s" "1 \<le> n"
  shows "0 \<le> errors s"
proof -
  have "counters_ok (start_pool qs [n])" using assms(2) by (simp add: start_counters)
  with assms(1) have "counters_ok s" by (induction rule: rtranclp_induct) (auto dest: counters_step)
  then show ?thesis by (simp add: counters_ok_def)
qed

text \<open>After a launch with one region the queue the pool starts with accounts for a tiling of the file.\<close>

lemma launched_one_region:
  assumes b: "start_before env fs t0 = Some (Launched la)" "tk_engines (la_task la) = None" "tk_probe (la_task la) = Some pr"
    and o: "layout_in_range (tk_opts (la_task la)) (TotalSize pr)" "\<not> SingleStream pr" "1 \<le> en_conns env" "en_early env = None"
  shows "\<exists>l q n. tiles l 0 (TotalSize pr) \<and> la_queues la = [q] \<and> queue_ok q l \<and> la_counts la = [n] \<and> 1 \<le> n \<and>
    tk_single (la_task la) = OnQueue \<and> la_early la = 0"
proof -
  obtain t2 pr' t3 eff r d already t4 where p:
    "tk_probe t2 = Some pr'" "build_layout t2 pr' (en_conns env) = Some (t3, eff)" "r = take_control env fs pr' eff t3"
    "check_integrity env pr' eff d r = Some (already, t4)" "la = launch_workers env fs pr' d 0 t4"
    by (rule start_before_launched [OF b(1) o(4)])
  obtain a tr cf where r: "take_control env fs pr' eff t3 = (a, tr, cf)" by (metis prod_cases3)
  have c: "t4 = tr \<or> rebuild pr' eff tr = Some t4" using check_integrity_cases p(3,4) r by simp
  note tc = take_control_cases [OF r]
  define x where "x = (tk_opts t4 = tk_opts t2 \<and> tk_probe t4 = Some pr')"
  have opts: "tk_opts t3 = tk_opts t2" "tk_probe t3 = tk_probe t2" "tk_opts tr = tk_opts t3" "tk_probe tr = tk_probe t3"
    "tk_opts t4 = tk_opts tr" "tk_probe t4 = tk_probe tr"
  proof -
    show "tk_opts t3 = tk_opts t2" "tk_probe t3 = tk_probe t2"
      using p(2) by (auto simp: build_layout_def Let_def split: if_splits prod.splits option.splits)
    show "tk_opts tr = tk_opts t3" "tk_probe tr = tk_probe t3"
      using tc resume_keeps by blast+
    show "tk_opts t4 = tk_opts tr" "tk_probe t4 = tk_probe tr"
      using c by (auto simp: rebuild_def replace_queue_def Let_def clearChunkHashes_def split: option.splits)
  qed
  obtain u fu where la_t: "la_task la = u" "tk_engines u = tk_engines t4" "tk_opts u = tk_opts t4" "tk_probe u = tk_probe t4"
    using launch_task_keeps [of env fs pr' d 0 t4] p(5) by blast
  have pr: "pr' = pr" using la_t opts p(1) b(3) by simp
  have in_range: "layout_in_range (tk_opts t2) (TotalSize pr)" using o(1) la_t opts by simp
  have n3: "tk_engines t3 = None"
    using la_t b(2) c tc both_kept(1) [of _ pr eff t3 a tr] both_kept(2) [of pr eff tr t4] pr by auto
  have in2: "layout_in_range (tk_opts t2) (TotalSize pr')" "\<not> SingleStream pr'" using in_range o(2) pr by auto
  note L = layout_region_ok [OF in2 p(1,2) n3]
  obtain l where l: "region_ok t3 pr eff l" using L(1) pr by blast
  have pos: "0 < TotalSize pr" using in_range by (simp add: layout_in_range_def)
  have rr: "region_ok tr pr eff l \<and> tk_opts tr = tk_opts t3 \<and> tk_ariaSplit tr = tk_ariaSplit t3"
    using tc l resume_region_ok [OF l _ pos] L(2) pr by auto
  have r4: "region_ok t4 pr eff l" "tk_ariaSplit t4 = tk_ariaSplit t3"
    using c rr rebuild_region_ok [of tr pr eff l t4] pr by auto
  have asp: "1 \<le> tk_ariaSplit t4" if "op_Profile (tk_opts t4) = ''aria2c''" using that opts r4(2) L(3) by simp
  have la': "la = launch_workers env fs pr d 0 t4" using p(5) pr by simp
  note lo = launch_one_region [OF r4(1) o(3) asp la']
  show ?thesis using r4(1) lo(1,6,7) by (auto simp: region_ok_def)
qed

subsection \<open>Properties\<close>


text \<open>A concrete run: ten bytes, chunks of four, two workers, one failed chunk.\<close>

definition sample_env :: start_env where
  "sample_env = \<lparr>en_conns = 2, en_early = None, en_probe = Inl ProbeFailed, en_sidecar = None, en_h2_head = None, en_stat = (\<lambda>_. None),
     en_readable = True, en_open = None, en_disk = (\<lambda>_. None), en_sha = (\<lambda>_. []), en_server = (\<lambda>_ _ _. (None, [])),
     en_digest = (\<lambda>_ _. None), en_now = int, en_text = (\<lambda>_. zero_time), en_saves = (\<lambda>_. 3), en_removable = True\<rparr>"

definition small_task :: task where
  "small_task = (sample_task ''odm'' ((sample_probe 10)\<lparr>Filename := ''f''\<rparr>))
     \<lparr>tk_opts := (sample_opts ''odm'')\<lparr>op_ChunkSize := 4\<rparr>\<rparr>"

definition sample_run :: "workQueue pool \<Rightarrow> workQueue pool option" where
  "sample_run = run 1 (turn 0 @ turn 1 @ [Fail 0, Succeed 1] @ turn 0 @ [Succeed 0] @ turn 1 @ [Succeed 1] @ turn 0 @ turn 1)"

lemma sample_start:
  "case start_before sample_env (\<lambda>_. None) small_task of
     Some (Launched la) \<Rightarrow> Option.is_none (tk_engines (la_task la)) \<and>
       (case tk_probe (la_task la) of None \<Rightarrow> False | Some pr \<Rightarrow> TotalSize pr = 10 \<and> \<not> SingleStream pr) \<and>
       layout_in_range (tk_opts (la_task la)) 10 \<and>
       (case sample_run (launched_pool la) of
          None \<Rightarrow> False
        | Some s \<Rightarrow> all_left s \<and> asked s < 2 ^ 31 \<and> Option.is_none (fst (start_after sample_env (cancelled s) (after_pool la s) (la_files la))))
   | _ \<Rightarrow> False"
  by code_simp


text \<open>a change of the connection count that arrives before the launch is excluded for a reason. Here it
  raises the count while Start is resuming and so caches an engine on the resumed queue; the integrity check
  then fails and Start rebuilds \<open>t.queue\<close>, but its workers run on the cached engine. They fetch what the old
  queue had left and Start reports success, though no chunk of the rebuilt queue was ever downloaded.\<close>

definition early_env :: start_env where
  "early_env = sample_env\<lparr>en_early := Some 1\<rparr>"

definition corrupt_control :: ControlFile where
  "corrupt_control = zero_control\<lparr>cf_URL := ''u'', cf_TotalSize := 10, cf_ChunkSize := 4, cf_Completed := [0, 4],
     cf_ChunkHashes := [(0, ''aa''), (4, ''bb'')]\<rparr>"

definition corrupt_files :: files where
  "corrupt_files = snd (SaveControl 3 ''f'' corrupt_control (\<lambda>_. None))"

lemma start_on_stale_queue:
  "case start_before early_env corrupt_files small_task of
     Some (Launched la) \<Rightarrow>
       (case run 0 (turn 0 @ [Succeed 0] @ turn 0 @ turn 1 @ turn 2) (launched_pool la) of
          None \<Rightarrow> False
        | Some s \<Rightarrow> all_left s \<and> errors s = 0 \<and>
            (case start_after early_env (cancelled s) (after_pool la s) (la_files la) of
               (r, t', fs') \<Rightarrow> Option.is_none r \<and> completed_abs t' = [] \<and> tk_state t' = StateCompleted))
   | _ \<Rightarrow> False"
  by code_simp

text \<open>the per-server connection cap (-x) never acts. The aria2c branch is the only one that looks at it, and
  there \<open>profileUsesH2\<close> is true by the profile alone, so the workers of an aria2c task are the requested
  connections capped by the number of segments, whatever \<open>MaxConnPerServer\<close> says and whether or not
  the server speaks HTTP/2.\<close>

lemma worker_count_no_server_cap:
  "worker_count t pr c =
     (if op_Profile (tk_opts t) = ''aria2c'' \<and> 0 < tk_ariaSplit t then min c (tk_ariaSplit t) else c)"
  by (auto simp: worker_count_def profileUsesH2_def Let_def)

end
