(* ===== verification/Client.thy ===== *)
theory Client imports Daemon begin

section \<open>The HTTP client (internal/transport/transport.go: NewClient, socks5Dialer)\<close>

text \<open>
  What \<open>NewClient\<close> builds from its configuration, the redirects it follows, and how its dialer turns the address of a
  request into what a proxy is told. url.Parse, http.CanonicalHeaderKey, the resolver and proxy.FromURL are parameters;
  the address syntax of package net (SplitHostPort, JoinHostPort, ParseIP) is written out. A duration is in nanoseconds.
\<close>

record client_config =
  cc_UserAgent :: string
  cc_Headers :: "string list"
  cc_Referer :: string
  cc_Proxy :: string
  cc_CheckCertificate :: bool
  cc_MaxRedirect :: int
  cc_Timeout :: int
  cc_HTTP2 :: bool

record proxy_url =
  px_scheme :: string
  px_host :: string
  px_port :: string

text \<open>The dialer of the transport: the plain one, or SOCKS5 through the host and port of the proxy, with whether
  names are resolved here, and the time a dial without a deadline may take.\<close>

datatype dialer = NetDial | SocksDial string string bool int

record http_transport =
  tr_skip_verify :: bool
  tr_dial_timeout :: int
  tr_tls_timeout :: int
  tr_header_timeout :: int
  tr_keep_alive :: int
  tr_idle_timeout :: int
  tr_max_idle :: nat
  tr_max_idle_host :: nat
  tr_force_h2 :: bool
  tr_offers_h2 :: bool
  tr_proxy :: "proxy_url option"
  tr_dial :: dialer

record http_client =
  hc_transport :: http_transport
  hc_MaxRedirect :: int
  hc_timeout :: int
  hc_baseHdr :: header_set

datatype client_error = ProxyUnparsed | ProxyRefused proxy_error | ProxyDialer | BadHeader string

definition clamp_config :: "client_config \<Rightarrow> client_config" where
  "clamp_config cfg =
     cfg\<lparr>cc_MaxRedirect := (if cc_MaxRedirect cfg < 0 then 0 else cc_MaxRedirect cfg),
         cc_Timeout := (if cc_Timeout cfg \<le> 0 then 30 * second else cc_Timeout cfg)\<rparr>"

definition base_transport :: "client_config \<Rightarrow> http_transport" where
  "base_transport cfg =
     \<lparr>tr_skip_verify = \<not> cc_CheckCertificate cfg, tr_dial_timeout = cc_Timeout cfg, tr_tls_timeout = cc_Timeout cfg,
      tr_header_timeout = cc_Timeout cfg, tr_keep_alive = 30 * second, tr_idle_timeout = 90 * second,
      tr_max_idle = 512, tr_max_idle_host = 64, tr_force_h2 = cc_HTTP2 cfg, tr_offers_h2 = cc_HTTP2 cfg,
      tr_proxy = None, tr_dial = NetDial\<rparr>"

definition wire_proxy ::
  "(string \<Rightarrow> proxy_url option) \<Rightarrow> (proxy_url \<Rightarrow> bool) \<Rightarrow> client_config \<Rightarrow> http_transport \<Rightarrow> client_error + http_transport" where
  "wire_proxy url_parse from_url cfg tr =
     (if cc_Proxy cfg = [] then Inr tr
      else case url_parse (cc_Proxy cfg) of
        None \<Rightarrow> Inl ProxyUnparsed
      | Some px \<Rightarrow>
          (case proxy_check (cc_Proxy cfg) (px_scheme px) (px_host px) (px_port px) of
             Inl e \<Rightarrow> Inl (ProxyRefused e)
           | Inr NoProxy \<Rightarrow> Inr tr
           | Inr HTTPConnect \<Rightarrow> Inr (tr\<lparr>tr_proxy := Some px\<rparr>)
           | Inr (Socks5 resolve) \<Rightarrow>
               if from_url px then Inr (tr\<lparr>tr_dial := SocksDial (px_host px) (px_port px) resolve (tr_dial_timeout tr)\<rparr>)
               else Inl ProxyDialer))"

definition NewClient ::
  "(string \<Rightarrow> proxy_url option) \<Rightarrow> (proxy_url \<Rightarrow> bool) \<Rightarrow> (string \<Rightarrow> string) \<Rightarrow> client_config \<Rightarrow>
   client_error + http_client" where
  "NewClient url_parse from_url canonical cfg0 =
     (let cfg = clamp_config cfg0
      in case wire_proxy url_parse from_url cfg (base_transport cfg) of
           Inl e \<Rightarrow> Inl e
         | Inr tr \<Rightarrow>
             (case initBaseHeaders canonical (cc_UserAgent cfg) (cc_Referer cfg) (cc_Headers cfg) of
                Inl line \<Rightarrow> Inl (BadHeader line)
              | Inr h \<Rightarrow> Inr \<lparr>hc_transport = tr, hc_MaxRedirect = cc_MaxRedirect cfg, hc_timeout = 0, hc_baseHdr = h\<rparr>))"

text \<open>The two clients of the manager: the first never offers HTTP/2.\<close>

definition manager_config :: "exec_opts \<Rightarrow> bool \<Rightarrow> client_config" where
  "manager_config opts h2 =
     \<lparr>cc_UserAgent = eo_UserAgent opts, cc_Headers = eo_Headers opts, cc_Referer = eo_Referer opts, cc_Proxy = eo_Proxy opts,
      cc_CheckCertificate = eo_CheckCert opts, cc_MaxRedirect = eo_MaxRedirect opts, cc_Timeout = eo_Timeout opts,
      cc_HTTP2 = h2\<rparr>"

definition manager_client ::
  "(string \<Rightarrow> proxy_url option) \<Rightarrow> (proxy_url \<Rightarrow> bool) \<Rightarrow> (string \<Rightarrow> string) \<Rightarrow> exec_opts \<Rightarrow> bool \<Rightarrow> client_error option" where
  "manager_client url_parse from_url canonical opts h2 =
     (case NewClient url_parse from_url canonical (manager_config opts h2) of Inl e \<Rightarrow> Some e | Inr _ \<Rightarrow> None)"

subsection \<open>Redirects\<close>

text \<open>A request and the redirects after it, as http.Client follows them: next is where the server's answer sends the
  client, None for an answer that is no redirect; via is the requests made before, newest first.\<close>

function follow :: "int \<Rightarrow> ('u \<Rightarrow> 'u option) \<Rightarrow> 'u list \<Rightarrow> 'u \<Rightarrow> 'u list \<times> 'u option" where
  "follow maxRedirect nxt via u =
     (case nxt u of
        None \<Rightarrow> (u # via, Some u)
      | Some u' \<Rightarrow>
          if checkRedirect maxRedirect (length (u # via)) then follow maxRedirect nxt (u # via) u' else (u # via, None))"
  by pat_completeness auto

termination
  by (relation "measure (\<lambda>(maxRedirect, nxt, via, u). Suc (nat maxRedirect) - length via)")
    (auto simp: checkRedirect_def split: if_splits)

declare follow.simps [simp del]

fun chain :: "('u \<Rightarrow> 'u option) \<Rightarrow> nat \<Rightarrow> 'u \<Rightarrow> 'u option" where
  "chain nxt 0 u = Some u"
| "chain nxt (Suc n) u = (case nxt u of None \<Rightarrow> None | Some u' \<Rightarrow> chain nxt n u')"

subsection \<open>Addresses\<close>

definition index_of :: "char \<Rightarrow> string \<Rightarrow> nat option" where
  "index_of c s = (if c \<in> set s then Some (length (takeWhile (\<lambda>x. x \<noteq> c) s)) else None)"

text \<open>net.SplitHostPort, its errors as None.\<close>

definition SplitHostPort :: "string \<Rightarrow> (string \<times> string) option" where
  "SplitHostPort hp =
     (case last_index CHR '':'' hp of
        None \<Rightarrow> None
      | Some i \<Rightarrow>
          let checked = (\<lambda>host j k. if CHR ''['' \<in> set (drop j hp) \<or> CHR '']'' \<in> set (drop k hp) then None
                                  else Some (host, drop (i + 1) hp))
          in if hd hp = CHR ''[''
             then (case index_of CHR '']'' hp of
                     None \<Rightarrow> None
                   | Some en \<Rightarrow> if en + 1 = i then checked (take (en - 1) (drop 1 hp)) 1 (en + 1) else None)
             else let host = take i hp
                  in if CHR '':'' \<in> set host then None else checked host 0 0)"

definition JoinHostPort :: "string \<Rightarrow> string \<Rightarrow> string" where
  "JoinHostPort host port =
     (if CHR '':'' \<in> set host then ''['' @ host @ '']:'' @ port else host @ '':'' @ port)"

text \<open>net.ParseIP, as whether the text is an address: four decimal fields, or IPv6 with at most one ellipsis and
  perhaps four decimal fields at the end. The IPv6 loop has the 16-bit fields still to come and whether the ellipsis
  was seen.\<close>

definition ip_field :: "string \<Rightarrow> bool" where
  "ip_field s \<longleftrightarrow>
     (case parse_digits 0 s of None \<Rightarrow> False | Some n \<Rightarrow> s \<noteq> [] \<and> n \<le> 255 \<and> (hd s = CHR ''0'' \<longrightarrow> length s = 1))"

definition is_ipv4 :: "string \<Rightarrow> bool" where
  "is_ipv4 s \<longleftrightarrow> (let fs = split_on CHR ''.'' s in length fs = 4 \<and> list_all ip_field fs)"

definition is_hex :: "char \<Rightarrow> bool" where
  "is_hex c \<longleftrightarrow> c \<in> set ''0123456789abcdefABCDEF''"

fun ipv6_fields :: "nat \<Rightarrow> bool \<Rightarrow> string \<Rightarrow> bool" where
  "ipv6_fields 0 ell s = (s = [] \<and> \<not> ell)"
| "ipv6_fields (Suc n) ell s =
     (let h = takeWhile is_hex s; r = dropWhile is_hex s
      in if h = [] \<or> length h > 4 then False
         else case r of
           [] \<Rightarrow> (if n = 0 then \<not> ell else ell)
         | c # r' \<Rightarrow>
             if c = CHR ''.'' then is_ipv4 s \<and> (if n = 1 then \<not> ell else n > 1 \<and> ell)
             else if c \<noteq> CHR '':'' \<or> r' = [] then False
             else if hd r' = CHR '':'' then
               (if ell then False else if tl r' = [] then n > 0 else ipv6_fields n True (tl r'))
             else ipv6_fields n ell r')"

definition is_ipv6 :: "string \<Rightarrow> bool" where
  "is_ipv6 s \<longleftrightarrow>
     (if has_prefix s ''::'' then (drop 2 s = [] \<or> ipv6_fields 8 True (drop 2 s)) else ipv6_fields 8 False s)"

definition ParseIP :: "string \<Rightarrow> bool" where
  "ParseIP s \<longleftrightarrow>
     (case filter (\<lambda>c. c \<in> set ''.:%'') s of
        [] \<Rightarrow> False | c # _ \<Rightarrow> if c = CHR ''.'' then is_ipv4 s else if c = CHR '':'' then is_ipv6 s else False)"

subsection \<open>Dialling\<close>

datatype dial_error = BadAddress | LookupFailed string | NoAddresses string

text \<open>\<open>socks5Dialer.DialContext\<close> up to the SOCKS handshake: the address the proxy is given, and the deadline.\<close>

definition socks_address :: "(string \<Rightarrow> string list option) \<Rightarrow> bool \<Rightarrow> string \<Rightarrow> dial_error + string" where
  "socks_address lookup_ip resolve address =
     (if \<not> resolve then Inr address
      else case SplitHostPort address of
        None \<Rightarrow> Inl BadAddress
      | Some (host, port) \<Rightarrow>
          if ParseIP host then Inr address
          else case lookup_ip host of
            None \<Rightarrow> Inl (LookupFailed host)
          | Some [] \<Rightarrow> Inl (NoAddresses host)
          | Some (ip # _) \<Rightarrow> Inr (JoinHostPort ip port))"

definition dial_deadline :: "int option \<Rightarrow> int \<Rightarrow> int \<Rightarrow> int option" where
  "dial_deadline deadline now timeout =
     (case deadline of Some d \<Rightarrow> Some d | None \<Rightarrow> if timeout > 0 then Some (now + timeout) else None)"

subsection \<open>The redirect policy\<close>

lemma checkRedirect_iff: "checkRedirect m n \<longleftrightarrow> n \<le> nat m"
  by (auto simp: checkRedirect_def)

lemma follow_outcome:
  assumes "length via \<le> nat m"
  shows "length (fst (follow m nxt via u)) \<le> Suc (nat m)"
    and "snd (follow m nxt via u) = Some v \<longleftrightarrow> (\<exists>k. k + length via \<le> nat m \<and> chain nxt k u = Some v \<and> nxt v = None)"
proof -
  have "length (fst (follow m nxt via u)) \<le> Suc (nat m) \<and>
    (snd (follow m nxt via u) = Some v \<longleftrightarrow> (\<exists>k. k + length via \<le> nat m \<and> chain nxt k u = Some v \<and> nxt v = None))"
    using assms
  proof (induction m nxt via u rule: follow.induct)
    case (1 m nxt via u)
    show ?case
    proof (cases "nxt u")
      case None
      have "chain nxt k u = Some v \<longleftrightarrow> k = 0 \<and> v = u" for k using None by (cases k) auto
      with None "1.prems" show ?thesis by (auto simp: follow.simps [of m nxt via u])
    next
      case (Some u')
      have step: "chain nxt k u = Some v \<and> nxt v = None \<longleftrightarrow> (\<exists>j. k = Suc j \<and> chain nxt j u' = Some v \<and> nxt v = None)" for k
        using Some by (cases k) auto
      have ex: "(\<exists>k. k + length via \<le> nat m \<and> chain nxt k u = Some v \<and> nxt v = None) \<longleftrightarrow>
          (\<exists>j. j + length (u # via) \<le> nat m \<and> chain nxt j u' = Some v \<and> nxt v = None)"
        (is "?L \<longleftrightarrow> ?R")
      proof
        show "?L \<Longrightarrow> ?R" unfolding step by auto
        assume ?R
        then obtain j where "Suc j + length via \<le> nat m" "chain nxt j u' = Some v \<and> nxt v = None" by auto
        then show ?L unfolding step by (intro exI [of _ "Suc j"]) simp
      qed
      show ?thesis
      proof (cases "checkRedirect m (length (u # via))")
        case True
        then have "length (u # via) \<le> nat m" by (simp add: checkRedirect_iff)
        from "1.IH" [OF Some True this] have ih: "length (fst (follow m nxt (u # via) u')) \<le> Suc (nat m)"
          "snd (follow m nxt (u # via) u') = Some v \<longleftrightarrow>
            (\<exists>k. k + length (u # via) \<le> nat m \<and> chain nxt k u' = Some v \<and> nxt v = None)" by auto
        have "follow m nxt via u = follow m nxt (u # via) u'" using Some True by (simp add: follow.simps [of m nxt via u])
        with ih show ?thesis unfolding ex by simp
      next
        case False
        then have "follow m nxt via u = (u # via, None)" using Some by (simp add: follow.simps [of m nxt via u])
        moreover have "\<not> Suc (length via) \<le> nat m" using False by (simp add: checkRedirect_iff)
        ultimately show ?thesis using "1.prems" unfolding ex by auto
      qed
    qed
  qed
  then show "length (fst (follow m nxt via u)) \<le> Suc (nat m)"
    and "snd (follow m nxt via u) = Some v \<longleftrightarrow> (\<exists>k. k + length via \<le> nat m \<and> chain nxt k u = Some v \<and> nxt v = None)"
    by blast+
qed

subsection \<open>Addresses there and back\<close>

lemma last_index_split:
  assumes "c \<notin> set b"
  shows "last_index c (a @ c # b) = Some (length a)"
proof -
  have "takeWhile (\<lambda>x. x \<noteq> c) (rev b @ c # rev a) = rev b" using assms by (subst takeWhile_append2) auto
  then show ?thesis by (simp add: last_index_def after_last_def)
qed

lemma last_index_SomeD:
  assumes "last_index c s = Some i"
  shows "s = take i s @ c # drop (i + 1) s" "c \<notin> set (drop (i + 1) s)"
proof -
  from assms have "c \<in> set s" by (auto simp: last_index_def split: if_splits)
  then obtain a b where s: "s = a @ c # b" "c \<notin> set b" by (meson split_list_last)
  with assms last_index_split [OF s(2), of a] have "i = length a" by simp
  with s show "s = take i s @ c # drop (i + 1) s" "c \<notin> set (drop (i + 1) s)" by auto
qed

lemma SplitHostPort_Join:
  assumes h: "CHR ''['' \<notin> set host" "CHR '']'' \<notin> set host"
    and p: "CHR '':'' \<notin> set port" "CHR ''['' \<notin> set port" "CHR '']'' \<notin> set port"
  shows "SplitHostPort (JoinHostPort host port) = Some (host, port)"
proof (cases "CHR '':'' \<in> set host")
  case True
  let ?hp = "''['' @ host @ '']:'' @ port"
  have l: "last_index CHR '':'' ?hp = Some (length host + 2)"
    using last_index_split [OF p(1), of "''['' @ host @ '']''"] by simp
  have "takeWhile (\<lambda>x. x \<noteq> CHR '']'') ?hp = CHR ''['' # host"
    using h(2) by (simp add: takeWhile_append2 takeWhile_append1)
      (subst takeWhile_append2, auto)
  then have "index_of CHR '']'' ?hp = Some (length host + 1)" by (simp add: index_of_def)
  then show ?thesis using True l h p unfolding SplitHostPort_def JoinHostPort_def Let_def by simp
next
  case False
  have l: "last_index CHR '':'' (host @ '':'' @ port) = Some (length host)"
    using last_index_split [OF p(1), of host] by simp
  have "hd (host @ '':'' @ port) \<noteq> CHR ''[''" using h(1) by (cases host) auto
  then show ?thesis using False l h p unfolding SplitHostPort_def JoinHostPort_def Let_def by simp
qed

lemma SplitHostPort_port:
  assumes "SplitHostPort a = Some (host, port)"
  shows "CHR '':'' \<notin> set port \<and> CHR ''['' \<notin> set port \<and> CHR '']'' \<notin> set port"
proof -
  obtain i where i: "last_index CHR '':'' a = Some i" using assms by (auto simp: SplitHostPort_def split: option.splits)
  have port: "port = drop (i + 1) a"
    using assms i by (auto simp: SplitHostPort_def Let_def split: option.splits if_splits)
  have "\<exists>j k. j \<le> i + 1 \<and> k \<le> i + 1 \<and> CHR ''['' \<notin> set (drop j a) \<and> CHR '']'' \<notin> set (drop k a)"
  proof (cases "hd a = CHR ''[''")
    case True
    with assms i have "CHR ''['' \<notin> set (drop 1 a)" "CHR '']'' \<notin> set (drop i a)"
      by (auto simp: SplitHostPort_def Let_def split: option.splits if_splits)
    then show ?thesis by (intro exI [of _ 1] exI [of _ i]) simp
  next
    case False
    with assms i have "CHR ''['' \<notin> set (drop 0 a)" "CHR '']'' \<notin> set (drop 0 a)"
      by (auto simp: SplitHostPort_def Let_def split: option.splits if_splits)
    then show ?thesis by (intro exI [of _ 0]) simp
  qed
  then obtain j k where jk: "j \<le> i + 1" "k \<le> i + 1" "CHR ''['' \<notin> set (drop j a)" "CHR '']'' \<notin> set (drop k a)" by blast
  from jk(1,2) have "set port \<subseteq> set (drop j a)" "set port \<subseteq> set (drop k a)"
    by (simp_all add: port set_drop_subset_set_drop)
  with jk(3,4) last_index_SomeD(2) [OF i] show ?thesis by (auto simp: port)
qed

lemma in_split_on: "c \<in> set s \<Longrightarrow> c \<noteq> d \<Longrightarrow> \<exists>f \<in> set (split_on d s). c \<in> set f"
  by (induction d s rule: split_on.induct) (auto split: list.splits)

lemma parse_digits_chars: "parse_digits a s = Some n \<Longrightarrow> c \<in> set s \<Longrightarrow> digit_val c \<noteq> None"
  by (induction a s rule: parse_digits.induct) (auto split: option.splits)

definition ip_char :: "char \<Rightarrow> bool" where
  "ip_char c \<longleftrightarrow> c \<noteq> CHR ''['' \<and> c \<noteq> CHR '']''"

lemma is_ipv4_chars: "is_ipv4 s \<Longrightarrow> list_all ip_char s"
proof (unfold list_all_iff, intro ballI)
  fix c assume s: "is_ipv4 s" and c: "c \<in> set s"
  show "ip_char c"
  proof (cases "c = CHR ''.''")
    case False
    with in_split_on [OF c] obtain f where f: "f \<in> set (split_on CHR ''.'' s)" "c \<in> set f" by blast
    then have "ip_field f" using s by (simp add: is_ipv4_def Let_def list_all_iff)
    then have "digit_val c \<noteq> None"
      using f(2) parse_digits_chars [of 0 f _ c] by (auto simp: ip_field_def split: option.splits)
    then show ?thesis by (auto simp: ip_char_def digit_val_def)
  qed (simp add: ip_char_def)
qed

lemma is_hex_ip_char: "list_all ip_char (takeWhile is_hex s)"
  by (induction s) (auto simp: is_hex_def ip_char_def)

lemma ipv6_fields_chars: "ipv6_fields n ell s \<Longrightarrow> list_all ip_char s"
proof (induction n ell s rule: ipv6_fields.induct)
  case (2 n ell s)
  let ?r = "dropWhile is_hex s"
  have s: "list_all ip_char s \<longleftrightarrow> list_all ip_char ?r"
    using is_hex_ip_char [of s] list_all_append [of ip_char "takeWhile is_hex s" ?r] by simp
  show ?case
  proof (cases ?r)
    case Nil
    show ?thesis unfolding s Nil by simp
  next
    case (Cons c r')
    show ?thesis
    proof (cases "c = CHR ''.''")
      case True
      with "2.prems" Cons show ?thesis by (auto simp: Let_def split: if_splits intro: is_ipv4_chars)
    next
      case False
      with "2.prems" Cons have c: "c = CHR '':''" "r' \<noteq> []" by (auto simp: Let_def split: if_splits)
      obtain d r'' where r': "r' = d # r''" using c(2) by (cases r') auto
      have "list_all ip_char r'"
      proof (cases "d = CHR '':''")
        case True
        have "list_all ip_char r''"
        proof (cases "r'' = []")
          case nonempty: False
          with "2.prems" Cons c True r' have "ipv6_fields n True r''" by (auto simp: Let_def split: if_splits)
          then show ?thesis using "2.IH" (1) Cons c True r' nonempty "2.prems" by (auto simp: Let_def split: if_splits)
        qed simp
        then show ?thesis by (simp add: r' True ip_char_def)
      next
        case no_ellipsis: False
        with "2.prems" Cons c r' have "ipv6_fields n ell r'" by (auto simp: Let_def split: if_splits)
        then show ?thesis using "2.IH" (2) Cons c no_ellipsis r' "2.prems" by (auto simp: Let_def split: if_splits)
      qed
      then show ?thesis unfolding s Cons by (simp add: c ip_char_def)
    qed
  qed
qed simp

lemma ParseIP_chars: "ParseIP s \<Longrightarrow> CHR ''['' \<notin> set s \<and> CHR '']'' \<notin> set s"
proof -
  assume "ParseIP s"
  then have "is_ipv4 s \<or> is_ipv6 s" by (auto simp: ParseIP_def split: list.splits if_splits)
  then have "list_all ip_char s"
  proof
    assume "is_ipv6 s"
    show ?thesis
    proof (cases "has_prefix s ''::''")
      case True
      then obtain t where t: "s = ''::'' @ t" by (auto simp only: has_prefix_iff)
      with \<open>is_ipv6 s\<close> have "t = [] \<or> ipv6_fields 8 True t" by (simp add: is_ipv6_def)
      then show ?thesis using ipv6_fields_chars [of 8 True t] by (auto simp: t ip_char_def)
    qed (use \<open>is_ipv6 s\<close> ipv6_fields_chars in \<open>auto simp: is_ipv6_def\<close>)
  qed (rule is_ipv4_chars)
  then show ?thesis by (auto simp: list_all_iff ip_char_def)
qed

subsection \<open>What a proxy is told\<close>

lemma socks_address_ip:
  assumes r: "\<forall>h ips. lookup_ip h = Some ips \<longrightarrow> list_all ParseIP ips"
    and a: "socks_address lookup_ip True a = Inr b"
  shows "\<exists>host ip port. SplitHostPort a = Some (host, port) \<and> SplitHostPort b = Some (ip, port) \<and> ParseIP ip"
proof -
  obtain host port where hp: "SplitHostPort a = Some (host, port)"
    using a by (auto simp: socks_address_def split: option.splits)
  show ?thesis
  proof (cases "ParseIP host")
    case True
    with a hp have "b = a" by (simp add: socks_address_def)
    with hp True show ?thesis by blast
  next
    case False
    with a hp obtain ip ips where l: "lookup_ip host = Some (ip # ips)" and b: "b = JoinHostPort ip port"
      by (auto simp: socks_address_def split: option.splits list.splits)
    have "ParseIP ip" using r l by fastforce
    moreover have "SplitHostPort b = Some (ip, port)"
      unfolding b using ParseIP_chars [OF \<open>ParseIP ip\<close>] SplitHostPort_port [OF hp] by (intro SplitHostPort_Join) auto
    ultimately show ?thesis using hp by blast
  qed
qed

lemma NewClient_parts:
  assumes "NewClient url_parse from_url canonical cfg = Inr c"
  shows "wire_proxy url_parse from_url (clamp_config cfg) (base_transport (clamp_config cfg)) = Inr (hc_transport c)"
    and "hc_MaxRedirect c = max 0 (cc_MaxRedirect cfg)"
    and "initBaseHeaders canonical (cc_UserAgent cfg) (cc_Referer cfg) (cc_Headers cfg) = Inr (hc_baseHdr c)"
  using assms by (auto simp: NewClient_def Let_def clamp_config_def max_def split: sum.splits)


lemma second_pos: "0 < second"
  by (simp add: second_def)

lemma wire_proxy_keeps:
  "wire_proxy url_parse from_url cfg tr = Inr tr' \<Longrightarrow>
   tr_offers_h2 tr' = tr_offers_h2 tr \<and> tr_skip_verify tr' = tr_skip_verify tr"
  by (auto simp: wire_proxy_def split: if_splits option.splits sum.splits proxy_setup.splits)

text \<open>the client without HTTP/2 never offers it to a server, whatever the options, so that the connections of a task
  stay separate; certificates are checked unless the option says otherwise.\<close>

lemma h1_client_offers_no_h2:
  "NewClient url_parse from_url canonical (manager_config opts h2) = Inr c \<Longrightarrow>
   tr_offers_h2 (hc_transport c) = h2 \<and> tr_skip_verify (hc_transport c) = (\<not> eo_CheckCert opts)"
  by (drule NewClient_parts(1), drule wire_proxy_keeps) (simp add: base_transport_def clamp_config_def manager_config_def)

lemma client_proxy:
  assumes c: "NewClient url_parse from_url canonical cfg = Inr c" and proxy: "cc_Proxy cfg \<noteq> []"
    and lookup: "\<forall>h ips. lookup_ip h = Some ips \<longrightarrow> list_all ParseIP ips"
  shows "\<exists>px. url_parse (cc_Proxy cfg) = Some px \<and>
    ((px_scheme px = ''http'' \<or> px_scheme px = ''https'') \<and> tr_proxy (hc_transport c) = Some px \<or>
     px_host px \<noteq> [] \<and> (\<exists>resolve t. tr_dial (hc_transport c) = SocksDial (px_host px) (px_port px) resolve t \<and> 0 < t \<and>
       (px_scheme px = ''socks5h'' \<and> (\<forall>a. socks_address lookup_ip resolve a = Inr a) \<or>
        px_scheme px = ''socks5'' \<and> (\<forall>a b. socks_address lookup_ip resolve a = Inr b \<longrightarrow>
          (\<exists>host ip port. SplitHostPort a = Some (host, port) \<and> SplitHostPort b = Some (ip, port) \<and> ParseIP ip)))))"
proof -
  let ?tr = "base_transport (clamp_config cfg)"
  have w: "wire_proxy url_parse from_url (clamp_config cfg) ?tr = Inr (hc_transport c)" by (rule NewClient_parts(1) [OF c])
  have p: "cc_Proxy (clamp_config cfg) = cc_Proxy cfg" by (simp add: clamp_config_def)
  have t: "0 < tr_dial_timeout ?tr" using second_pos by (simp add: base_transport_def clamp_config_def)
  obtain px k where px: "url_parse (cc_Proxy cfg) = Some px"
    and k: "proxy_check (cc_Proxy cfg) (px_scheme px) (px_host px) (px_port px) = Inr k"
    using w proxy by (auto simp: wire_proxy_def p split: option.splits sum.splits)
  show ?thesis
  proof (cases k)
    case NoProxy
    with k proxy show ?thesis by (simp add: proxy_check_def split: if_splits)
  next
    case HTTPConnect
    with k proxy have "px_scheme px = ''http'' \<or> px_scheme px = ''https''" by (auto simp: proxy_check_def split: if_splits)
    moreover have "tr_proxy (hc_transport c) = Some px"
      using w [symmetric] proxy px k HTTPConnect by (simp add: wire_proxy_def p)
    ultimately show ?thesis using px by blast
  next
    case (Socks5 resolve)
    with k proxy have s: "px_host px \<noteq> []" "resolve \<longleftrightarrow> px_scheme px = ''socks5''" "resolve \<or> px_scheme px = ''socks5h''"
      by (auto simp: proxy_check_def split: if_splits)
    have d: "tr_dial (hc_transport c) = SocksDial (px_host px) (px_port px) resolve (tr_dial_timeout ?tr)"
      using w [symmetric] proxy px k Socks5 by (auto simp: wire_proxy_def p split: if_splits)
    have "px_scheme px = ''socks5h'' \<and> (\<forall>a. socks_address lookup_ip resolve a = Inr a) \<or>
        px_scheme px = ''socks5'' \<and> (\<forall>a b. socks_address lookup_ip resolve a = Inr b \<longrightarrow>
          (\<exists>host ip port. SplitHostPort a = Some (host, port) \<and> SplitHostPort b = Some (ip, port) \<and> ParseIP ip))"
    proof (cases resolve)
      case True
      then show ?thesis using s(2) socks_address_ip [OF lookup] by simp
    next
      case False
      then show ?thesis using s(3) by (simp add: socks_address_def)
    qed
    with px s(1) d t show ?thesis by blast
  qed
qed

subsection \<open>Properties\<close>

text \<open>C38: a client follows at most as many redirects as its configuration allows (none for a negative number), so that
  a request ends after at most one more than that many exchanges even when the servers redirect in a circle; and it
  ends with the answer of the last server of the chain exactly when the chain is no longer than that.\<close>

theorem redirects_bounded:
  assumes "NewClient url_parse from_url canonical cfg = Inr c"
  shows "length (fst (follow (hc_MaxRedirect c) nxt [] u)) \<le> Suc (nat (cc_MaxRedirect cfg)) \<and>
    (snd (follow (hc_MaxRedirect c) nxt [] u) = Some v \<longleftrightarrow>
      (\<exists>k. k \<le> nat (cc_MaxRedirect cfg) \<and> chain nxt k u = Some v \<and> nxt v = None))"
proof -
  have m: "nat (hc_MaxRedirect c) = nat (cc_MaxRedirect cfg)" by (simp add: NewClient_parts(2) [OF assms] max_def)
  show ?thesis
    using follow_outcome(1) [of "[]" "hc_MaxRedirect c" nxt u] follow_outcome(2) [of "[]" "hc_MaxRedirect c" nxt u v]
    unfolding m by simp
qed

definition plain_config :: "string \<Rightarrow> client_config" where
  "plain_config proxy =
     \<lparr>cc_UserAgent = ''ODM'', cc_Headers = [], cc_Referer = [], cc_Proxy = proxy, cc_CheckCertificate = True,
      cc_MaxRedirect = 2, cc_Timeout = 0, cc_HTTP2 = False\<rparr>"

theorem redirects_bounded_witness:
  "\<exists>c. NewClient (\<lambda>_. None) (\<lambda>_. True) id (plain_config []) = Inr c \<and>
     length (fst (follow (hc_MaxRedirect c) (\<lambda>n :: nat. Some (n + 1)) [] 0)) \<le> 3 \<and>
     snd (follow (hc_MaxRedirect c) (\<lambda>n :: nat. Some (n + 1)) [] 0) \<noteq> Some 7"
proof -
  obtain c where c: "NewClient (\<lambda>_. None) (\<lambda>_. True) id (plain_config []) = Inr c"
    by (simp add: NewClient_def Let_def clamp_config_def plain_config_def wire_proxy_def initBaseHeaders_def)
  with redirects_bounded [OF c, of "\<lambda>n :: nat. Some (n + 1)" 0 7] show ?thesis
    by (intro exI [of _ c]) (simp add: plain_config_def)
qed

lemma manager_clients:
  assumes "NewManager (manager_client url_parse from_url canonical opts) opts = Inr m"
  shows "\<exists>c. NewClient url_parse from_url canonical (manager_config opts (ClientFor m profile = H2Client)) = Inr c"
proof -
  have some: "\<exists>c. NewClient url_parse from_url canonical (manager_config opts h2) = Inr c"
    if "manager_client url_parse from_url canonical opts h2 = None" for h2
    using that by (auto simp: manager_client_def split: sum.splits)
  have "manager_client url_parse from_url canonical opts False = None"
    using assms by (auto simp: NewManager_def split: option.splits)
  moreover have "mg_hasH2 m \<Longrightarrow> manager_client url_parse from_url canonical opts True = None"
    using assms by (auto simp: NewManager_def Let_def split: option.splits sum.splits if_splits)
  ultimately show ?thesis using some by (auto simp: ClientFor_def)
qed

text \<open>C36: a program configured with a proxy never connects past it. Whichever client a profile gets, either the proxy
  is an HTTP proxy, set on its transport, or its dialer is the SOCKS5 one with the proxy's host; with socks5h the proxy
  is given every address as it is, without asking the resolver; with socks5 the proxy is only ever given an IP address,
  with the port asked for, and never a name. With any other proxy there is no manager, and so no run.\<close>

theorem proxy_honoured:
  assumes m: "NewManager (manager_client url_parse from_url canonical opts) opts = Inr m" and proxy: "eo_Proxy opts \<noteq> []"
    and lookup: "\<forall>h ips. lookup_ip h = Some ips \<longrightarrow> list_all ParseIP ips"
  shows "\<exists>c px. NewClient url_parse from_url canonical (manager_config opts (ClientFor m profile = H2Client)) = Inr c \<and>
    url_parse (eo_Proxy opts) = Some px \<and>
    ((px_scheme px = ''http'' \<or> px_scheme px = ''https'') \<and> tr_proxy (hc_transport c) = Some px \<or>
     px_host px \<noteq> [] \<and> (\<exists>resolve t. tr_dial (hc_transport c) = SocksDial (px_host px) (px_port px) resolve t \<and> 0 < t \<and>
       (px_scheme px = ''socks5h'' \<and> (\<forall>a. socks_address lookup_ip resolve a = Inr a) \<or>
        px_scheme px = ''socks5'' \<and> (\<forall>a b. socks_address lookup_ip resolve a = Inr b \<longrightarrow>
          (\<exists>host ip port. SplitHostPort a = Some (host, port) \<and> SplitHostPort b = Some (ip, port) \<and> ParseIP ip)))))"
proof -
  obtain c where c: "NewClient url_parse from_url canonical (manager_config opts (ClientFor m profile = H2Client)) = Inr c"
    using manager_clients [OF m] by blast
  have "cc_Proxy (manager_config opts h2) = eo_Proxy opts" for h2 by (simp add: manager_config_def)
  with client_proxy [OF c _ lookup] c proxy show ?thesis by auto
qed

theorem proxy_honoured_witness:
  "\<exists>c host ip port resolve t.
     NewClient (\<lambda>_. Some \<lparr>px_scheme = ''socks5'', px_host = ''p'', px_port = []\<rparr>) (\<lambda>_. True) id
       (manager_config (demo_opts\<lparr>eo_Proxy := ''socks5://p''\<rparr>) False) = Inr c \<and>
     tr_dial (hc_transport c) = SocksDial ''p'' [] resolve t \<and>
     socks_address (\<lambda>_. Some [''10.0.0.1'']) resolve ''h:80'' = Inr ''10.0.0.1:80'' \<and>
     SplitHostPort ''10.0.0.1:80'' = Some (ip, port) \<and> ParseIP ip"
proof -
  let ?px = "\<lparr>px_scheme = ''socks5'', px_host = ''p'', px_port = []\<rparr>"
  let ?opts = "demo_opts\<lparr>eo_Proxy := ''socks5://p''\<rparr>"
  let ?look = "\<lambda>_ :: string. Some [''10.0.0.1'']"
  obtain m where m: "NewManager (manager_client (\<lambda>_. Some ?px) (\<lambda>_. True) id ?opts) ?opts = Inr m" "\<not> mg_hasH2 m"
    by (simp add: manager_client_def NewClient_def clamp_config_def manager_config_def wire_proxy_def proxy_check_def
        initBaseHeaders_def demo_opts_def go_eval)
  have k: "ClientFor m ''odm'' \<noteq> H2Client" by (simp add: ClientFor_def)
  have ip: "ParseIP ''10.0.0.1''" by code_simp
  have l: "\<forall>h ips. ?look h = Some ips \<longrightarrow> list_all ParseIP ips" using ip by simp
  have a: "socks_address ?look True ''h:80'' = Inr ''10.0.0.1:80''" "\<not> ParseIP ''h''"
    "SplitHostPort ''h:80'' = Some (''h'', ''80'')" by code_simp+
  have "eo_Proxy ?opts \<noteq> []" by simp
  from proxy_honoured [where lookup_ip = "?look", OF m(1) this l, of "''odm''"] k obtain c resolve t where
    c: "NewClient (\<lambda>_. Some ?px) (\<lambda>_. True) id (manager_config ?opts False) = Inr c"
    and t: "tr_dial (hc_transport c) = SocksDial ''p'' [] resolve t"
    and m: "\<And>x y. socks_address ?look resolve x = Inr y \<Longrightarrow>
      \<exists>host ip port. SplitHostPort x = Some (host, port) \<and> SplitHostPort y = Some (ip, port) \<and> ParseIP ip"
    by auto
  have resolve
  proof (rule ccontr)
    assume "\<not> resolve"
    then have "socks_address ?look resolve ''h:80'' = Inr ''h:80''" by (simp add: socks_address_def)
    from m [OF this] a(2,3) show False by auto
  qed
  with m [of "''h:80''" "''10.0.0.1:80''"] a(1) obtain i port where
    "SplitHostPort ''10.0.0.1:80'' = Some (i, port)" "ParseIP i" by auto
  with c t a(1) \<open>resolve\<close> show ?thesis by auto
qed

end
