(* ===== verification/Speed_Meter.thy ===== *)
theory Speed_Meter imports Ui_Text begin

section \<open>Measured speed and progress notes (internal/download/task.go: rateMeasure; task_io.go: noteBytes; task_filename.go)\<close>

text \<open>
  What a task does with the bytes its workers report: the byte count, the smoothed speed over windows of at least
  100 ms, and the snapshots passed to the progress feed; and the segment sizes of the log. The clock is an argument in
  nanoseconds, None before the first sample; float64 arithmetic is rounded at every operation. The time between two
  samples is a difference of int (Sub saturates at 292 years).
\<close>

definition millisecond :: int where "millisecond = 10 ^ 6"

definition stallDecayWindow :: int where "stallDecayWindow = 2 * second"

record rateMeasure =
  lastTS :: "int option"
  lastBytes :: int
  bps :: int

text \<open>time.Duration.Seconds as a float64.\<close>

definition Seconds :: "int \<Rightarrow> rat" where
  "Seconds d = to_float (to_float (of_int (d sdiv second)) + to_float (to_float (of_int (d smod second)) / 10 ^ 9))"

definition mean_speed :: "int \<Rightarrow> int \<Rightarrow> int" where
  "mean_speed n elapsed = int_of_float (to_float (to_float (of_int n) / Seconds elapsed))"

definition ema :: "int \<Rightarrow> int \<Rightarrow> int" where
  "ema old new =
     int_of_float (to_float (to_float (to_float (of_int old) * to_float (3 / 10)) + to_float (to_float (of_int new) * to_float (7 / 10))))"

definition new_bps :: "int \<Rightarrow> int \<Rightarrow> int \<Rightarrow> int" where
  "new_bps old n elapsed =
     (if Seconds elapsed > 0 then
        let b = mean_speed n elapsed
        in if b > 0 then (if old = 0 then b else ema old b)
           else if elapsed \<ge> stallDecayWindow then 0 else old
      else old)"

definition tick :: "int \<Rightarrow> int \<Rightarrow> rateMeasure \<Rightarrow> bool \<times> rateMeasure" where
  "tick now delta rm0 =
     (let rm = rm0\<lparr>lastBytes := w64 (lastBytes rm0 + delta)\<rparr>
      in case lastTS rm of
           None \<Rightarrow> (False, rm\<lparr>lastTS := Some now\<rparr>)
         | Some ts \<Rightarrow>
             let elapsed = now - ts
             in if elapsed < 100 * millisecond then (False, rm)
                else (True, rm\<lparr>bps := new_bps (bps rm) (lastBytes rm) elapsed, lastTS := Some now, lastBytes := 0\<rparr>))"

definition noteBytes :: "int \<Rightarrow> int \<Rightarrow> rateMeasure \<times> ctl_task \<Rightarrow> (rateMeasure \<times> ctl_task) \<times> ProgressView option" where
  "noteBytes now delta s =
     (if delta < 0 then (s, None)
      else let t1 = (snd s)\<lparr>tk_bytesDone := w64 (tk_bytesDone (snd s) + delta)\<rparr>;
               (flushed, rm) = tick now delta (fst s);
               t2 = t1\<lparr>tk_speed := bps rm\<rparr>
           in ((rm, t2), if flushed then Some (Snapshot t2) else None))"

text \<open>The notes of a transfer, each with its time: what the feed receives.\<close>

fun note_all :: "(int \<times> int) list \<Rightarrow> rateMeasure \<times> ctl_task \<Rightarrow> (rateMeasure \<times> ctl_task) \<times> ProgressView list" where
  "note_all [] s = (s, [])"
| "note_all ((now, delta) # ds) s =
     (let (s1, v) = noteBytes now delta s; (s2, vs) = note_all ds s1
      in (s2, (case v of None \<Rightarrow> vs | Some x \<Rightarrow> x # vs)))"

function seg_units :: "rat \<Rightarrow> int \<Rightarrow> rat \<times> int" where
  "seg_units val idx =
     (if val \<ge> 1024 \<and> idx < 3 then seg_units (to_float (val / 1024)) (idx + 1) else (val, idx))"
  by pat_completeness auto
termination
  by (relation "measure (\<lambda>(val, idx). nat (3 - idx))") auto

declare seg_units.simps [simp del]

definition formatSegSize :: "int \<Rightarrow> string" where
  "formatSegSize b =
     (if b < 1024 then itoa b @ '' B''
      else case seg_units (to_float (of_int b)) (- 1) of
        (val, idx) \<Rightarrow> fmt_1f val @ '' '' @ [''KiB'', ''MiB'', ''GiB'', ''TiB''] ! nat idx)"

subsection \<open>The feed is throttled and the bytes are counted\<close>

lemma tick_cases:
  "tick now delta rm = (f, rm') \<Longrightarrow>
   (case lastTS rm of
      None \<Rightarrow> \<not> f \<and> lastTS rm' = Some now
    | Some ts \<Rightarrow> if f then ts + 100 * millisecond \<le> now \<and> lastTS rm' = Some now else lastTS rm' = Some ts)"
  by (auto simp: tick_def Let_def split: option.splits if_splits)

lemma noteBytes_bytes:
  assumes "noteBytes now delta s = (s', v)"
  shows "tk_bytesDone (snd s') = (if delta < 0 then tk_bytesDone (snd s) else w64 (tk_bytesDone (snd s) + delta))"
  using assms by (auto simp: noteBytes_def Let_def split: if_splits prod.splits)

lemma noteBytes_tick:
  assumes "noteBytes now delta s = (s', v)"
  shows "(s' = s \<and> v = None) \<or> (\<exists>f. tick now delta (fst s) = (f, fst s') \<and> (f \<longleftrightarrow> v \<noteq> None))"
  using assms by (auto simp: noteBytes_def Let_def split: if_splits prod.splits)

definition moved :: "(int \<times> int) list \<Rightarrow> int" where
  "moved ds = sum_list (map (\<lambda>d. max 0 (snd d)) ds)"

lemma moved_simps [simp]: "moved [] = 0" "moved (d # ds) = max 0 (snd d) + moved ds"
  by (simp_all add: moved_def)

lemma moved_nonneg: "0 \<le> moved ds"
  by (induction ds) auto

lemma note_all_bytes:
  "note_all ds s = (s', vs) \<Longrightarrow> 0 \<le> tk_bytesDone (snd s) \<Longrightarrow> tk_bytesDone (snd s) + moved ds < 2 ^ 63 \<Longrightarrow>
   tk_bytesDone (snd s') = tk_bytesDone (snd s) + moved ds"
proof (induction ds arbitrary: s s' vs)
  case (Cons d ds)
  obtain now delta where d: "d = (now, delta)" by (cases d)
  obtain s1 v vs1 where n: "noteBytes now delta s = (s1, v)" "note_all ds s1 = (s', vs1)"
    using Cons.prems(1) by (auto simp: d Let_def split: prod.splits)
  have b: "tk_bytesDone (snd s1) = tk_bytesDone (snd s) + max 0 delta"
    using noteBytes_bytes [OF n(1)] Cons.prems(2,3) moved_nonneg [of ds] by (auto simp: d max_def split: if_splits)
  show ?case using Cons.IH [OF n(2)] Cons.prems(2,3) by (simp add: b d)
qed simp

lemma note_all_times:
  "note_all ds s = (s', vs) \<Longrightarrow> lastTS (fst s) = Some t0 \<Longrightarrow>
   \<exists>t1. lastTS (fst s') = Some t1 \<and> t0 + int (length vs) * (100 * millisecond) \<le> t1 \<and> (t1 = t0 \<or> t1 \<in> fst ` set ds)"
proof (induction ds arbitrary: s vs t0)
  case (Cons d ds)
  obtain now delta where d: "d = (now, delta)" by (cases d)
  obtain s1 v vs1 where n: "noteBytes now delta s = (s1, v)" "note_all ds s1 = (s', vs1)"
      "vs = (case v of None \<Rightarrow> vs1 | Some x \<Rightarrow> x # vs1)"
    using Cons.prems(1) by (auto simp: d Let_def split: prod.splits)
  from noteBytes_tick [OF n(1)]
  have "(v = None \<and> lastTS (fst s1) = Some t0) \<or> (v \<noteq> None \<and> lastTS (fst s1) = Some now \<and> t0 + 100 * millisecond \<le> now)"
  proof
    assume "\<exists>f. tick now delta (fst s) = (f, fst s1) \<and> (f \<longleftrightarrow> v \<noteq> None)"
    then obtain f where f: "tick now delta (fst s) = (f, fst s1)" "f \<longleftrightarrow> v \<noteq> None" by blast
    show ?thesis using tick_cases [OF f(1)] f(2) Cons.prems(2) by (auto split: if_splits)
  qed (use Cons.prems(2) in simp)
  then show ?case
  proof
    assume v: "v = None \<and> lastTS (fst s1) = Some t0"
    with Cons.IH [OF n(2), of t0] n(3) show ?thesis by auto
  next
    assume v: "v \<noteq> None \<and> lastTS (fst s1) = Some now \<and> t0 + 100 * millisecond \<le> now"
    with Cons.IH [OF n(2), of now] obtain t1 where
      "lastTS (fst s') = Some t1" "now + int (length vs1) * (100 * millisecond) \<le> t1" "t1 = now \<or> t1 \<in> fst ` set ds" by auto
    moreover have "length vs = Suc (length vs1)" using v n(3) by auto
    ultimately show ?thesis using v by (auto simp: d algebra_simps)
  qed
qed simp

lemma note_all_fresh:
  "note_all ds s = (s', vs) \<Longrightarrow> lastTS (fst s) = None \<Longrightarrow> \<forall>t \<in> fst ` set ds. a \<le> t \<and> t \<le> b \<Longrightarrow> a \<le> b \<Longrightarrow>
   int (length vs) * (100 * millisecond) \<le> b - a"
proof (induction ds arbitrary: s vs)
  case (Cons d ds)
  obtain now delta where d: "d = (now, delta)" by (cases d)
  obtain s1 v vs1 where n: "noteBytes now delta s = (s1, v)" "note_all ds s1 = (s', vs1)"
      "vs = (case v of None \<Rightarrow> vs1 | Some x \<Rightarrow> x # vs1)"
    using Cons.prems(1) by (auto simp: d Let_def split: prod.splits)
  from noteBytes_tick [OF n(1)]
  have "v = None \<and> (lastTS (fst s1) = None \<or> lastTS (fst s1) = Some now)"
  proof
    assume "\<exists>f. tick now delta (fst s) = (f, fst s1) \<and> (f \<longleftrightarrow> v \<noteq> None)"
    then obtain f where f: "tick now delta (fst s) = (f, fst s1)" "f \<longleftrightarrow> v \<noteq> None" by blast
    show ?thesis using tick_cases [OF f(1)] f(2) Cons.prems(2) by simp
  qed (use Cons.prems(2) in simp)
  then have vs: "vs = vs1" and "lastTS (fst s1) = None \<or> lastTS (fst s1) = Some now" using n(3) by auto
  from this(2) show ?case
  proof
    assume "lastTS (fst s1) = None"
    with Cons.IH [OF n(2)] Cons.prems(3,4) vs show ?thesis by auto
  next
    assume "lastTS (fst s1) = Some now"
    from note_all_times [OF n(2) this] obtain t1 where
      "now + int (length vs1) * (100 * millisecond) \<le> t1" "t1 = now \<or> t1 \<in> fst ` set ds" by blast
    moreover have "t1 \<le> b" "a \<le> now" using calculation(2) Cons.prems(3) by (auto simp: d)
    ultimately show ?thesis unfolding vs by linarith
  qed
qed (simp add: millisecond_def)

subsection \<open>A stall\<close>

lemma round_even_ge: "of_int n \<le> y \<Longrightarrow> n \<le> round_even y"
  using le_floor_iff [of n y] unfolding round_even_def Let_def by auto

lemma f64_ge_power:
  assumes "pow2 j \<le> x" "- 1074 \<le> j" shows "pow2 j \<le> f64 x"
proof -
  have x: "0 < x" using assms(1) pow2_pos [of j] by linarith
  define e where "e = max (- 1074) (floor_log2 x - 52)"
  have f: "f64 x = of_int (round_even (x / pow2 e)) * pow2 e" using x by (simp add: f64_def e_def Let_def)
  show ?thesis
  proof (cases "e \<le> j")
    case True
    then have j: "pow2 j = of_int (2 ^ nat (j - e)) * pow2 e"
      by (simp add: pow2_powi power_int_add [symmetric] flip: power_int_of_nat)
    have "of_int (2 ^ nat (j - e)) \<le> x / pow2 e" using assms(1) unfolding j by (simp add: pos_le_divide_eq)
    then have "2 ^ nat (j - e) \<le> round_even (x / pow2 e)" by (rule round_even_ge)
    then show ?thesis unfolding f j by (intro mult_right_mono) (use less_imp_le [OF pow2_pos] in auto)
  next
    case False
    then have "floor_log2 x = e + 52" using assms(2) by (auto simp: e_def max_def split: if_splits)
    then have "pow2 (e + 52) \<le> x" using floor_log2_le [OF x] by simp
    moreover have "pow2 e \<le> pow2 (e + 52)" by (simp add: pow2_powi power_int_increasing)
    ultimately have "of_int 1 \<le> x / pow2 e" by (simp add: pos_le_divide_eq)
    then have "1 \<le> round_even (x / pow2 e)" by (rule round_even_ge)
    then have "of_int 1 * pow2 e \<le> of_int (round_even (x / pow2 e)) * pow2 e"
      by (intro mult_right_mono) (use less_imp_le [OF pow2_pos] in auto)
    moreover have "pow2 j \<le> pow2 e" using False by (simp add: pow2_powi power_int_increasing)
    ultimately show ?thesis unfolding f by linarith
  qed
qed

lemma to_float_ge_power: "pow2 j \<le> x \<Longrightarrow> - 1074 \<le> j \<Longrightarrow> pow2 j \<le> to_float x"
  using f64_ge_power [of j x] less_le_trans [OF pow2_pos, of j x] by (simp add: to_float_def)

lemma Seconds_bounds:
  assumes "100 * millisecond \<le> d" "d < 2 ^ 14 * second"
  shows "1 / 16 \<le> Seconds d" "Seconds d \<le> 2 ^ 15"
proof -
  define q where "q = d div second"
  define r where "r = d mod second"
  have d: "0 \<le> d" "d sdiv second = q" "d smod second = r"
    using assms(1) by (simp_all add: millisecond_def second_def q_def r_def sdiv_nonneg smod_nonneg)
  have q: "0 \<le> q" "q < 2 ^ 14" using assms(2) d(1) by (simp_all add: q_def second_def div_less_iff_less_mult pos_imp_zdiv_nonneg_iff)
  have r: "0 \<le> r" "r < 10 ^ 9" by (simp_all add: r_def second_def)
  have "d = q * second + r" by (simp add: q_def r_def)
  then have qr: "1 \<le> q \<or> 10 ^ 8 \<le> r" using assms(1) q(1) by (cases "q = 0") (simp_all add: millisecond_def)
  define x where "x = to_float (of_int q)"
  define y where "y = to_float (to_float (of_int r) / 10 ^ 9)"
  have s: "Seconds d = to_float (x + y)" by (simp add: Seconds_def d x_def y_def)
  have x: "0 \<le> x" "x \<le> 2 ^ 14"
    using to_float_range [of "of_int q" 14] q by (simp_all add: x_def less_imp_le)
  have r1: "0 \<le> to_float (of_int r)" "to_float (of_int r) \<le> 2 ^ 30"
    using to_float_range [of "of_int r" 30] r by (simp_all add: less_imp_le)
  then have y: "0 \<le> y" "y \<le> 2 ^ 4"
    using to_float_range [of "to_float (of_int r) / 10 ^ 9" 4] by (simp_all add: y_def)
  have "1 / 16 \<le> x + y"
  proof (rule disjE [OF qr])
    assume "1 \<le> q"
    then have "pow2 0 \<le> (of_int q :: rat)" by (simp add: pow2_def)
    then have "pow2 0 \<le> x" unfolding x_def by (rule to_float_ge_power) simp
    with y(1) show ?thesis by (simp add: pow2_def)
  next
    assume "10 ^ 8 \<le> r"
    then have "(of_int (10 ^ 8) :: rat) \<le> of_int r" by (subst of_int_le_iff)
    then have "pow2 26 \<le> (of_int r :: rat)" by (simp add: pow2_def)
    then have "pow2 26 \<le> to_float (of_int r)" by (rule to_float_ge_power) simp
    then have "pow2 (- 4) \<le> to_float (of_int r) / 10 ^ 9" by (simp add: pow2_def)
    then have "pow2 (- 4) \<le> y" unfolding y_def by (rule to_float_ge_power) simp
    with x(1) show ?thesis by (simp add: pow2_def)
  qed
  then have "pow2 (- 4) \<le> x + y" by (simp add: pow2_def)
  then have "pow2 (- 4) \<le> Seconds d" unfolding s by (rule to_float_ge_power) simp
  then show "1 / 16 \<le> Seconds d" by (simp add: pow2_def)
  show "Seconds d \<le> 2 ^ 15" unfolding s using to_float_range [of "x + y" 15] x y by simp
qed

lemma mean_speed_pos:
  assumes d: "100 * millisecond \<le> d" "d < 2 ^ 14 * second" and n: "2 ^ 15 \<le> n" "n < 2 ^ 53"
  shows "0 < mean_speed n d"
proof -
  have e: "to_float (of_int n) = (of_int n :: rat)"
    using f64_nat [of "nat n"] n by (simp add: to_float_def nat_less_iff)
  let ?x = "of_int n / Seconds d"
  note s = Seconds_bounds [OF d]
  have b: "(2 :: rat) ^ 15 \<le> of_int n" "of_int n \<le> (2 :: rat) ^ 53"
    using n of_int_le_iff [of "2 ^ 15" n, where 'a = rat] of_int_le_iff [of n "2 ^ 53", where 'a = rat] by simp_all
  have "Seconds d \<le> of_int n" using s(2) b(1) by linarith
  then have l: "1 \<le> ?x" using s(1) by (simp add: pos_le_divide_eq)
  have "?x \<le> 2 ^ 53 / (1 / 16)" using s(1) b by (intro frac_le) auto
  then have u: "?x \<le> 2 ^ 57" by simp
  have "pow2 0 \<le> ?x" using l by (simp add: pow2_def)
  then have "pow2 0 \<le> to_float ?x" by (rule to_float_ge_power) simp
  then have f: "1 \<le> to_float ?x" "to_float ?x \<le> 2 ^ 57"
    using to_float_range [of ?x 57] l u by (simp_all add: pow2_def)
  then have "1 \<le> \<lfloor>to_float ?x\<rfloor>" "\<lfloor>to_float ?x\<rfloor> \<le> 2 ^ 57" by (simp_all add: le_floor_iff floor_le_iff)
  then show ?thesis using f(1) by (simp add: mean_speed_def e int_of_float_def Let_def)
qed

text \<open>a full read that ends a quiet window of up to four hours never takes the branch that clears the displayed speed:
  the speed of before the stall goes on into the average, and until that read nothing changes it.\<close>

lemma stall_not_cleared:
  assumes "lastTS rm = Some ts" "100 * millisecond \<le> now - ts" "now - ts < 2 ^ 14 * second"
    and "0 \<le> lastBytes rm" "2 ^ 15 \<le> delta" "lastBytes rm + delta < 2 ^ 53"
  shows "bps (snd (tick now delta rm)) =
    (if bps rm = 0 then mean_speed (lastBytes rm + delta) (now - ts) else ema (bps rm) (mean_speed (lastBytes rm + delta) (now - ts)))"
proof -
  have "w64 (lastBytes rm + delta) = lastBytes rm + delta" using assms(4-6) by (intro w64_id) auto
  moreover have "0 < Seconds (now - ts)" using Seconds_bounds(1) [OF assms(2,3)] by linarith
  moreover have "0 < mean_speed (lastBytes rm + delta) (now - ts)" using assms by (intro mean_speed_pos) auto
  ultimately show ?thesis using assms(1,2) by (simp add: tick_def Let_def new_bps_def)
qed

subsection \<open>Properties\<close>

text \<open>whatever the workers of a fresh task report and in whatever order the clock readings arrive, the feed receives
  at most one snapshot per 100 ms of the period the reports fall in, and the byte count is the sum of the reports.\<close>

theorem feed_throttled:
  assumes "note_all ds (\<lparr>lastTS = None, lastBytes = 0, bps = 0\<rparr>, t) = (s', vs)"
    and "\<forall>now \<in> fst ` set ds. a \<le> now \<and> now \<le> b" "a \<le> b" and "0 \<le> tk_bytesDone t" "tk_bytesDone t + moved ds < 2 ^ 63"
  shows "int (length vs) * (100 * millisecond) \<le> b - a \<and> tk_bytesDone (snd s') = tk_bytesDone t + moved ds"
  using note_all_fresh [OF assms(1) _ assms(2,3)] note_all_bytes [OF assms(1)] assms(4,5) by simp

theorem feed_throttled_witness:
  "\<exists>s' vs t. note_all [(0, 5), (70000000, 7), (150000000, 1), (50000000, 2)] (\<lparr>lastTS = None, lastBytes = 0, bps = 0\<rparr>, t) = (s', vs) \<and>
     length vs \<le> 1 \<and> tk_bytesDone (snd s') = 15"
proof -
  let ?ds = "[(0, 5), (70000000, 7), (150000000, 1), (50000000, 2)] :: (int \<times> int) list"
  define t where "t = (new_task [] [] (sample_opts ''odm''))\<lparr>tk_bytesDone := 0\<rparr>"
  obtain s' vs where n: "note_all ?ds (\<lparr>lastTS = None, lastBytes = 0, bps = 0\<rparr>, t) = (s', vs)" by (meson surj_pair)
  from feed_throttled [OF n, of 0 150000000] have "int (length vs) * (100 * millisecond) \<le> 150000000"
    "tk_bytesDone (snd s') = 15" by (simp_all add: t_def moved_def)
  moreover from this(1) have "length vs \<le> 1" by (simp add: millisecond_def)
  ultimately show ?thesis using n by blast
qed

end
