(* ===== verification/Live_Budget.thy ===== *)
theory Live_Budget imports Scheduler begin

section \<open>The connections of the live tasks (internal/scheduler/rebalance.go)\<close>

text \<open>
  What the loop of \<open>Run\<close> relies on when it moves connections between live tasks is the locale \<open>allocator\<close>: one target
  for each task, all of at least one, one exactly for a single stream, and together the budget. \<open>rebalanceTargets\<close>
  provides it, and the plan of \<open>Compute\<close> guarantees that there are never more live tasks than connections.
\<close>

definition retarget :: "(string \<times> int) list \<Rightarrow> scheduledTask list \<Rightarrow> scheduledTask list" where
  "retarget ts l =
     map (\<lambda>st. case map_of ts (st_id st) of Some n \<Rightarrow> if n < 1 then st else st\<lparr>st_conns := n\<rparr> | None \<Rightarrow> st) l"

locale allocator =
  fixes targets :: "rebalance_input list \<Rightarrow> int \<Rightarrow> int list"
  assumes one_each: "length (targets xs b) = length xs"
    and floor: "int (length xs) \<le> b \<Longrightarrow> i < length xs \<Longrightarrow> 1 \<le> targets xs b ! i"
    and pinned: "int (length xs) \<le> b \<Longrightarrow> i < length xs \<Longrightarrow> \<not> rb_rangeCapable (xs ! i) \<Longrightarrow> targets xs b ! i = 1"
    and within: "int (length xs) \<le> b \<Longrightarrow> xs \<noteq> [] \<Longrightarrow> sum_list (targets xs b) \<le> b"
    and full: "int (length xs) \<le> b \<Longrightarrow> x \<in> set xs \<Longrightarrow> rb_rangeCapable x \<Longrightarrow> sum_list (targets xs b) = b"
begin

lemma retarget_target:
  assumes "distinct (ids l)" "int (length l) \<le> b" "st \<in> set l"
    and "ts = zip (sort (ids l)) (targets (map snd (rebalance_inputs single l)) b)"
  shows "\<exists>n. map_of ts (st_id st) = Some n \<and> 1 \<le> n \<and> (single (st_id st) \<longrightarrow> n = 1)"
proof -
  let ?xs = "map snd (rebalance_inputs single l)"
  have len: "length ?xs = length l" "length (targets ?xs b) = length l" by (simp_all add: rebalance_inputs_def one_each)
  have "st_id st \<in> set (sort (ids l))" using assms(3) by simp
  then obtain k where "k < length (sort (ids l))" "sort (ids l) ! k = st_id st" unfolding in_set_conv_nth by blast
  then have k: "k < length l" "sort (ids l) ! k = st_id st" by simp_all
  have "map_of ts (sort (ids l) ! k) = Some (targets ?xs b ! k)"
    unfolding assms(4) using assms(1) k(1) len by (intro map_of_zip_nth) simp_all
  moreover have "1 \<le> targets ?xs b ! k" using floor [of ?xs b k] assms(2) k(1) len by simp
  moreover have "single (st_id st) \<Longrightarrow> targets ?xs b ! k = 1"
    using pinned [of ?xs b k] assms(2) k len by (simp add: rebalance_inputs_def)
  ultimately show ?thesis unfolding k(2) by blast
qed

lemma retarget_sum:
  assumes "distinct (ids l)" "int (length l) \<le> b"
    and ts: "ts = zip (sort (ids l)) (targets (map snd (rebalance_inputs single l)) b)"
  shows "sum_list (map st_conns (retarget ts l)) = sum_list (targets (map snd (rebalance_inputs single l)) b)"
proof -
  let ?tg = "targets (map snd (rebalance_inputs single l)) b"
  have len: "length ?tg = length (sort (ids l))" by (simp add: rebalance_inputs_def one_each)
  have c: "st_conns (case map_of ts (st_id st) of Some n \<Rightarrow> if n < 1 then st else st\<lparr>st_conns := n\<rparr> | None \<Rightarrow> st)
      = the (map_of ts (st_id st))" if "st \<in> set l" for st
    using retarget_target [OF assms(1,2) that ts] by auto
  have "map st_conns (retarget ts l) = map (\<lambda>i. the (map_of ts i)) (ids l)" by (simp add: retarget_def c)
  then have "sum_list (map st_conns (retarget ts l)) = sum_list (map (\<lambda>i. the (map_of ts i)) (ids l))" by simp
  also have "\<dots> = sum_list (map (\<lambda>i. the (map_of ts i)) (sort (ids l)))"
    unfolding sum_mset_sum_list [symmetric] mset_map mset_sort ..
  also have "map (\<lambda>i. the (map_of ts i)) (sort (ids l)) = ?tg"
    using assms(1) len unfolding ts by (intro nth_equalityI) (simp_all add: map_of_zip_nth)
  finally show ?thesis .
qed

text \<open>the whole contract of a rebalancing, over any allocator.\<close>

lemma retarget_budget:
  assumes "distinct (ids l)" "l \<noteq> []" "int (length l) \<le> b"
    and ts: "ts = zip (sort (ids l)) (targets (map snd (rebalance_inputs single l)) b)"
  shows "ids (retarget ts l) = ids l"
    and "st \<in> set (retarget ts l) \<Longrightarrow> 1 \<le> st_conns st \<and> (single (st_id st) \<longrightarrow> st_conns st = 1)"
    and "sum_list (map st_conns (retarget ts l)) \<le> b"
    and "st \<in> set l \<Longrightarrow> \<not> single (st_id st) \<Longrightarrow> sum_list (map st_conns (retarget ts l)) = b"
proof -
  let ?xs = "map snd (rebalance_inputs single l)"
  have xs: "length ?xs = length l" by (simp add: rebalance_inputs_def)
  then have "?xs \<noteq> []" using assms(2) by (metis length_0_conv)
  note xs = xs this
  show "ids (retarget ts l) = ids l" by (auto simp: retarget_def split: option.splits)
  show "1 \<le> st_conns st \<and> (single (st_id st) \<longrightarrow> st_conns st = 1)" if "st \<in> set (retarget ts l)"
  proof -
    from that obtain st0 where s: "st0 \<in> set l"
      "st = (case map_of ts (st_id st0) of Some n \<Rightarrow> if n < 1 then st0 else st0\<lparr>st_conns := n\<rparr> | None \<Rightarrow> st0)"
      by (auto simp: retarget_def)
    from retarget_target [OF assms(1,3) s(1) ts] s(2) show ?thesis by auto
  qed
  show "sum_list (map st_conns (retarget ts l)) \<le> b"
    unfolding retarget_sum [OF assms(1,3) ts] using within [of ?xs b] xs assms(3) by simp
  show "sum_list (map st_conns (retarget ts l)) = b" if "st \<in> set l" "\<not> single (st_id st)"
  proof -
    have "\<lparr>rb_id = st_id st, rb_rangeCapable = True\<rparr> \<in> set ?xs" using that by (force simp: rebalance_inputs_def)
    from full [OF _ this] show ?thesis unfolding retarget_sum [OF assms(1,3) ts] using xs assms(3) by simp
  qed
qed

end

lemma length_rebalanceTargets: "length (rebalanceTargets xs b) = length xs"
proof -
  have "length (fold (add_share base extra) ps ys) = length ys" for base extra ps ys
    by (induction ps arbitrary: ys) simp_all
  then show ?thesis by (simp add: rebalanceTargets_def Let_def)
qed

interpretation rt: allocator rebalanceTargets
proof
  fix xs :: "rebalance_input list" and b :: int
  show "length (rebalanceTargets xs b) = length xs" by (rule length_rebalanceTargets)
  assume b: "int (length xs) \<le> b"
  note f = rebalance_facts [OF _ b]
  show "1 \<le> rebalanceTargets xs b ! i" if "i < length xs" for i
    using f that by (cases "xs = []") auto
  show "rebalanceTargets xs b ! i = 1" if "i < length xs" "\<not> rb_rangeCapable (xs ! i)" for i
    using f that by (cases "xs = []") auto
  show "sum_list (rebalanceTargets xs b) = b" if "x \<in> set xs" "rb_rangeCapable x" for x
    using f that by (cases "xs = []") auto
  show "sum_list (rebalanceTargets xs b) \<le> b" if "xs \<noteq> []"
  proof (cases "\<exists>x \<in> set xs. rb_rangeCapable x")
    case True
    with f that have "sum_list (rebalanceTargets xs b) = b" by blast
    then show ?thesis by simp
  next
    case False
    then have "rangeIndexes xs = []" by (auto simp: rangeIndexes_def)
    with b that show ?thesis by (simp add: rebalanceTargets_def Let_def sum_list_replicate)
  qed
qed

subsection \<open>Along a run\<close>

lemma sched_step_plan: "sched_step s s' \<Longrightarrow> sc_plan s' = sc_plan s \<and> sc_slots s' = sc_slots s"
proof (induction rule: sched_step.induct)
  case (rebalance s single accepts terminal)
  obtain l where "snd (rebalanceLive single accepts terminal (s\<lparr>sc_phase := Selecting\<rparr>)) = (s\<lparr>sc_phase := Selecting\<rparr>)\<lparr>sc_live := l\<rparr>"
    using rebalance_ids by blast
  then show ?case by simp
qed (auto simp: handleComplete_def wind_down_def releaseIdle_def admitNext_def launch_def AddCounter_def Let_def split: list.splits)

lemma reach_facts:
  assumes "distinct (made (zip (Queued p) mq) @ made (zip (Parallel p) mp))" and "sched_step\<^sup>*\<^sup>* (run_setup p mq mp) s"
  shows "sched_inv s" "sc_plan s = p" "sc_slots s = length (Parallel p)"
proof -
  have a0: "sc_plan (admit_initial as k u) = sc_plan u" for as k u
    by (induction as k u rule: admit_initial.induct)
      (auto simp: startOne_def launch_def AddCounter_def split: option.splits)
  have q0: "sc_plan (queue_plan as u) = sc_plan u" for as u
    by (induction as u rule: queue_plan.induct) (auto split: option.splits)
  have "sched_inv s \<and> sc_plan s = p \<and> sc_slots s = length (Parallel p)"
    using assms(2)
  proof (induction rule: rtranclp_induct)
    case base
    show ?case using setup_inv [OF assms(1)] by (simp add: run_setup_def a0 q0 NewScheduler_def)
  next
    case (step s s')
    then show ?case using sched_step_inv [of s s'] sched_step_plan [of s s'] by simp
  qed
  then show "sched_inv s" "sc_plan s = p" "sc_slots s = length (Parallel p)" by blast+
qed

lemma Compute_plan_size:
  assumes "Compute C files SF mx = Inr p" "0 \<le> SF"
  shows "int (length (Parallel p)) \<le> C" "ConnectionBudget p = C"
proof -
  have "list_all allocation_ok (Parallel p)" using plan_budget [OF assms] by simp
  then have "\<forall>x \<in> set (map al_Connections (Parallel p)). 1 \<le> x" by (auto simp: list_all_iff allocation_ok_def)
  from sum_list_nonneg_ge_length [OF this] show "int (length (Parallel p)) \<le> C" using plan_budget [OF assms] by simp
  show "ConnectionBudget p = C"
    using assms(1) by (auto simp: Compute_def Let_def split: if_splits prod.splits)
qed

text \<open>C13: in a run over a plan of Mode C the connections that finished files free move to the rest, and the budget is never
  exceeded: after every rebalancing the live tasks are the same, each has at least one connection and a single stream
  exactly one, their connections sum to at most the budget C of the command line, and to all of it as soon as one of them
  can be split. Each call made to a task passes on the number recorded for it.\<close>

theorem live_budget:
  assumes plan: "Compute C files SF mx = Inr p" "0 \<le> SF" and mode: "RebalanceConnections p"
    and d: "distinct (made (zip (Queued p) mq) @ made (zip (Parallel p) mp))"
    and run: "sched_step\<^sup>*\<^sup>* (run_setup p mq mp) s" and live: "sc_live s \<noteq> []"
    and r: "rebalanceLive single accepts terminal s = (calls, s')"
  shows "ids (sc_live s') = ids (sc_live s)
    \<and> (\<forall>st \<in> set (sc_live s'). 1 \<le> st_conns st \<and> (single (st_id st) \<longrightarrow> st_conns st = 1))
    \<and> sum_list (map st_conns (sc_live s')) \<le> C
    \<and> ((\<exists>st \<in> set (sc_live s). \<not> single (st_id st)) \<longrightarrow> sum_list (map st_conns (sc_live s')) = C)
    \<and> (\<forall>st \<in> set (sc_live s'). \<forall>n. Adjusted (st_id st) n \<in> set calls \<or> ConnsSet (st_id st) n \<in> set calls \<longrightarrow> n = st_conns st)"
proof -
  note f = reach_facts [OF d run]
  have dist: "distinct (ids (sc_live s))" using f(1) by (simp add: sched_inv_def)
  have "length (sc_live s) \<le> length (Parallel p)" using f(1,3) by (simp add: sched_inv_def)
  then have len: "int (length (sc_live s)) \<le> C" using Compute_plan_size(1) [OF plan] by linarith
  have C: "1 \<le> C" by (rule Compute_Inr(2) [OF plan(1)])
  define ts where "ts = zip (sort (ids (sc_live s))) (rebalanceTargets (map snd (rebalance_inputs single (sc_live s))) C)"
  have "map fst (rebalance_inputs single (sc_live s)) = sort (ids (sc_live s))" by (simp add: rebalance_inputs_def comp_def)
  then have e: "calls = rebalance_calls accepts terminal ts" "sc_live s' = retarget ts (sc_live s)"
    using r live mode C f(2) Compute_plan_size(2) [OF plan] by (auto simp: rebalanceLive_def Let_def ts_def retarget_def)
  note b = rt.retarget_budget [OF dist live len ts_def]
  have c: "n = st_conns st" if "st \<in> set (sc_live s')" "Adjusted (st_id st) n \<in> set calls \<or> ConnsSet (st_id st) n \<in> set calls" for st n
  proof -
    from that(2) have "(st_id st, n) \<in> set ts" by (auto simp: e(1) rebalance_calls_def split: if_splits)
    moreover have "distinct (map fst ts)" using dist by (simp add: ts_def map_fst_zip_take)
    ultimately have m: "map_of ts (st_id st) = Some n" by simp
    from that(1) obtain st0 where "st0 \<in> set (sc_live s)"
      "st = (case map_of ts (st_id st0) of Some n \<Rightarrow> if n < 1 then st0 else st0\<lparr>st_conns := n\<rparr> | None \<Rightarrow> st0)"
      by (auto simp: e(2) retarget_def)
    with m rt.retarget_target [OF dist len _ ts_def] show ?thesis by (fastforce split: option.splits if_splits)
  qed
  show ?thesis using b c unfolding e(2) by blast
qed

definition demo_plan :: plan where
  "demo_plan = \<lparr>Parallel = [\<lparr>al_URL = ''a'', al_Connections = 4, al_SupportsRange = True\<rparr>,
      \<lparr>al_URL = ''b'', al_Connections = 1, al_SupportsRange = False\<rparr>],
     Queued = [\<lparr>al_URL = ''c'', al_Connections = 2, al_SupportsRange = True\<rparr>],
     Warning = [], ConnectionBudget = 5, RebalanceConnections = True\<rparr>"

lemma demo_plan_computed:
  "Compute 5 [\<lparr>fi_URL = ''a'', fi_SupportsRange = True\<rparr>, \<lparr>fi_URL = ''b'', fi_SupportsRange = False\<rparr>,
     \<lparr>fi_URL = ''c'', fi_SupportsRange = True\<rparr>] 2 32 = Inr demo_plan"
  by code_simp

theorem live_budget_witness:
  "\<exists>calls s'. rebalanceLive (\<lambda>_. False) (\<lambda>_. True) (\<lambda>_. False)
       (run_setup demo_plan [Some ''odm-001''] [Some ''odm-002'', Some ''odm-003'']) = (calls, s') \<and>
     sum_list (map st_conns (sc_live s')) = 5"
proof -
  let ?s = "run_setup demo_plan [Some ''odm-001''] [Some ''odm-002'', Some ''odm-003'']"
  obtain calls s' where r: "rebalanceLive (\<lambda>_. False) (\<lambda>_. True) (\<lambda>_. False) ?s = (calls, s')" by (meson surj_pair)
  have live: "sc_live ?s = [\<lparr>st_id = ''odm-002'', st_conns = 4, st_counted = False\<rparr>, \<lparr>st_id = ''odm-003'', st_conns = 1, st_counted = False\<rparr>]"
    by (simp add: run_setup_def demo_plan_def NewScheduler_def startOne_def launch_def AddCounter_def live_put_def)
  have "sum_list (map st_conns (sc_live s')) = 5"
    using live_budget [OF demo_plan_computed _ _ _ rtranclp.rtrancl_refl _ r] live by (auto simp: demo_plan_def)
  with r show ?thesis by blast
qed

end
