(* ===== verification/Spec2Isabelle.thy ===== *)
theory Spec2Isabelle imports Cli Task_Start Client Speed_Meter Live_Budget begin

text \<open>
  A verification library of ODM, a multi-connection download manager in Go (cmd/odm and internal/* under src/).

  \<^bold>\<open>The program.\<close> A run reads its options (config), probes every URL (transport), divides the budget of
  connections over the files (scheduler/balancer), asks for consent (ui) and starts the scheduler, which keeps a number
  of tasks live. A task (download) lays its file out in chunks of one or two queues, takes back what a control file
  (storage) says is done, checks it, and starts workers; a worker takes a chunk, fetches its range through the HTTP
  client, charges the rate limiter, writes at the offset of the chunk, and marks it or puts it back. Checkpoints write
  the control file. The display shows what tasks report; with --enable-rpc the same scheduler runs behind a JSON-RPC
  server (rpc) and its daemon, and events go to WebSocket subscribers. The exit status says how the files ended.

  \<^bold>\<open>Conventions.\<close> A theory follows one part of the code in the order of the code, with the names of the code. A
  struct is a record, an enum a datatype, a Go error the left side of a sum, a nil or missing value None, a panic an
  outcome of its own (None, or a constructor). Go integers are \<open>int\<close>, wrapped by \<open>w64\<close> or \<open>w32\<close> where the arithmetic can
  leave its width; float64 values are rationals rounded at each operation by \<open>f64\<close>; strings are bytes. A goroutine is
  the rules of a step relation over atomic actions, one per critical section, so that a property of all reachable states
  or of all complete runs covers every interleaving. What a function takes from outside (clock, file system, server,
  resolver, terminal, the choice of a random map order) is an argument.

  \<^bold>\<open>Theories.\<close>
  \<^item> \<open>Go_Prelude\<close>: what the sources use of Go: wrap-around, division, strings, decimal numbers; shared list facts.
  \<^item> \<open>Balancer\<close> (scheduler/balancer.go, rebalance.go): the modes of \<open>Compute\<close> and the allocator of running tasks. The
    budget is kept and every file gets a connection (\<open>Compute_budget\<close>); the loop of \<open>rebalanceTargets\<close> is a round robin.
  \<^item> \<open>Chunk_Queue\<close>, \<open>Static_Queue\<close>, \<open>Work_Queue\<close> (download/chunkqueue.go, engine.go): the two queues, whose chunks
    tile the file, and the interface workQueue as the locale \<open>work_queue\<close>, extended to \<open>reporting_queue\<close> and interpreted
    on both queues and on their sum.
  \<^item> \<open>Worker_Pool\<close> (download/task_io.go, task.go, task_pause.go): the workers of a task, with pausing, cancelling and a
    changing number of connections. Chunks are conserved; a run that ends without errors has finished every chunk.
  \<^item> \<open>Rate_Limiter\<close> (ratelimit/bucket.go): the shared limiter, and \<open>ParseRate\<close> with the rounding of float64.
  \<^item> \<open>Transport\<close>, \<open>Client\<close> (transport/transport.go): the probe, ranged requests, permanent and transient errors; what
    \<open>NewClient\<close> builds, the redirects it follows, and the address a SOCKS5 proxy is told.
  \<^item> \<open>Chunk_Download\<close> (download/task_io.go): one chunk with its retries over a disk of bytes: exactly its bytes are
    written, and progress counts them once.
  \<^item> \<open>Filename\<close> (download/task_filename.go, task_checksum.go): from a server's name to a path inside the directory.
  \<^item> \<open>Json\<close>, \<open>Control_File\<close> (storage/resume.go): documents as trees; the control file, its round trip, atomic saving, and
    the locale \<open>control_store\<close>: the control files of a batch are a map that failures and other tasks leave alone.
  \<^item> \<open>Task_Layout\<close>, \<open>Resume\<close>, \<open>Task_Start\<close> (download/task.go, task_start.go, task_persist.go, resume_impl.go,
    storage/file.go): the task, its layout per profile, checkpoints and what a resume restores, the integrity checks, and
    \<open>Start\<close> as a whole: a task that reports completion has every chunk marked and no error.
  \<^item> \<open>Smart_Profile\<close> (download/smart.go): the engine of a file.
  \<^item> \<open>Speed_Meter\<close> (download/task.go, task_io.go): bytes, smoothed speed, and the throttled feed.
  \<^item> \<open>Manager\<close> (download/manager.go, task.go): control of a task from outside, the registry, the exit code.
  \<^item> \<open>Scheduler\<close>, \<open>Daemon\<close> (scheduler/queue.go, rebalance.go, counts.go, daemon.go): the loop of \<open>Run\<close>, task
    goroutines and enqueuing as a step relation; its invariant, its refinement of an abstract machine of slots, that
    complete runs have reported every task once and that a cancelled run returns; the daemon over it.
  \<^item> \<open>Live_Budget\<close> (scheduler/rebalance.go): the locale \<open>allocator\<close> between the scheduler and the balancer: the live tasks
    of a run share the budget of its plan, never more, and all of it when one can be split.
  \<^item> \<open>Broadcaster\<close>, \<open>Rpc\<close> (rpc/*.go): subscribers with bounded channels; requests, authentication, methods, batches,
    shutdown. Only authenticated requests change anything, answers are well formed, errors change nothing.
  \<^item> \<open>Config\<close>, \<open>Config_Load\<close> (config/*.go): the options, their table, validation, the files, their precedence.
  \<^item> \<open>Ui_Text\<close>, \<open>Ui_Render\<close>, \<open>Prompt\<close> (ui/*.go): UTF-8, cell widths, numbers; lines, frames and what the terminal
    shows of them; the confirmation.
  \<^item> \<open>Logging\<close> (logging/logging.go), \<open>Update\<close> (update/update.go).
  \<^item> \<open>Cli\<close> (cmd/odm/main.go): the run from arguments to exit status, and the start of the daemon.

  \<^bold>\<open>Termination.\<close> There is no fuel. Two loops of the code need not end in themselves and are partial functions
  into option, where None is not returning: the splitter of \<open>NewChunkQueue\<close>, whose offset wraps around, and the search
  of \<open>uniqueName\<close> for a free name; that they return is proved (\<open>NewChunkQueue_tiles\<close>, \<open>uniqueName_lowest\<close>). All
  other loops over data are structural or have a measure: the connections left to distribute, the URLs of a probe worker,
  the bytes left to hash or to decode, the redirects left, the units left to scale by; retries run over the attempts
  there are. Loops of goroutines are step relations, and that they end is a property of their runs
  (\<open>cancelled_run_returns\<close>).

  \<^bold>\<open>What a property assumes.\<close> Hypotheses on parameters are the documented behaviour of what they stand for: a canonical
  header key, an IP literal from a resolver, any permutation for a map order. Every property with a hypothesis has a
  witness that uses it on concrete data.

  \<^bold>\<open>Not modelled.\<close> The network, TLS, the SOCKS handshake, the HTTP and WebSocket protocols and the token bucket
  of golang.org/x/time/rate are libraries, present by what they answer. Parsers of encoding/json, encoding/xml, net/url,
  mime and pflag enter by what they return; hash functions by the digest they give. Case folding and white space are
  the ASCII part of package strings. The wait inside the token bucket, context timeouts as such (they appear as failing
  reads), the ioctl itself, redraw goroutines and their mutex, signals as such (they appear as cancellation or missing
  results), the usage text, the printed texts of the updater, the version constant, and \<open>Manager.Run\<close>, which the program
  does not call, are left out.
\<close>

end
